(* ===== verification/Prelude.thy ===== *)
theory Prelude
  imports Main "HOL-Library.Char_ord" "HOL-Library.List_Lexorder"
begin

text \<open>
  What every component of the model shares.

  Go strings and byte slices are sequences of bytes: a string of the model is a
  \<^typ>\<open>string\<close>, a list of 8-bit characters, so that \<open>len\<close>, indexing, slicing and the
  comparison of strings mean what they mean in Go.  The functions of the package
  \<^verbatim>\<open>strings\<close> the sources call are defined here on byte lists; \<open>TrimSpace\<close> strips the
  UTF-8 encodings of all the runes of \<^verbatim>\<open>unicode.IsSpace\<close>.

  A Go function that returns \<^verbatim>\<open>(string, bool)\<close> is a function into
  \<^typ>\<open>string \<times> bool\<close>; the results Go leaves in place on failure (the empty string) are
  kept, since some callers ignore the flag.  A function that can panic, or whose loop
  needs an argument to end, has an \<open>option\<close> result and \<open>None\<close> is the panic or the
  divergence.
\<close>

named_theorems go_strings \<open>unfolding rules for the string library\<close>

named_theorems codec_simps \<open>what the wire decoder does on the output of the wire encoder\<close>

type_synonym byte = char

abbreviation byte_val :: "char \<Rightarrow> nat" where
  "byte_val c \<equiv> of_char c"

section \<open>Package strings\<close>

definition HasPrefix :: "string \<Rightarrow> string \<Rightarrow> bool" where
  "HasPrefix s p = (take (length p) s = p)"

definition HasSuffix :: "string \<Rightarrow> string \<Rightarrow> bool" where
  "HasSuffix s p = (length p \<le> length s \<and> drop (length s - length p) s = p)"

definition TrimPrefix :: "string \<Rightarrow> string \<Rightarrow> string" where
  "TrimPrefix s p = (if HasPrefix s p then drop (length p) s else s)"

text \<open>\<^verbatim>\<open>strings.Compare\<close> is the bytewise lexicographic comparison.\<close>

fun Compare :: "string \<Rightarrow> string \<Rightarrow> int" where
  "Compare [] [] = 0"
| "Compare [] (_ # _) = -1"
| "Compare (_ # _) [] = 1"
| "Compare (a # as) (b # bs) =
     (if byte_val a < (byte_val b :: nat) then -1
      else if byte_val b < (byte_val a :: nat) then 1
      else Compare as bs)"

text \<open>
  \<^verbatim>\<open>strings.IndexByte\<close>: the offset of the first occurrence, \<open>None\<close> for Go's \<open>-1\<close>.
  \<open>IndexAny\<close> does the same for a set of ASCII bytes.
\<close>

fun index_where :: "(char \<Rightarrow> bool) \<Rightarrow> string \<Rightarrow> nat option" where
  "index_where p [] = None"
| "index_where p (c # s) = (if p c then Some 0 else map_option Suc (index_where p s))"

definition IndexByte :: "string \<Rightarrow> char \<Rightarrow> nat option" where
  "IndexByte s c = index_where (\<lambda>x. x = c) s"

definition IndexAny :: "string \<Rightarrow> string \<Rightarrow> nat option" where
  "IndexAny s cs = index_where (\<lambda>x. x \<in> set cs) s"

definition ContainsAny :: "string \<Rightarrow> string \<Rightarrow> bool" where
  "ContainsAny s cs = list_ex (\<lambda>x. x \<in> set cs) s"

text \<open>\<^verbatim>\<open>strings.ReplaceAll(s, c, "")\<close> for a one-byte pattern.\<close>

definition RemoveByte :: "string \<Rightarrow> char \<Rightarrow> string" where
  "RemoveByte s c = filter (\<lambda>x. x \<noteq> c) s"

definition Repeat :: "string \<Rightarrow> nat \<Rightarrow> string" where
  "Repeat s n = concat (replicate n s)"

text \<open>
  The UTF-8 encodings of the runes of \<^verbatim>\<open>unicode.IsSpace\<close>: the six ASCII spaces, U+0085,
  U+00A0, U+1680, U+2000 to U+200A, U+2028, U+2029, U+202F, U+205F and U+3000.
\<close>

definition space_encodings :: "nat list list" where
  "space_encodings =
     [[9], [10], [11], [12], [13], [32], [194, 133], [194, 160], [225, 154, 128],
      [226, 128, 128], [226, 128, 129], [226, 128, 130], [226, 128, 131], [226, 128, 132],
      [226, 128, 133], [226, 128, 134], [226, 128, 135], [226, 128, 136], [226, 128, 137],
      [226, 128, 138], [226, 128, 168], [226, 128, 169], [226, 128, 175], [226, 129, 159],
      [227, 128, 128]]"

definition starts_with_space :: "nat list list \<Rightarrow> string \<Rightarrow> nat" where
  "starts_with_space encs s =
     (case find (\<lambda>e. take (length e) (map byte_val s) = e) encs of
        None \<Rightarrow> 0 | Some e \<Rightarrow> length e)"

function (sequential) strip_spaces :: "nat list list \<Rightarrow> string \<Rightarrow> string" where
  "strip_spaces encs [] = []"
| "strip_spaces encs (c # s) =
     (let n = starts_with_space encs (c # s) in
      if n = 0 then c # s else strip_spaces encs (drop n (c # s)))"
  by pat_completeness auto
termination
  by (relation "measure (\<lambda>(encs, s). length s)") auto

text \<open>
  \<^verbatim>\<open>strings.TrimSpace\<close>: leading spaces are read forwards, trailing spaces backwards, so the
  second pass strips the reversed encodings off the reversed string.
\<close>

definition TrimSpace :: "string \<Rightarrow> string" where
  "TrimSpace s =
     rev (strip_spaces (map rev space_encodings) (rev (strip_spaces space_encodings s)))"

section \<open>Machine integers\<close>

text \<open>
  The limb arithmetic of the constant package runs on \<^verbatim>\<open>uint64\<close>: a natural number below
  \<open>2 ^ 64\<close>, every sum, product and difference reduced.
\<close>

type_synonym uint64 = nat

definition u64 :: "nat \<Rightarrow> uint64" where
  "u64 n = n mod 2 ^ 64"

definition u64_sub :: "uint64 \<Rightarrow> uint64 \<Rightarrow> uint64" where
  "u64_sub a b = (a + 2 ^ 64 - b) mod 2 ^ 64"

lemma u64_small: "n < 2 ^ 64 \<Longrightarrow> u64 n = n"
  by (simp add: u64_def)

lemma u64_sub_small: "b \<le> a \<Longrightarrow> a < 2 ^ 64 \<Longrightarrow> u64_sub a b = a - b"
  by (simp add: u64_sub_def mod_if)

lemma u64_bound: "u64 n < 2 ^ 64"
  by (simp add: u64_def)

lemma div_mod_shift:
  fixes b q r x :: nat
  assumes "x = b * q + r"
  shows "0 < b \<Longrightarrow> x div b = q + r div b" and "x mod b = r mod b"
  using assms by simp_all

lemma sum_div_mod: "m + n + c = b * (m div b + n div b) + (c + m mod b + n mod b)"
  for b c m n :: nat
proof -
  have "m + n + c = (b * (m div b) + m mod b) + (b * (n div b) + n mod b) + c" by simp
  also have "\<dots> = b * (m div b + n div b) + (c + m mod b + n mod b)"
    by (simp only: distrib_left ac_simps)
  finally show ?thesis .
qed

section \<open>Facts on the string library\<close>

lemma HasPrefix_Cons [simp]: "HasPrefix s [c] = (s \<noteq> [] \<and> hd s = c)"
  by (cases s) (auto simp: HasPrefix_def)

lemma TrimPrefix_Cons [simp]: "TrimPrefix s [c] = (if s \<noteq> [] \<and> hd s = c then tl s else s)"
  by (cases s) (auto simp: TrimPrefix_def)

lemma Compare_eq_0 [simp]: "Compare a b = 0 \<longleftrightarrow> a = b"
  by (induction a b rule: Compare.induct) (auto simp: linorder_neq_iff)

lemma Compare_refl [simp]: "Compare a a = 0"
  by simp

lemma Compare_antisym: "Compare b a = - Compare a b"
  by (induction a b rule: Compare.induct) auto

lemma Compare_range: "Compare a b \<in> {-1, 0, 1}"
  by (induction a b rule: Compare.induct) auto

lemma index_where_None [simp]: "index_where p s = None \<longleftrightarrow> (\<forall>c \<in> set s. \<not> p c)"
  by (induction s) auto

lemma index_where_split:
  "\<forall>x \<in> set s. \<not> p x \<Longrightarrow> p c \<Longrightarrow> index_where p (s @ c # t) = Some (length s)"
  by (induction s) auto

lemma IndexByte_None [simp]: "IndexByte s c = None \<longleftrightarrow> c \<notin> set s"
  by (auto simp: IndexByte_def)

lemma IndexByte_absent [simp]: "c \<notin> set s \<Longrightarrow> IndexByte s c = None"
  by simp

lemma IndexByte_split: "c \<notin> set s \<Longrightarrow> IndexByte (s @ c # t) c = Some (length s)"
  unfolding IndexByte_def by (rule index_where_split) auto

lemma IndexAny_None [simp]: "IndexAny s cs = None \<longleftrightarrow> set cs \<inter> set s = {}"
  by (auto simp: IndexAny_def)

lemma IndexAny_absent [simp]: "set cs \<inter> set s = {} \<Longrightarrow> IndexAny s cs = None"
  by simp

lemma IndexAny_split:
  "set cs \<inter> set s = {} \<Longrightarrow> c \<in> set cs \<Longrightarrow> IndexAny (s @ c # t) cs = Some (length s)"
  unfolding IndexAny_def by (rule index_where_split) auto

lemma ContainsAny_iff: "ContainsAny s cs \<longleftrightarrow> set cs \<inter> set s \<noteq> {}"
  by (auto simp: ContainsAny_def list_ex_iff)

lemma RemoveByte_id: "c \<notin> set s \<Longrightarrow> RemoveByte s c = s"
  by (auto simp: RemoveByte_def filter_id_conv)

lemma HasSuffix_single: "HasSuffix s [c] \<longleftrightarrow> s \<noteq> [] \<and> last s = c"
  by (cases s rule: rev_cases) (auto simp: HasSuffix_def)

lemma HasPrefix_marked: "HasPrefix s (a # c # t) \<Longrightarrow> c \<in> set s"
  by (cases s; cases "tl s") (auto simp: HasPrefix_def)

end
