(* ===== verification/Digits.thy ===== *)
theory Digits
  imports Prelude
begin

text \<open>
  Decimal notation: what a string of digits denotes, the canonical string of a number, and
  that the two are inverse to each other.  The canonical strings are what
  \<^verbatim>\<open>strconv.FormatUint(n, 10)\<close> prints, and they are the invariant of every string the
  arithmetic of \<^verbatim>\<open>compiler/constant\<close> works on.  The parsers of \<^verbatim>\<open>strconv\<close> the package calls
  are here too.
\<close>

section \<open>Digits\<close>

definition is_digit :: "char \<Rightarrow> bool" where
  "is_digit c = (48 \<le> (byte_val c :: nat) \<and> (byte_val c :: nat) \<le> 57)"

text \<open>The byte expression \<^verbatim>\<open>c - '0'\<close>, which wraps below \<^verbatim>\<open>'0'\<close>.\<close>

definition digit_val :: "char \<Rightarrow> nat" where
  "digit_val c = (byte_val c + 208) mod 256"

text \<open>The byte expression \<^verbatim>\<open>byte('0' + n)\<close>.\<close>

definition digit_char :: "nat \<Rightarrow> char" where
  "digit_char n = char_of (48 + n)"

definition digits_val :: "nat \<Rightarrow> string \<Rightarrow> nat" where
  "digits_val acc s = foldl (\<lambda>n c. n * 10 + digit_val c) acc s"

definition dec_val :: "string \<Rightarrow> nat" where
  "dec_val s = digits_val 0 s"

text \<open>\<^verbatim>\<open>strconv.FormatUint(n, 10)\<close>, and \<^verbatim>\<open>strconv.Itoa\<close> on non-negative numbers.\<close>

fun FormatUint :: "nat \<Rightarrow> string" where
  "FormatUint n = (if n < 10 then [digit_char n] else FormatUint (n div 10) @ [digit_char (n mod 10)])"

declare FormatUint.simps [simp del]

text \<open>Canonical digit strings: at least one digit and no leading zero.\<close>

definition canonical :: "string \<Rightarrow> bool" where
  "canonical s = (s \<noteq> [] \<and> list_all is_digit s \<and> (hd s = CHR ''0'' \<longrightarrow> s = ''0''))"

definition FormatInt :: "int \<Rightarrow> string" where
  "FormatInt i = (if i < 0 then CHR ''-'' # FormatUint (nat (- i)) else FormatUint (nat i))"

section \<open>Package strconv: parsing\<close>

text \<open>The value of an alphanumeric digit, as \<^verbatim>\<open>strconv.ParseUint\<close> reads it.\<close>

definition alnum_val :: "char \<Rightarrow> nat option" where
  "alnum_val c =
     (let b = byte_val c :: nat in
      if 48 \<le> b \<and> b \<le> 57 then Some (b - 48)
      else if 97 \<le> b \<and> b \<le> 122 then Some (b - 97 + 10)
      else if 65 \<le> b \<and> b \<le> 90 then Some (b - 65 + 10)
      else None)"

text \<open>
  \<^verbatim>\<open>strconv.ParseUint(s, base, 64)\<close> for a base other than 0: \<open>None\<close> is the error (an empty
  string, a byte that is no digit of the base, or a value out of range).
\<close>

fun parse_base :: "nat \<Rightarrow> nat \<Rightarrow> string \<Rightarrow> nat option" where
  "parse_base base acc [] = Some acc"
| "parse_base base acc (c # s) =
     (case alnum_val c of
        None \<Rightarrow> None
      | Some d \<Rightarrow> if d < base then parse_base base (acc * base + d) s else None)"

definition ParseUint :: "string \<Rightarrow> nat \<Rightarrow> nat option" where
  "ParseUint s base =
     (if s = [] then None
      else case parse_base base 0 s of
             None \<Rightarrow> None
           | Some n \<Rightarrow> if n < 2 ^ 64 then Some n else None)"

text \<open>\<^verbatim>\<open>strconv.ParseInt(s, 10, 64)\<close>.\<close>

definition ParseInt64 :: "string \<Rightarrow> int option" where
  "ParseInt64 s =
     (let neg = (s \<noteq> [] \<and> hd s = CHR ''-'');
          t = (if s \<noteq> [] \<and> (hd s = CHR ''-'' \<or> hd s = CHR ''+'') then tl s else s)
      in case ParseUint t 10 of
           None \<Rightarrow> None
         | Some n \<Rightarrow>
             if neg then (if n \<le> 2 ^ 63 then Some (- int n) else None)
             else (if n < 2 ^ 63 then Some (int n) else None))"

section \<open>Lemmas\<close>

lemma digit_val_digit_char [simp]: "n < 10 \<Longrightarrow> digit_val (digit_char n) = n"
  by (simp add: digit_val_def digit_char_def)

lemma is_digit_digit_char [simp]: "n < 10 \<Longrightarrow> is_digit (digit_char n)"
  by (simp add: is_digit_def digit_char_def)

lemma digit_val_of_digit: "is_digit c \<Longrightarrow> digit_val c = byte_val c - 48"
  by (auto simp: is_digit_def digit_val_def mod_if)

lemma digit_val_less [simp]: "is_digit c \<Longrightarrow> digit_val c < 10"
  by (auto simp: is_digit_def digit_val_def mod_if)

lemma digit_char_digit_val [simp]: "is_digit c \<Longrightarrow> digit_char (digit_val c) = c"
  by (auto simp: is_digit_def digit_val_of_digit digit_char_def)

lemma digit_val_inj: "is_digit c \<Longrightarrow> is_digit d \<Longrightarrow> digit_val c = digit_val d \<Longrightarrow> c = d"
  by (metis digit_char_digit_val)

lemma digit_val_less_iff:
  "is_digit c \<Longrightarrow> is_digit d \<Longrightarrow> digit_val c < digit_val d \<longleftrightarrow> byte_val c < (byte_val d :: nat)"
  by (auto simp: is_digit_def digit_val_of_digit)

lemma is_digit_0 [simp]: "is_digit CHR ''0''"
  by (simp add: is_digit_def)

lemma digit_val_0 [simp]: "digit_val CHR ''0'' = 0"
  by (simp add: digit_val_def)

lemma digit_char_0: "digit_char 0 = CHR ''0''"
  using digit_char_digit_val [OF is_digit_0] by simp

lemma digit_char_1: "digit_char (Suc 0) = CHR ''1''"
  using digit_char_digit_val [of "CHR ''1''"] by (simp add: is_digit_def digit_val_def)

lemma digit_char_inj: "a < 10 \<Longrightarrow> b < 10 \<Longrightarrow> digit_char a = digit_char b \<Longrightarrow> a = b"
  by (metis digit_val_digit_char)

lemma digit_char_eq_0 [simp]: "n < 10 \<Longrightarrow> digit_char n = CHR ''0'' \<longleftrightarrow> n = 0"
  by (metis digit_char_0 digit_char_inj zero_less_numeral)

lemma is_digit_eq_0: "is_digit c \<Longrightarrow> digit_val c = 0 \<longleftrightarrow> c = CHR ''0''"
  by (metis digit_val_0 digit_val_inj is_digit_0)

lemma not_is_digit [simp]:
  "\<not> is_digit CHR ''-''" "\<not> is_digit CHR ''+''" "\<not> is_digit CHR ''/''" "\<not> is_digit CHR ''.''"
  "\<not> is_digit CHR ''e''" "\<not> is_digit CHR ''E''" "\<not> is_digit CHR ''_''" "\<not> is_digit CHR ''i''"
  "\<not> is_digit CHR ''p''" "\<not> is_digit CHR ''P''" "\<not> is_digit CHR ''x''" "\<not> is_digit CHR ''X''"
  by (simp_all add: is_digit_def)

lemma digits_val_append: "digits_val a (s @ t) = digits_val (digits_val a s) t"
  by (simp add: digits_val_def)

lemma digits_val_acc: "digits_val a s = a * 10 ^ length s + digits_val 0 s"
proof (induction s arbitrary: a)
  case Nil
  show ?case by (simp add: digits_val_def)
next
  case (Cons c s)
  have step: "digits_val a (c # s) = digits_val (a * 10 + digit_val c) s" for a
    by (simp add: digits_val_def)
  show ?case
    unfolding step
    by (subst (1 2) Cons.IH) (simp add: algebra_simps)
qed

lemma dec_val_Nil [simp]: "dec_val [] = 0"
  by (simp add: dec_val_def digits_val_def)

lemma dec_val_snoc [simp]: "dec_val (s @ [c]) = dec_val s * 10 + digit_val c"
  by (simp add: dec_val_def digits_val_def)

lemma dec_val_append: "dec_val (s @ t) = dec_val s * 10 ^ length t + dec_val t"
  unfolding dec_val_def by (subst digits_val_append) (rule digits_val_acc)

lemma dec_val_Cons: "dec_val (c # s) = digit_val c * 10 ^ length s + dec_val s"
  using dec_val_append [of "[c]" s] dec_val_snoc [of "[]" c] by simp

lemma dec_val_less: "list_all is_digit s \<Longrightarrow> dec_val s < 10 ^ length s"
proof (induction s)
  case Nil
  then show ?case by simp
next
  case (Cons c s)
  then have "digit_val c < 10" and "dec_val s < 10 ^ length s"
    by simp_all
  moreover from this(1) have "digit_val c \<le> 9"
    by linarith
  ultimately have "digit_val c * 10 ^ length s + dec_val s < 9 * 10 ^ length s + 10 ^ length s"
    by (meson add_le_less_mono mult_le_mono1)
  then show ?case by (simp add: dec_val_Cons)
qed

lemma dec_val_replicate_0 [simp]: "dec_val (replicate n CHR ''0'') = 0"
  by (induction n) (simp_all add: dec_val_Cons)

lemma dec_val_singleton [simp]: "dec_val [c] = digit_val c"
  using dec_val_snoc [of "[]" c] by simp

lemma FormatUint_small: "n < 10 \<Longrightarrow> FormatUint n = [digit_char n]"
  by (simp add: FormatUint.simps)

lemma FormatUint_large: "10 \<le> n \<Longrightarrow> FormatUint n = FormatUint (n div 10) @ [digit_char (n mod 10)]"
  by (subst FormatUint.simps) simp

lemma FormatUint_nonempty [simp]: "FormatUint n \<noteq> []"
  by (subst FormatUint.simps) simp

lemma FormatUint_digits [simp]: "list_all is_digit (FormatUint n)"
proof (induction n rule: FormatUint.induct)
  case (1 n)
  then show ?case by (subst FormatUint.simps) auto
qed

lemma dec_val_FormatUint [simp]: "dec_val (FormatUint n) = n"
proof (induction n rule: FormatUint.induct)
  case (1 n)
  then show ?case by (subst FormatUint.simps) auto
qed

lemma hd_FormatUint: "hd (FormatUint n) = CHR ''0'' \<longleftrightarrow> n = 0"
proof (induction n rule: FormatUint.induct)
  case (1 n)
  then show ?case by (cases "n < 10") (auto simp: FormatUint_small FormatUint_large)
qed

lemma FormatUint_0 [simp]: "FormatUint 0 = ''0''"
  by (simp add: FormatUint_small digit_char_0)

lemma FormatUint_1 [simp]: "FormatUint (Suc 0) = ''1''"
  by (simp add: FormatUint_small digit_char_1)

lemma canonical_FormatUint [simp]: "canonical (FormatUint n)"
  by (auto simp: canonical_def hd_FormatUint)

lemma FormatUint_dec_val:
  "canonical s \<Longrightarrow> FormatUint (dec_val s) = s"
proof (induction s rule: rev_induct)
  case Nil
  then show ?case by (simp add: canonical_def)
next
  case (snoc c s)
  show ?case
  proof (cases "s = []")
    case True
    with snoc.prems show ?thesis by (auto simp: canonical_def FormatUint_small)
  next
    case False
    with snoc.prems have hd: "hd s \<noteq> CHR ''0''" and dig: "list_all is_digit s" "is_digit c"
      by (auto simp: canonical_def)
    with False have can: "canonical s" by (auto simp: canonical_def)
    have "dec_val s \<noteq> 0"
      using snoc.IH [OF can] hd by (metis FormatUint_0 list.sel(1))
    then have "10 \<le> dec_val (s @ [c])" by simp
    with snoc.IH [OF can] dig show ?thesis by (simp add: FormatUint_large)
  qed
qed

lemma canonical_iff: "canonical s \<longleftrightarrow> (\<exists>n. s = FormatUint n)"
  by (metis FormatUint_dec_val canonical_FormatUint)

lemma FormatUint_inject [simp]: "FormatUint m = FormatUint n \<longleftrightarrow> m = n"
  by (metis dec_val_FormatUint)

lemma FormatUint_eq_0 [simp]: "FormatUint n = ''0'' \<longleftrightarrow> n = 0"
  by (metis FormatUint_0 FormatUint_inject)

lemma FormatUint_eq_1 [simp]: "FormatUint n = ''1'' \<longleftrightarrow> n = 1"
  by (metis FormatUint_1 FormatUint_inject One_nat_def)

lemma hd_FormatUint_digit: "is_digit (hd (FormatUint n))"
  using FormatUint_digits [of n] FormatUint_nonempty [of n]
  by (metis list.set_sel(1) list_all_iff)

lemma hd_FormatUint_not_sign [simp]:
  "hd (FormatUint n) \<noteq> CHR ''-''" "hd (FormatUint n) \<noteq> CHR ''+''"
  using hd_FormatUint_digit [of n] by auto

lemma FormatUint_neq_sign [simp]: "FormatUint n \<noteq> CHR ''-'' # s" "FormatUint n \<noteq> CHR ''+'' # s"
  using hd_FormatUint_not_sign [of n] by (metis list.sel(1))+

lemma FormatUint_length_bounds:
  "n < 10 ^ length (FormatUint n)" "n \<noteq> 0 \<Longrightarrow> 10 ^ (length (FormatUint n) - 1) \<le> n"
proof -
  show "n < 10 ^ length (FormatUint n)"
    using dec_val_less [OF FormatUint_digits, of n] by simp
next
  assume "n \<noteq> 0"
  obtain c s where cs: "FormatUint n = c # s" by (cases "FormatUint n") auto
  have "digit_val c \<noteq> 0"
    using cs \<open>n \<noteq> 0\<close> hd_FormatUint [of n] hd_FormatUint_digit [of n] by (simp add: is_digit_eq_0)
  then have "10 ^ length s \<le> digit_val c * 10 ^ length s" by simp
  also have "\<dots> \<le> n" using dec_val_FormatUint [of n] cs by (simp add: dec_val_Cons)
  finally show "10 ^ (length (FormatUint n) - 1) \<le> n" using cs by simp
qed

lemma FormatUint_length_mono: "length (FormatUint m) < length (FormatUint n) \<Longrightarrow> m < n"
proof -
  assume len: "length (FormatUint m) < length (FormatUint n)"
  show "m < n"
  proof (cases "n = 0")
    case True
    with len show ?thesis by (cases "FormatUint m") auto
  next
    case False
    have "m < 10 ^ length (FormatUint m)" by (rule FormatUint_length_bounds)
    also have "\<dots> \<le> 10 ^ (length (FormatUint n) - 1)"
      using len by (intro power_increasing) auto
    also have "\<dots> \<le> n" using False by (rule FormatUint_length_bounds)
    finally show ?thesis .
  qed
qed

lemma Compare_digits:
  "length s = length t \<Longrightarrow> list_all is_digit s \<Longrightarrow> list_all is_digit t \<Longrightarrow>
    Compare s t = sgn (int (dec_val s) - int (dec_val t))"
proof (induction s t rule: list_induct2)
  case Nil
  then show ?case by simp
next
  case (Cons c s d t)
  then have dig: "is_digit c" "is_digit d" and len: "length s = length t"
    and lt: "dec_val s < 10 ^ length s" "dec_val t < 10 ^ length t"
    using dec_val_less [of s] dec_val_less [of t] by auto
  show ?case
  proof (cases "digit_val c" "digit_val d" rule: linorder_cases)
    case less
    then have "Suc (digit_val c) * 10 ^ length t \<le> digit_val d * 10 ^ length t"
      by (intro mult_le_mono1) simp
    then have "dec_val (c # s) < dec_val (d # t)"
      using lt len by (simp add: dec_val_Cons)
    with less dig show ?thesis by (simp add: digit_val_less_iff)
  next
    case equal
    with dig have "c = d" by (rule digit_val_inj)
    with Cons show ?thesis by (simp add: dec_val_Cons)
  next
    case greater
    then have "Suc (digit_val d) * 10 ^ length s \<le> digit_val c * 10 ^ length s"
      by (intro mult_le_mono1) simp
    then have "dec_val (d # t) < dec_val (c # s)"
      using lt len by (simp add: dec_val_Cons)
    with greater dig show ?thesis by (simp add: digit_val_less_iff [symmetric])
  qed
qed

section \<open>Lemmas on the parsers of strconv\<close>

lemma alnum_val_digit: "is_digit c \<Longrightarrow> alnum_val c = Some (digit_val c)"
  by (simp add: alnum_val_def is_digit_def digit_val_of_digit)

lemma parse_base_digits: "list_all is_digit s \<Longrightarrow> parse_base 10 acc s = Some (digits_val acc s)"
  by (induction s arbitrary: acc) (simp_all add: digits_val_def alnum_val_digit)

lemma ParseUint_digits:
  "list_all is_digit s \<Longrightarrow> s \<noteq> [] \<Longrightarrow>
    ParseUint s 10 = (if dec_val s < 2 ^ 64 then Some (dec_val s) else None)"
  by (simp add: ParseUint_def parse_base_digits dec_val_def)

lemma ParseUint_FormatUint [simp]:
  "ParseUint (FormatUint n) 10 = (if n < 2 ^ 64 then Some n else None)"
  by (simp add: ParseUint_digits)

lemma ParseInt64_FormatInt:
  "ParseInt64 (FormatInt i) = (if - (2 ^ 63) \<le> i \<and> i < 2 ^ 63 then Some i else None)"
  by (auto simp: ParseInt64_def FormatInt_def)

section \<open>Signed decimals\<close>

lemma FormatInt_of_nat [simp]: "FormatInt (int n) = FormatUint n"
  by (simp add: FormatInt_def)

lemma FormatInt_nonempty [simp]: "FormatInt i \<noteq> []"
  by (simp add: FormatInt_def)

lemma FormatInt_hd_minus [simp]: "hd (FormatInt i) = CHR ''-'' \<longleftrightarrow> i < 0"
  by (simp add: FormatInt_def)

lemma FormatInt_hd_plus [simp]: "hd (FormatInt i) \<noteq> CHR ''+''"
  by (simp add: FormatInt_def)

lemma FormatInt_magnitude: "TrimPrefix (FormatInt i) ''-'' = FormatUint (nat \<bar>i\<bar>)"
  by (simp add: FormatInt_def)

lemma FormatInt_eq_0 [simp]: "FormatInt i = ''0'' \<longleftrightarrow> i = 0"
  by (auto simp: FormatInt_def)

lemma FormatInt_0: "FormatInt 0 = ''0''"
  by simp

lemma FormatInt_abs:
  "FormatInt i = (if i < 0 then CHR ''-'' # FormatUint (nat \<bar>i\<bar>) else FormatUint (nat \<bar>i\<bar>))"
  by (simp add: FormatInt_def)

lemma FormatInt_inject [simp]: "FormatInt i = FormatInt j \<longleftrightarrow> i = j"
proof
  assume eq: "FormatInt i = FormatInt j"
  then have "i < 0 \<longleftrightarrow> j < 0" by (metis FormatInt_hd_minus)
  with eq show "i = j" by (auto simp: FormatInt_def split: if_splits)
qed simp

end
