(* ===== verification/Decimal_Text.thy ===== *)
theory Decimal_Text
  imports Digits
begin

text \<open>
  The digit-by-digit half of \<^verbatim>\<open>compiler/constant/decimal.go\<close>: normalisation, comparison,
  addition, subtraction and halving of decimal strings, and the bit strings
  \<^verbatim>\<open>BitwiseSignedDecimal\<close> works on.  Loops that run an index from the end of a string are
  recursions over the reversed string.
\<close>

section \<open>Normalisation\<close>

text \<open>The guard both normalisers share before they call \<^verbatim>\<open>strings.TrimSpace\<close>.\<close>

definition trim_guarded :: "string \<Rightarrow> string" where
  "trim_guarded text =
     (if text \<noteq> [] \<and> (byte_val (hd text) \<le> (32 :: nat) \<or> byte_val (last text) \<le> (32 :: nat)
          \<or> (128 :: nat) \<le> byte_val (hd text) \<or> (128 :: nat) \<le> byte_val (last text))
      then TrimSpace text else text)"

definition normalizeUnsignedDecimal :: "string \<Rightarrow> string \<times> bool" where
  "normalizeUnsignedDecimal text0 =
     (let text = trim_guarded text0 in
      if text = [] then ([], False)
      else
        let first = length (takeWhile (\<lambda>c. c = CHR ''0'') text) in
        if first = length text then (''0'', True)
        else if list_all is_digit (drop first text) then (drop first text, True)
        else ([], False))"

definition NormalizeSignedDecimal :: "string \<Rightarrow> string \<times> bool" where
  "NormalizeSignedDecimal text0 =
     (let text = trim_guarded text0 in
      if text = [] then ([], False)
      else
        let sgn = (if hd text = CHR ''-'' then ''-'' else []);
            rest = (if hd text = CHR ''+'' \<or> hd text = CHR ''-'' then tl text else text);
            (unsigned, ok) = normalizeUnsignedDecimal rest
        in if \<not> ok then ([], False)
           else if unsigned = ''0'' then (''0'', True)
           else (sgn @ unsigned, True))"

definition SignedDecimalInt64 :: "string \<Rightarrow> int \<times> bool" where
  "SignedDecimalInt64 text0 =
     (let (text, ok) = NormalizeSignedDecimal text0 in
      if \<not> ok then (0, False)
      else case ParseInt64 text of None \<Rightarrow> (0, False) | Some v \<Rightarrow> (v, True))"

section \<open>Comparison\<close>

definition compareCanonicalDecimal :: "string \<Rightarrow> string \<Rightarrow> int" where
  "compareCanonicalDecimal left right =
     (if length left < length right then -1
      else if length right < length left then 1
      else Compare left right)"

definition CompareSignedDecimal :: "string \<Rightarrow> string \<Rightarrow> int" where
  "CompareSignedDecimal left0 right0 =
     (let (left, leftOK) = NormalizeSignedDecimal left0;
          (right, rightOK) = NormalizeSignedDecimal right0
      in if \<not> leftOK \<or> \<not> rightOK then Compare left right
         else
           let leftNegative = HasPrefix left ''-'';
               rightNegative = HasPrefix right ''-''
           in if leftNegative \<and> \<not> rightNegative then -1
              else if \<not> leftNegative \<and> rightNegative then 1
              else
                let comparison =
                      compareCanonicalDecimal (TrimPrefix left ''-'') (TrimPrefix right ''-'')
                in if leftNegative then - comparison else comparison)"

definition CompareUnsignedDecimal :: "string \<Rightarrow> string \<Rightarrow> int" where
  "CompareUnsignedDecimal left0 right0 =
     (let (left, leftOK) = normalizeUnsignedDecimal left0;
          (right, rightOK) = normalizeUnsignedDecimal right0
      in if \<not> leftOK \<or> \<not> rightOK then Compare left right
         else compareCanonicalDecimal left right)"

section \<open>Addition and subtraction\<close>

text \<open>
  The loop of \<^verbatim>\<open>addCanonicalDecimal\<close>: the digits still to be read, last first, and the
  carry.  The result is the output before it is reversed.
\<close>

function (sequential) add_loop :: "string \<Rightarrow> string \<Rightarrow> nat \<Rightarrow> string" where
  "add_loop [] [] carry =
     (if carry \<noteq> 0 then digit_char (carry mod 10) # add_loop [] [] (carry div 10) else [])"
| "add_loop (a # as) [] carry =
     (let sum = carry + digit_val a in digit_char (sum mod 10) # add_loop as [] (sum div 10))"
| "add_loop [] (b # bs) carry =
     (let sum = carry + digit_val b in digit_char (sum mod 10) # add_loop [] bs (sum div 10))"
| "add_loop (a # as) (b # bs) carry =
     (let sum = carry + digit_val a + digit_val b
      in digit_char (sum mod 10) # add_loop as bs (sum div 10))"
  by pat_completeness auto
termination
  by (relation "measures [\<lambda>(as, bs, carry). length as + length bs, \<lambda>(as, bs, carry). carry]") auto

definition addCanonicalDecimal :: "string \<Rightarrow> string \<Rightarrow> string" where
  "addCanonicalDecimal left right = rev (add_loop (rev left) (rev right) 0)"

definition AddUnsignedDecimal :: "string \<Rightarrow> string \<Rightarrow> string" where
  "AddUnsignedDecimal left right =
     addCanonicalDecimal (fst (normalizeUnsignedDecimal left)) (fst (normalizeUnsignedDecimal right))"

text \<open>The loop of \<^verbatim>\<open>subtractCanonicalDecimal\<close>; the difference is an \<^verbatim>\<open>int\<close> and may be negative.\<close>

fun sub_loop :: "string \<Rightarrow> string \<Rightarrow> int \<Rightarrow> string" where
  "sub_loop [] bs borrow = []"
| "sub_loop (a # as) bs borrow =
     (let difference = int (digit_val a) - borrow - (case bs of [] \<Rightarrow> 0 | b # _ \<Rightarrow> int (digit_val b))
      in if difference < 0
         then digit_char (nat (difference + 10)) # sub_loop as (tl bs) 1
         else digit_char (nat difference) # sub_loop as (tl bs) 0)"

text \<open>The final loop drops leading zeros but always keeps the last byte.\<close>

fun drop_zeros :: "string \<Rightarrow> string" where
  "drop_zeros (a # b # s) = (if a = CHR ''0'' then drop_zeros (b # s) else a # b # s)"
| "drop_zeros s = s"

definition subtractCanonicalDecimal :: "string \<Rightarrow> string \<Rightarrow> string" where
  "subtractCanonicalDecimal left right = drop_zeros (rev (sub_loop (rev left) (rev right) 0))"

definition SubtractUnsignedDecimal :: "string \<Rightarrow> string \<Rightarrow> string \<times> bool" where
  "SubtractUnsignedDecimal left0 right0 =
     (let (left, leftOK) = normalizeUnsignedDecimal left0;
          (right, rightOK) = normalizeUnsignedDecimal right0
      in if \<not> leftOK \<or> \<not> rightOK \<or> compareCanonicalDecimal left right < 0 then ([], False)
         else (subtractCanonicalDecimal left right, True))"

definition NegateSignedDecimal :: "string \<Rightarrow> string \<times> bool" where
  "NegateSignedDecimal text0 =
     (let (text, ok) = NormalizeSignedDecimal text0 in
      if \<not> ok then ([], False)
      else if text = ''0'' then (''0'', True)
      else if HasPrefix text ''-'' then (TrimPrefix text ''-'', True)
      else (CHR ''-'' # text, True))"

definition AddSignedDecimal :: "string \<Rightarrow> string \<Rightarrow> string \<times> bool" where
  "AddSignedDecimal left0 right0 =
     (let (left, leftOK) = NormalizeSignedDecimal left0;
          (right, rightOK) = NormalizeSignedDecimal right0
      in if \<not> leftOK \<or> \<not> rightOK then ([], False)
         else
           let leftNegative = HasPrefix left ''-'';
               rightNegative = HasPrefix right ''-'';
               leftMagnitude = TrimPrefix left ''-'';
               rightMagnitude = TrimPrefix right ''-''
           in if leftNegative = rightNegative
              then
                let sum = addCanonicalDecimal leftMagnitude rightMagnitude
                in if leftNegative \<and> sum \<noteq> ''0'' then (CHR ''-'' # sum, True) else (sum, True)
              else
                let comparison = compareCanonicalDecimal leftMagnitude rightMagnitude
                in if comparison = 0 then (''0'', True)
                   else if comparison > 0
                   then
                     let difference = subtractCanonicalDecimal leftMagnitude rightMagnitude
                     in if leftNegative \<and> difference \<noteq> ''0'' then (CHR ''-'' # difference, True)
                        else (difference, True)
                   else
                     let difference = subtractCanonicalDecimal rightMagnitude leftMagnitude
                     in if rightNegative \<and> difference \<noteq> ''0'' then (CHR ''-'' # difference, True)
                        else (difference, True))"

definition SubtractSignedDecimal :: "string \<Rightarrow> string \<Rightarrow> string \<times> bool" where
  "SubtractSignedDecimal left right =
     (let (negated, ok) = NegateSignedDecimal right in
      if \<not> ok then ([], False) else AddSignedDecimal left negated)"

section \<open>Halving\<close>

fun halve_loop :: "nat \<Rightarrow> string \<Rightarrow> string" where
  "halve_loop carry [] = []"
| "halve_loop carry (c # s) =
     (let v = carry * 10 + digit_val c in digit_char (v div 2) # halve_loop (v mod 2) s)"

definition HalveUnsignedDecimal :: "string \<Rightarrow> string" where
  "HalveUnsignedDecimal text0 =
     (let (text, ok) = normalizeUnsignedDecimal text0 in
      if \<not> ok \<or> text = ''0'' then ''0''
      else fst (normalizeUnsignedDecimal (halve_loop 0 text)))"

section \<open>What a text denotes\<close>

text \<open>
  The texts the signed normaliser accepts and the number each stands for: after trimming, an
  optional sign, then, trimmed again, a non-empty string of digits.
\<close>

definition sign_split :: "string \<Rightarrow> bool \<times> string" where
  "sign_split s =
     (if s \<noteq> [] \<and> (hd s = CHR ''+'' \<or> hd s = CHR ''-'') then (hd s = CHR ''-'', tl s)
      else (False, s))"

definition denotes_nat :: "string \<Rightarrow> nat \<Rightarrow> bool" where
  "denotes_nat s n =
     (TrimSpace s \<noteq> [] \<and> list_all is_digit (TrimSpace s) \<and> n = dec_val (TrimSpace s))"

definition denotes :: "string \<Rightarrow> int \<Rightarrow> bool" where
  "denotes s i =
     (\<exists>neg rest n. sign_split (TrimSpace s) = (neg, rest) \<and> denotes_nat rest n
        \<and> i = (if neg then - int n else int n))"

section \<open>Trimming\<close>

definition tight_byte :: "char \<Rightarrow> bool" where
  "tight_byte c = (32 < (byte_val c :: nat) \<and> (byte_val c :: nat) < 128)"

lemma space_encodings_edges:
  "e \<in> set space_encodings \<Longrightarrow>
    e \<noteq> [] \<and> (hd e \<le> 32 \<or> 128 \<le> hd e) \<and> (last e \<le> 32 \<or> 128 \<le> last e)"
  by (auto simp: space_encodings_def)

lemma starts_with_space_tight:
  assumes "tight_byte c" and "\<And>e. e \<in> set encs \<Longrightarrow> e \<noteq> [] \<and> (hd e \<le> 32 \<or> 128 \<le> hd e)"
  shows "starts_with_space encs (c # s) = 0"
proof -
  have "take (length e) (map byte_val (c # s)) \<noteq> e" if "e \<in> set encs" for e
    using assms(1) assms(2) [OF that] by (cases e) (auto simp: tight_byte_def)
  then have "find (\<lambda>e. take (length e) (map byte_val (c # s)) = e) encs = None"
    by (auto simp: find_None_iff)
  then show ?thesis by (simp add: starts_with_space_def)
qed

lemma strip_spaces_tight:
  assumes "s = [] \<or> tight_byte (hd s)"
    and "\<And>e. e \<in> set encs \<Longrightarrow> e \<noteq> [] \<and> (hd e \<le> 32 \<or> 128 \<le> hd e)"
  shows "strip_spaces encs s = s"
  using assms by (cases s) (simp_all add: starts_with_space_tight)

lemma TrimSpace_tight:
  assumes "s = [] \<or> tight_byte (hd s) \<and> tight_byte (last s)"
  shows "TrimSpace s = s"
proof -
  have "strip_spaces space_encodings s = s"
    using assms space_encodings_edges by (intro strip_spaces_tight) auto
  moreover have "strip_spaces (map rev space_encodings) (rev s) = rev s"
    using assms by (intro strip_spaces_tight) (auto simp: hd_rev dest!: space_encodings_edges)
  ultimately show ?thesis by (simp add: TrimSpace_def)
qed

text \<open>The guard of the normalisers only saves a call: they trim as \<^verbatim>\<open>strings.TrimSpace\<close> does.\<close>

lemma trim_guarded_eq: "trim_guarded s = TrimSpace s"
  by (auto simp: trim_guarded_def tight_byte_def intro!: TrimSpace_tight [symmetric])

lemma is_digit_tight: "is_digit c \<Longrightarrow> tight_byte c"
  by (auto simp: is_digit_def tight_byte_def)

lemma tight_sign [simp]: "tight_byte CHR ''-''" "tight_byte CHR ''+''"
  by (simp_all add: tight_byte_def)

lemma TrimSpace_digits: "list_all is_digit s \<Longrightarrow> TrimSpace s = s"
  by (rule TrimSpace_tight) (auto simp: list_all_iff intro!: is_digit_tight)

lemma TrimSpace_FormatUint [simp]: "TrimSpace (FormatUint n) = FormatUint n"
  by (simp add: TrimSpace_digits)

lemma TrimSpace_FormatInt [simp]: "TrimSpace (FormatInt i) = FormatInt i"
proof (cases "i < 0")
  case True
  have "is_digit (last (FormatUint (nat (- i))))"
    using FormatUint_digits FormatUint_nonempty last_in_set by (metis list_all_iff)
  with True show ?thesis
    by (intro TrimSpace_tight) (auto simp: FormatInt_def is_digit_tight)
next
  case False
  then show ?thesis by (simp add: FormatInt_def)
qed

section \<open>Correctness of normalisation\<close>

lemma denotes_nat_unique: "denotes_nat s m \<Longrightarrow> denotes_nat s n \<Longrightarrow> m = n"
  by (simp add: denotes_nat_def)

lemma denotes_nat_FormatUint [simp]: "denotes_nat (FormatUint n) m \<longleftrightarrow> m = n"
  by (auto simp: denotes_nat_def)

lemma dec_val_dropWhile_0: "dec_val (dropWhile (\<lambda>c. c = CHR ''0'') s) = dec_val s"
  by (induction s) (simp_all add: dec_val_Cons)

lemma canonical_dropWhile_0:
  assumes "list_all is_digit s" and "dropWhile (\<lambda>c. c = CHR ''0'') s \<noteq> []"
  shows "canonical (dropWhile (\<lambda>c. c = CHR ''0'') s)"
  using assms hd_dropWhile [OF assms(2)]
  by (auto simp: canonical_def list_all_iff dest: set_dropWhileD)

lemma list_all_dropWhile_0:
  "list_all is_digit (dropWhile (\<lambda>c. c = CHR ''0'') s) \<longleftrightarrow> list_all is_digit s"
  by (induction s) auto

lemma takeWhile_length_iff:
  "length (takeWhile P s) = length s \<longleftrightarrow> dropWhile P s = []"
  by (metis append.right_neutral length_append length_0_conv add_cancel_left_right
      takeWhile_dropWhile_id)

lemma normalizeUnsigned_ok: "denotes_nat s n \<Longrightarrow> normalizeUnsignedDecimal s = (FormatUint n, True)"
proof -
  let ?t = "TrimSpace s" and ?z = "\<lambda>c. c = CHR ''0''"
  assume "denotes_nat s n"
  then have t: "?t \<noteq> []" "list_all is_digit ?t" and n: "n = dec_val ?t"
    by (auto simp: denotes_nat_def)
  show ?thesis
  proof (cases "dropWhile ?z ?t = []")
    case True
    then have "n = 0" using n dec_val_dropWhile_0 [of ?t] by (simp del: dropWhile_eq_Nil_conv)
    with True t show ?thesis
      by (simp add: normalizeUnsignedDecimal_def trim_guarded_eq Let_def takeWhile_length_iff)
  next
    case False
    have "FormatUint n = dropWhile ?z ?t"
      using FormatUint_dec_val [OF canonical_dropWhile_0 [OF t(2) False]] n
      by (simp add: dec_val_dropWhile_0)
    with False t show ?thesis
      by (simp add: normalizeUnsignedDecimal_def trim_guarded_eq Let_def takeWhile_length_iff
          dropWhile_eq_drop [symmetric] list_all_dropWhile_0 del: dropWhile_eq_Nil_conv)
  qed
qed

lemma normalizeUnsigned_fail:
  "\<nexists>n. denotes_nat s n \<Longrightarrow> normalizeUnsignedDecimal s = ([], False)"
proof -
  let ?t = "TrimSpace s" and ?z = "\<lambda>c. c = CHR ''0''"
  assume "\<nexists>n. denotes_nat s n"
  then have t: "?t = [] \<or> \<not> list_all is_digit ?t" by (auto simp: denotes_nat_def)
  then have "dropWhile ?z ?t \<noteq> []" if "?t \<noteq> []"
    using that by (metis list.pred_inject(1) list_all_dropWhile_0)
  with t show ?thesis
    by (auto simp: normalizeUnsignedDecimal_def trim_guarded_eq Let_def takeWhile_length_iff
        dropWhile_eq_drop [symmetric] list_all_dropWhile_0)
qed

lemma normalizeUnsigned_FormatUint [simp]:
  "normalizeUnsignedDecimal (FormatUint n) = (FormatUint n, True)"
  by (rule normalizeUnsigned_ok) simp

lemma denotes_unique: "denotes s i \<Longrightarrow> denotes s j \<Longrightarrow> i = j"
  by (auto simp: denotes_def dest: denotes_nat_unique)

lemma NormalizeSigned_split:
  "NormalizeSignedDecimal s =
     (case sign_split (TrimSpace s) of (neg, rest) \<Rightarrow>
        case normalizeUnsignedDecimal rest of (u, ok) \<Rightarrow>
          if \<not> ok then ([], False) else if u = ''0'' then (''0'', True)
          else ((if neg then ''-'' else []) @ u, True))"
proof (cases "TrimSpace s = []")
  case True
  have "normalizeUnsignedDecimal [] = ([], False)"
    by (rule normalizeUnsigned_fail) (simp add: denotes_nat_def TrimSpace_tight)
  with True show ?thesis
    by (simp add: NormalizeSignedDecimal_def trim_guarded_eq sign_split_def)
next
  case False
  then show ?thesis
    by (auto simp: NormalizeSignedDecimal_def trim_guarded_eq sign_split_def Let_def
        split: prod.splits)
qed

lemma NormalizeSigned_ok: "denotes s i \<Longrightarrow> NormalizeSignedDecimal s = (FormatInt i, True)"
  by (auto simp: denotes_def NormalizeSigned_split normalizeUnsigned_ok FormatInt_def)

lemma NormalizeSigned_fail: "\<nexists>i. denotes s i \<Longrightarrow> NormalizeSignedDecimal s = ([], False)"
proof -
  assume no: "\<nexists>i. denotes s i"
  obtain neg rest where split: "sign_split (TrimSpace s) = (neg, rest)" by fastforce
  with no have "\<nexists>n. denotes_nat rest n" by (auto simp: denotes_def)
  then show ?thesis by (simp add: NormalizeSigned_split split normalizeUnsigned_fail)
qed

lemma sign_split_FormatInt [simp]: "sign_split (FormatInt i) = (i < 0, FormatUint (nat \<bar>i\<bar>))"
  by (simp add: sign_split_def FormatInt_def)

lemma denotes_FormatInt [simp]: "denotes (FormatInt i) j \<longleftrightarrow> j = i"
  by (auto simp: denotes_def)

lemma denotes_FormatUint [simp]: "denotes (FormatUint n) j \<longleftrightarrow> j = int n"
  using denotes_FormatInt [of "int n" j] by simp

lemma denotes_numerals [simp]:
  "denotes ''0'' j \<longleftrightarrow> j = 0" "denotes ''1'' j \<longleftrightarrow> j = 1"
  using denotes_FormatUint [of 0 j] denotes_FormatUint [of 1 j] by simp_all

lemma NormalizeSigned_FormatInt [simp]: "NormalizeSignedDecimal (FormatInt i) = (FormatInt i, True)"
  by (simp add: NormalizeSigned_ok)

lemma NormalizeSigned_FormatUint [simp]: "NormalizeSignedDecimal (FormatUint n) = (FormatUint n, True)"
  using NormalizeSigned_FormatInt [of "int n"] by simp

section \<open>Correctness of comparison\<close>

lemma compareCanonical_FormatUint:
  "compareCanonicalDecimal (FormatUint m) (FormatUint n) = sgn (int m - int n)"
proof (cases "length (FormatUint m)" "length (FormatUint n)" rule: linorder_cases)
  case less
  then show ?thesis using FormatUint_length_mono [OF less] by (simp add: compareCanonicalDecimal_def)
next
  case equal
  then show ?thesis by (simp add: compareCanonicalDecimal_def Compare_digits)
next
  case greater
  then show ?thesis using FormatUint_length_mono [OF greater] by (simp add: compareCanonicalDecimal_def)
qed

lemma CompareUnsigned_ok:
  "denotes_nat l m \<Longrightarrow> denotes_nat r n \<Longrightarrow> CompareUnsignedDecimal l r = sgn (int m - int n)"
  by (simp add: CompareUnsignedDecimal_def normalizeUnsigned_ok compareCanonical_FormatUint)

lemma CompareSigned_ok:
  "denotes l i \<Longrightarrow> denotes r j \<Longrightarrow> CompareSignedDecimal l r = sgn (i - j)"
  by (auto simp: CompareSignedDecimal_def NormalizeSigned_ok FormatInt_magnitude Let_def
      compareCanonical_FormatUint sgn_if simp del: TrimPrefix_Cons)

section \<open>Correctness of addition and subtraction\<close>

text \<open>The digits of a number, last first, none for zero.\<close>

fun low_digits :: "nat \<Rightarrow> string" where
  "low_digits n = (if n = 0 then [] else digit_char (n mod 10) # low_digits (n div 10))"

declare low_digits.simps [simp del]

lemma low_digits_0 [simp]: "low_digits 0 = []"
  by (simp add: low_digits.simps)

lemma low_digits_pos: "0 < n \<Longrightarrow> low_digits n = digit_char (n mod 10) # low_digits (n div 10)"
  by (simp add: low_digits.simps [of n])

lemma rev_FormatUint: "rev (FormatUint n) = (if n = 0 then ''0'' else low_digits n)"
proof (induction n rule: FormatUint.induct)
  case (1 n)
  then show ?case
    by (cases "n < 10") (auto simp: FormatUint_small FormatUint_large low_digits_pos)
qed

lemma add_loop_low_digits: "add_loop (low_digits m) (low_digits n) c = low_digits (m + n + c)"
proof (induction "m + n + c" arbitrary: m n c rule: less_induct)
  case less
  have sum: "m + n + c = 10 * (m div 10 + n div 10) + (c + m mod 10 + n mod 10)"
    by (rule sum_div_mod)
  have dig: "(m + n + c) mod 10 = (c + m mod 10 + n mod 10) mod 10"
    and car: "(m + n + c) div 10 = m div 10 + n div 10 + (c + m mod 10 + n mod 10) div 10"
    using div_mod_shift [OF sum] by simp_all
  show ?case
  proof (cases "m + n + c = 0")
    case True
    then show ?thesis by simp
  next
    case False
    then have "m div 10 + n div 10 + (c + m mod 10 + n mod 10) div 10 < m + n + c"
      unfolding car [symmetric] by (intro div_less_dividend) simp_all
    then have IH: "add_loop (low_digits (m div 10)) (low_digits (n div 10))
        ((c + m mod 10 + n mod 10) div 10) =
      low_digits (m div 10 + n div 10 + (c + m mod 10 + n mod 10) div 10)"
      by (rule less.hyps)
    have "add_loop (low_digits m) (low_digits n) c = digit_char ((c + m mod 10 + n mod 10) mod 10)
        # add_loop (low_digits (m div 10)) (low_digits (n div 10)) ((c + m mod 10 + n mod 10) div 10)"
      using False
      by (cases "m = 0"; cases "n = 0")
        (simp_all add: low_digits_pos [of m] low_digits_pos [of n] Let_def)
    moreover have "0 < m + n + c" using False by simp
    ultimately show ?thesis
      using low_digits_pos [of "m + n + c"] unfolding IH dig car by (simp only:)
  qed
qed

lemma add_loop_zero:
  "add_loop ''0'' (low_digits n) 0 = (if n = 0 then ''0'' else low_digits n)"
  "add_loop (low_digits n) ''0'' 0 = (if n = 0 then ''0'' else low_digits n)"
proof -
  have "add_loop [] (low_digits (n div 10)) 0 = low_digits (n div 10)"
    "add_loop (low_digits (n div 10)) [] 0 = low_digits (n div 10)"
    using add_loop_low_digits [of 0 "n div 10" 0] add_loop_low_digits [of "n div 10" 0 0] by simp_all
  then show "add_loop ''0'' (low_digits n) 0 = (if n = 0 then ''0'' else low_digits n)"
    "add_loop (low_digits n) ''0'' 0 = (if n = 0 then ''0'' else low_digits n)"
    by (cases "n = 0"; simp add: low_digits_pos [of n] digit_char_0)+
qed

lemma addCanonical_FormatUint:
  "addCanonicalDecimal (FormatUint m) (FormatUint n) = FormatUint (m + n)"
proof -
  have "add_loop (rev (FormatUint m)) (rev (FormatUint n)) 0 = rev (FormatUint (m + n))"
    using add_loop_low_digits [of m n 0] add_loop_zero [of m] add_loop_zero [of n]
    by (auto simp: rev_FormatUint digit_char_0)
  then show ?thesis by (simp add: addCanonicalDecimal_def)
qed

lemma sub_loop_digits:
  assumes "list_all is_digit as" "list_all is_digit bs" "0 \<le> b" "b \<le> 1"
    and "int (dec_val (rev bs)) + b \<le> int (dec_val (rev as))"
  shows "int (dec_val (rev (sub_loop as bs b))) = int (dec_val (rev as)) - int (dec_val (rev bs)) - b
    \<and> list_all is_digit (sub_loop as bs b) \<and> length (sub_loop as bs b) = length as"
  using assms
proof (induction as bs b rule: sub_loop.induct)
  case (1 bs b)
  then show ?case by auto
next
  case (2 a as bs b)
  define y where "y = (case bs of [] \<Rightarrow> 0 | c # _ \<Rightarrow> int (digit_val c))"
  define d where "d = int (digit_val a) - b - y"
  have a: "is_digit a" "list_all is_digit as" "digit_val a < 10" using "2.prems" by auto
  have bs: "list_all is_digit (tl bs)" "0 \<le> y" "y < 10"
    and bval: "int (dec_val (rev bs)) = 10 * int (dec_val (rev (tl bs))) + y"
    using "2.prems"(2) by (cases bs; auto simp: y_def)+
  show ?case
  proof (cases "d < 0")
    case True
    have "int (dec_val (rev (tl bs))) + 1 \<le> int (dec_val (rev as))"
      using "2.prems"(5) bval True a(3) "2.prems"(3) bs by (simp add: d_def)
    with "2.IH"(1) [OF refl] True a bs
    have IH: "int (dec_val (rev (sub_loop as (tl bs) 1))) =
        int (dec_val (rev as)) - int (dec_val (rev (tl bs))) - 1
      \<and> list_all is_digit (sub_loop as (tl bs) 1) \<and> length (sub_loop as (tl bs) 1) = length as"
      by (simp add: d_def y_def)
    have eq: "sub_loop (a # as) bs b = digit_char (nat (d + 10)) # sub_loop as (tl bs) 1"
      using True by (simp add: d_def y_def Let_def)
    have "nat (d + 10) < 10" using True "2.prems"(4) bs a by (simp add: d_def)
    with eq IH bval True "2.prems"(4) bs a show ?thesis by (simp add: d_def)
  next
    case False
    have "int (dec_val (rev (tl bs))) \<le> int (dec_val (rev as))"
      using "2.prems"(5) bval False a(3) "2.prems"(3) bs by (simp add: d_def)
    with "2.IH"(2) [OF refl] False a bs
    have IH: "int (dec_val (rev (sub_loop as (tl bs) 0))) =
        int (dec_val (rev as)) - int (dec_val (rev (tl bs)))
      \<and> list_all is_digit (sub_loop as (tl bs) 0) \<and> length (sub_loop as (tl bs) 0) = length as"
      by (simp add: d_def y_def)
    have eq: "sub_loop (a # as) bs b = digit_char (nat d) # sub_loop as (tl bs) 0"
      using False by (simp add: d_def y_def Let_def)
    have "nat d < 10" using "2.prems"(3) bs(2) a(3) unfolding d_def by linarith
    with eq IH bval False show ?thesis by (simp add: d_def)
  qed
qed

lemma drop_zeros_digits:
  "list_all is_digit s \<Longrightarrow> s \<noteq> [] \<Longrightarrow> drop_zeros s = FormatUint (dec_val s)"
proof (induction s rule: drop_zeros.induct)
  case (1 a b s)
  show ?case
  proof (cases "a = CHR ''0''")
    case True
    with 1 show ?thesis by (simp add: dec_val_Cons)
  next
    case False
    with 1 have "canonical (a # b # s)" by (simp add: canonical_def)
    with False show ?thesis by (simp add: FormatUint_dec_val)
  qed
qed (auto simp: FormatUint_small)

lemma subtractCanonical_FormatUint:
  assumes "n \<le> m"
  shows "subtractCanonicalDecimal (FormatUint m) (FormatUint n) = FormatUint (m - n)"
proof -
  let ?r = "sub_loop (rev (FormatUint m)) (rev (FormatUint n)) 0"
  have r: "int (dec_val (rev ?r)) = int m - int n" "list_all is_digit ?r"
    "length ?r = length (FormatUint m)"
    using sub_loop_digits [of "rev (FormatUint m)" "rev (FormatUint n)" 0] assms by simp_all
  then have "rev ?r \<noteq> []" by (metis FormatUint_nonempty length_0_conv length_rev)
  moreover have "dec_val (rev ?r) = m - n" using r(1) assms by linarith
  ultimately show ?thesis
    using r(2) by (simp add: subtractCanonicalDecimal_def drop_zeros_digits)
qed

lemma AddUnsigned_ok:
  "denotes_nat l m \<Longrightarrow> denotes_nat r n \<Longrightarrow> AddUnsignedDecimal l r = FormatUint (m + n)"
  by (simp add: AddUnsignedDecimal_def normalizeUnsigned_ok addCanonical_FormatUint)

lemma SubtractUnsigned_ok:
  "denotes_nat l m \<Longrightarrow> denotes_nat r n \<Longrightarrow>
    SubtractUnsignedDecimal l r = (if n \<le> m then (FormatUint (m - n), True) else ([], False))"
  by (auto simp: SubtractUnsignedDecimal_def normalizeUnsigned_ok compareCanonical_FormatUint
      subtractCanonical_FormatUint sgn_if)

lemma NegateSigned_ok: "denotes s i \<Longrightarrow> NegateSignedDecimal s = (FormatInt (- i), True)"
  by (auto simp: NegateSignedDecimal_def NormalizeSigned_ok FormatInt_def)

lemma NegateSigned_fail: "\<nexists>i. denotes s i \<Longrightarrow> NegateSignedDecimal s = ([], False)"
  by (simp add: NegateSignedDecimal_def NormalizeSigned_fail)

lemma AddSigned_ok:
  assumes "denotes l i" "denotes r j"
  shows "AddSignedDecimal l r = (FormatInt (i + j), True)"
proof -
  let ?m = "nat \<bar>i\<bar>" and ?n = "nat \<bar>j\<bar>"
  have *: "FormatInt (i + j) =
      (if (i < 0) = (j < 0) then if i < 0 then CHR ''-'' # FormatUint (?m + ?n) else FormatUint (?m + ?n)
       else if ?m = ?n then ''0''
       else if ?n < ?m then if i < 0 then CHR ''-'' # FormatUint (?m - ?n) else FormatUint (?m - ?n)
       else if j < 0 then CHR ''-'' # FormatUint (?n - ?m) else FormatUint (?n - ?m))"
    by (auto simp: FormatInt_def nat_add_distrib [symmetric] nat_diff_distrib [symmetric] abs_if
        intro!: arg_cong [where f = FormatUint])
  have norm: "NormalizeSignedDecimal l = (FormatInt i, True)" "NormalizeSignedDecimal r = (FormatInt j, True)"
    using assms by (simp_all add: NormalizeSigned_ok)
  show ?thesis
    unfolding * AddSignedDecimal_def norm FormatInt_magnitude Let_def prod.case
      compareCanonical_FormatUint addCanonical_FormatUint
    by (cases ?m ?n rule: linorder_cases; cases "i < 0"; cases "j < 0")
      (simp_all add: subtractCanonical_FormatUint del: zero_less_nat_eq zless_nat_conj)
qed

lemma AddSigned_fail:
  "(\<nexists>i. denotes l i) \<or> (\<nexists>j. denotes r j) \<Longrightarrow> AddSignedDecimal l r = ([], False)"
  by (auto simp: AddSignedDecimal_def NormalizeSigned_fail split: prod.splits)

lemma SubtractSigned_ok:
  "denotes l i \<Longrightarrow> denotes r j \<Longrightarrow> SubtractSignedDecimal l r = (FormatInt (i - j), True)"
  using AddSigned_ok [of l i "FormatInt (- j)" "- j"]
  by (simp add: SubtractSignedDecimal_def NegateSigned_ok)

lemma SignedDecimalInt64_ok:
  "denotes s i \<Longrightarrow> SignedDecimalInt64 s =
     (if - (2 ^ 63) \<le> i \<and> i < 2 ^ 63 then (i, True) else (0, False))"
  by (simp add: SignedDecimalInt64_def NormalizeSigned_ok ParseInt64_FormatInt)

section \<open>Correctness of halving\<close>

lemma halve_loop_digits:
  "c \<le> 1 \<Longrightarrow> list_all is_digit s \<Longrightarrow>
    dec_val (halve_loop c s) = (c * 10 ^ length s + dec_val s) div 2
    \<and> list_all is_digit (halve_loop c s) \<and> length (halve_loop c s) = length s"
proof (induction c s rule: halve_loop.induct)
  case (1 c)
  then show ?case by (cases c) auto
next
  case (2 c d s)
  define v where "v = c * 10 + digit_val d"
  have "digit_val d < 10" using "2.prems" by simp
  then have v: "v div 2 < 10" using "2.prems"(1) by (simp add: v_def)
  have "v * 10 ^ length s = (2 * (v div 2) + v mod 2) * 10 ^ length s" by simp
  then have split: "v * 10 ^ length s + dec_val s =
      2 * (v div 2 * 10 ^ length s) + (v mod 2 * 10 ^ length s + dec_val s)"
    by (simp only: add_mult_distrib mult.assoc add.assoc)
  have IH: "dec_val (halve_loop (v mod 2) s) = (v mod 2 * 10 ^ length s + dec_val s) div 2"
    "list_all is_digit (halve_loop (v mod 2) s)" "length (halve_loop (v mod 2) s) = length s"
    using "2.IH" [OF v_def] "2.prems" by auto
  have "(c * 10 ^ length (d # s) + dec_val (d # s)) = v * 10 ^ length s + dec_val s"
    by (simp add: v_def dec_val_Cons algebra_simps)
  then have "(c * 10 ^ length (d # s) + dec_val (d # s)) div 2 =
      v div 2 * 10 ^ length s + (v mod 2 * 10 ^ length s + dec_val s) div 2"
    by (simp add: split)
  with IH v show ?case by (simp add: v_def [symmetric] dec_val_Cons Let_def)
qed

lemma HalveUnsigned_ok:
  assumes "denotes_nat s n"
  shows "HalveUnsignedDecimal s = FormatUint (n div 2)"
proof (cases "n = 0")
  case True
  with assms show ?thesis by (simp add: HalveUnsignedDecimal_def normalizeUnsigned_ok)
next
  case False
  have h: "dec_val (halve_loop 0 (FormatUint n)) = n div 2"
    "list_all is_digit (halve_loop 0 (FormatUint n))"
    "length (halve_loop 0 (FormatUint n)) = length (FormatUint n)"
    using halve_loop_digits [of 0 "FormatUint n"] by simp_all
  then have "halve_loop 0 (FormatUint n) \<noteq> []"
    by (metis FormatUint_nonempty length_0_conv)
  with h have "denotes_nat (halve_loop 0 (FormatUint n)) (n div 2)"
    by (simp add: denotes_nat_def TrimSpace_digits)
  with assms False show ?thesis
    by (simp add: HalveUnsignedDecimal_def normalizeUnsigned_ok)
qed

end
