(* ===== verification/Limbs.thy ===== *)
theory Limbs
  imports Decimal_Text "HOL-Library.Monad_Syntax"
begin

text \<open>
  The limb half of \<^verbatim>\<open>compiler/constant/decimal.go\<close>: numbers as little-endian lists of
  \<^verbatim>\<open>uint64\<close> limbs in base \<open>10 ^ 9\<close>, the conversions to and from decimal text,
  multiplication and powers of two.  Every \<^verbatim>\<open>uint64\<close> expression is reduced modulo
  \<open>2 ^ 64\<close> by \<^const>\<open>u64\<close>; that no reduction ever changes a value is part of the proofs.
\<close>

definition decimalLimbBase :: nat where
  "decimalLimbBase = 1000000000"

section \<open>Conversions\<close>

definition read_limb :: "string \<Rightarrow> uint64" where
  "read_limb s = foldl (\<lambda>limb c. u64 (u64 (limb * 10) + digit_val c)) 0 s"

function decimalLimbs :: "string \<Rightarrow> uint64 list" where
  "decimalLimbs text =
     (if text = [] then []
      else
        let start = length text - 9
        in read_limb (drop start text) # decimalLimbs (take start text))"
  by pat_completeness auto
termination
  by (relation "measure length") auto

declare decimalLimbs.simps [simp del]

text \<open>The first loop of \<^verbatim>\<open>formatDecimalLimbs\<close>, on the limbs with the most significant first.\<close>

fun trim_top :: "uint64 list \<Rightarrow> uint64 list" where
  "trim_top (x # y # r) = (if x = 0 then trim_top (y # r) else x # y # r)"
| "trim_top r = r"

definition pad9 :: "uint64 \<Rightarrow> string" where
  "pad9 limb = (let part = FormatUint limb in replicate (9 - length part) CHR ''0'' @ part)"

text \<open>Formatting no limbs at all is an index panic.\<close>

definition formatDecimalLimbs :: "uint64 list \<Rightarrow> string option" where
  "formatDecimalLimbs limbs =
     (case trim_top (rev limbs) of
        [] \<Rightarrow> None
      | hi # rest \<Rightarrow> Some (FormatUint hi @ concat (map pad9 rest)))"

section \<open>Multiplication\<close>

text \<open>
  The inner loop of \<^verbatim>\<open>MultiplySignedDecimal\<close>, with \<open>k\<close> for the index \<^verbatim>\<open>i+j\<close>; its last equation
  is the assignment after the loop.
\<close>

fun mul_row :: "uint64 \<Rightarrow> uint64 list \<Rightarrow> nat \<Rightarrow> uint64 \<Rightarrow> uint64 list \<Rightarrow> uint64 list" where
  "mul_row a (b # bs) k carry acc =
     (let v = u64 (a * b + acc ! k + carry)
      in mul_row a bs (Suc k) (v div decimalLimbBase) (acc[k := v mod decimalLimbBase]))"
| "mul_row a [] k carry acc = acc[k := carry]"

fun mul_rows :: "uint64 list \<Rightarrow> uint64 list \<Rightarrow> nat \<Rightarrow> uint64 list \<Rightarrow> uint64 list" where
  "mul_rows [] bs i acc = acc"
| "mul_rows (a # as) bs i acc = mul_rows as bs (Suc i) (mul_row a bs i 0 acc)"

definition multiply_limbs :: "uint64 list \<Rightarrow> uint64 list \<Rightarrow> uint64 list" where
  "multiply_limbs leftLimbs rightLimbs =
     mul_rows leftLimbs rightLimbs 0 (replicate (length leftLimbs + length rightLimbs) 0)"

definition MultiplySignedDecimal :: "string \<Rightarrow> string \<Rightarrow> (string \<times> bool) option" where
  "MultiplySignedDecimal left0 right0 =
     (let (left1, leftOK) = NormalizeSignedDecimal left0;
          (right1, rightOK) = NormalizeSignedDecimal right0
      in if \<not> leftOK \<or> \<not> rightOK then Some ([], False)
         else
           let negative = (HasPrefix left1 ''-'' \<noteq> HasPrefix right1 ''-'');
               left = TrimPrefix left1 ''-'';
               right = TrimPrefix right1 ''-'';
               signed = (\<lambda>out. if negative then CHR ''-'' # out else out);
               slow = do {
                 out \<leftarrow> formatDecimalLimbs (multiply_limbs (decimalLimbs left) (decimalLimbs right));
                 Some (if negative \<and> out \<noteq> ''0'' then CHR ''-'' # out else out, True)
               }
           in if left = ''0'' \<or> right = ''0'' then Some (''0'', True)
              else if left = ''1'' \<or> right = ''1''
              then Some (signed (if left = ''1'' then right else left), True)
              else
                case ParseUint left 10 of
                  None \<Rightarrow> slow
                | Some leftValue \<Rightarrow>
                    (case ParseUint right 10 of
                       None \<Rightarrow> slow
                     | Some rightValue \<Rightarrow>
                         if rightValue = 0 \<or> leftValue \<le> (2 ^ 64 - 1) div rightValue
                         then Some (signed (FormatUint (u64 (leftValue * rightValue))), True)
                         else slow))"

section \<open>Powers of two\<close>

text \<open>Multiplying all limbs by one factor, the loop of \<^verbatim>\<open>Pow2UnsignedDecimal\<close> and of the scaling.\<close>

fun scale_limbs :: "uint64 \<Rightarrow> uint64 \<Rightarrow> uint64 list \<Rightarrow> uint64 list \<times> uint64" where
  "scale_limbs factor carry [] = ([], carry)"
| "scale_limbs factor carry (limb # limbs) =
     (let v = u64 (limb * factor + carry);
          (rest, out) = scale_limbs factor (v div decimalLimbBase) limbs
      in (v mod decimalLimbBase # rest, out))"

function pow2_loop :: "nat \<Rightarrow> uint64 list \<Rightarrow> uint64 list" where
  "pow2_loop bits limbs =
     (if bits = 0 then limbs
      else
        let shift = (if bits > 29 then 29 else bits);
            (scaled, carry) = scale_limbs (u64 (2 ^ shift)) 0 limbs
        in pow2_loop (bits - shift) (if carry \<noteq> 0 then scaled @ [carry] else scaled))"
  by pat_completeness auto
termination
  by (relation "measure fst") auto

declare pow2_loop.simps [simp del]

definition Pow2UnsignedDecimal :: "int \<Rightarrow> string option" where
  "Pow2UnsignedDecimal bits =
     (if bits \<le> 0 then Some ''1'' else formatDecimalLimbs (pow2_loop (nat bits) [1]))"

section \<open>What limbs denote\<close>

fun limbs_val :: "uint64 list \<Rightarrow> nat" where
  "limbs_val [] = 0"
| "limbs_val (x # xs) = x + decimalLimbBase * limbs_val xs"

abbreviation wf_limbs :: "uint64 list \<Rightarrow> bool" where
  "wf_limbs \<equiv> list_all (\<lambda>x. x < decimalLimbBase)"

lemma limbs_val_append: "limbs_val (xs @ ys) = limbs_val xs + decimalLimbBase ^ length xs * limbs_val ys"
  by (induction xs) (simp_all add: algebra_simps)

lemma base_pos [simp]: "0 < decimalLimbBase"
  by (simp add: decimalLimbBase_def)

lemma base_neq_0 [simp]: "decimalLimbBase \<noteq> 0"
  by (simp add: decimalLimbBase_def)

lemma base_square: "decimalLimbBase * decimalLimbBase + 2 * decimalLimbBase < 2 ^ 64"
  by (simp add: decimalLimbBase_def)

lemma limbs_val_less: "wf_limbs xs \<Longrightarrow> limbs_val xs < decimalLimbBase ^ length xs"
proof (induction xs)
  case Nil
  then show ?case by simp
next
  case (Cons x xs)
  then have "x < decimalLimbBase" and "Suc (limbs_val xs) \<le> decimalLimbBase ^ length xs" by simp_all
  then have "x + decimalLimbBase * limbs_val xs < decimalLimbBase * Suc (limbs_val xs)" by simp
  also have "\<dots> \<le> decimalLimbBase * decimalLimbBase ^ length xs"
    using \<open>Suc (limbs_val xs) \<le> _\<close> by (rule mult_le_mono2)
  finally show ?case by simp
qed

lemma limbs_val_eq_0: "limbs_val xs = 0 \<longleftrightarrow> list_all (\<lambda>x. x = 0) xs"
  by (induction xs) auto

lemma limbs_val_replicate_0 [simp]: "limbs_val (replicate n 0) = 0"
  by (induction n) simp_all

lemma pow9_base: "10 ^ 9 = decimalLimbBase"
  by (simp add: decimalLimbBase_def)

section \<open>Correctness of the conversions\<close>

lemma read_limb_fold:
  "list_all is_digit s \<Longrightarrow> (a + 1) * 10 ^ length s \<le> 2 ^ 64 \<Longrightarrow>
    foldl (\<lambda>limb c. u64 (u64 (limb * 10) + digit_val c)) a s = digits_val a s"
proof (induction s arbitrary: a)
  case Nil
  then show ?case by (simp add: digits_val_def)
next
  case (Cons c s)
  have d: "digit_val c < 10" using Cons.prems by simp
  have "(a * 10 + digit_val c + 1) * 10 ^ length s \<le> (a + 1) * 10 * 10 ^ length s"
    using d by (intro mult_le_mono1) simp
  also have "\<dots> \<le> 2 ^ 64" using Cons.prems(2) by (simp add: algebra_simps)
  finally have le: "(a * 10 + digit_val c + 1) * 10 ^ length s \<le> 2 ^ 64" .
  have "(a * 10 + digit_val c + 1) * 1 \<le> (a * 10 + digit_val c + 1) * 10 ^ length s"
    by (rule mult_le_mono2) simp
  also note le
  finally have "u64 (u64 (a * 10) + digit_val c) = a * 10 + digit_val c"
    by (simp add: u64_small)
  with Cons le show ?case by (simp add: digits_val_def)
qed

lemma read_limb_digits:
  "list_all is_digit s \<Longrightarrow> length s \<le> 9 \<Longrightarrow>
    read_limb s = dec_val s \<and> read_limb s < decimalLimbBase"
proof -
  assume s: "list_all is_digit s" "length s \<le> 9"
  have "10 ^ length s \<le> (10 :: nat) ^ 9" using s(2) by (intro power_increasing) auto
  then have "read_limb s = dec_val s" and "dec_val s < 10 ^ 9"
    using read_limb_fold [OF s(1), of 0] dec_val_less [OF s(1)]
    by (simp_all add: read_limb_def dec_val_def)
  then show ?thesis by (simp add: decimalLimbBase_def)
qed

lemma decimalLimbs_step:
  "s \<noteq> [] \<Longrightarrow> decimalLimbs s =
     read_limb (drop (length s - 9) s) # decimalLimbs (take (length s - 9) s)"
  by (subst decimalLimbs.simps) (simp add: Let_def)

lemma decimalLimbs_Nil [simp]: "decimalLimbs [] = []"
  by (simp add: decimalLimbs.simps)

lemma decimalLimbs_digits:
  "list_all is_digit s \<Longrightarrow>
    limbs_val (decimalLimbs s) = dec_val s \<and> wf_limbs (decimalLimbs s)
    \<and> length (decimalLimbs s) = (length s + 8) div 9"
proof (induction s rule: decimalLimbs.induct)
  case (1 s)
  show ?case
  proof (cases "s = []")
    case True
    then show ?thesis by simp
  next
    case False
    let ?lo = "drop (length s - 9) s" and ?hi = "take (length s - 9) s"
    have dig: "list_all is_digit ?lo" "list_all is_digit ?hi"
      using 1(2) by (auto simp: list_all_iff dest: in_set_takeD in_set_dropD)
    have len: "length ?lo \<le> 9" unfolding length_drop by arith
    have lo: "read_limb ?lo = dec_val ?lo" "read_limb ?lo < decimalLimbBase"
      using read_limb_digits [OF dig(1)] len by simp_all
    have hi: "limbs_val (decimalLimbs ?hi) = dec_val ?hi" "wf_limbs (decimalLimbs ?hi)"
      "length (decimalLimbs ?hi) = (length ?hi + 8) div 9"
      using 1(1) [OF False refl dig(2)] by simp_all
    have "dec_val s = dec_val ?hi * 10 ^ length ?lo + dec_val ?lo"
      by (metis append_take_drop_id dec_val_append)
    then have "dec_val s = dec_val ?hi * decimalLimbBase + dec_val ?lo"
      by (cases "9 \<le> length s") (simp_all add: pow9_base [symmetric])
    moreover have "Suc ((length s - 9 + 8) div 9) = (length s + 8) div 9"
      using False by (cases "9 \<le> length s") (auto simp: Suc_le_eq div_if)
    ultimately show ?thesis using False lo hi by (simp add: decimalLimbs_step)
  qed
qed

lemma pad9_digits:
  assumes "limb < decimalLimbBase"
  shows "list_all is_digit (pad9 limb)" "length (pad9 limb) = 9" "dec_val (pad9 limb) = limb"
proof -
  have "length (FormatUint limb) \<le> 9"
  proof (rule ccontr)
    assume "\<not> length (FormatUint limb) \<le> 9"
    then have "(10 :: nat) ^ 9 \<le> 10 ^ (length (FormatUint limb) - 1)" by (intro power_increasing) auto
    also have "\<dots> \<le> limb"
    proof (rule FormatUint_length_bounds)
      show "limb \<noteq> 0" using \<open>\<not> length (FormatUint limb) \<le> 9\<close> by (cases "limb = 0") auto
    qed
    finally show False using assms by (simp add: decimalLimbBase_def)
  qed
  then show "length (pad9 limb) = 9" by (simp add: pad9_def Let_def)
  show "list_all is_digit (pad9 limb)" by (simp add: pad9_def Let_def list_all_iff)
      (use FormatUint_digits [of limb] in \<open>auto simp: list_all_iff\<close>)
  show "dec_val (pad9 limb) = limb" by (simp add: pad9_def Let_def dec_val_append)
qed

lemma pad9_concat:
  "wf_limbs r \<Longrightarrow> list_all is_digit (concat (map pad9 r)) \<and> length (concat (map pad9 r)) = 9 * length r
    \<and> dec_val (concat (map pad9 r)) = limbs_val (rev r)"
proof (induction r)
  case Nil
  then show ?case by simp
next
  case (Cons x r)
  moreover have "(10 :: nat) ^ (9 * length r) = decimalLimbBase ^ length r"
    by (simp add: power_mult pow9_base [symmetric])
  ultimately show ?case
    by (simp add: pad9_digits dec_val_append limbs_val_append algebra_simps)
qed

lemma trim_top_val:
  "r \<noteq> [] \<Longrightarrow> wf_limbs r \<Longrightarrow>
    (\<exists>hi rest. trim_top r = hi # rest \<and> wf_limbs (hi # rest) \<and> (hi \<noteq> 0 \<or> rest = [])
      \<and> limbs_val (rev (hi # rest)) = limbs_val (rev r))"
  by (induction r rule: trim_top.induct) (simp_all add: limbs_val_append algebra_simps)

lemma formatDecimalLimbs_ok:
  assumes "limbs \<noteq> []" "wf_limbs limbs"
  shows "formatDecimalLimbs limbs = Some (FormatUint (limbs_val limbs))"
proof -
  obtain hi rest where t: "trim_top (rev limbs) = hi # rest" "wf_limbs (hi # rest)"
    "hi \<noteq> 0 \<or> rest = []" "limbs_val (rev (hi # rest)) = limbs_val limbs"
    using trim_top_val [of "rev limbs"] assms by auto
  let ?s = "FormatUint hi @ concat (map pad9 rest)"
  have rest: "list_all is_digit (concat (map pad9 rest))"
    "length (concat (map pad9 rest)) = 9 * length rest"
    "dec_val (concat (map pad9 rest)) = limbs_val (rev rest)"
    using pad9_concat [of rest] t(2) by simp_all
  have "(10 :: nat) ^ (9 * length rest) = decimalLimbBase ^ length rest"
    by (simp add: power_mult pow9_base [symmetric])
  then have "dec_val ?s = limbs_val limbs"
    using rest t(4) by (simp add: dec_val_append limbs_val_append algebra_simps)
  moreover have "canonical ?s"
    using rest(1) t(3) by (auto simp: canonical_def hd_FormatUint)
  ultimately show ?thesis
    using t(1) FormatUint_dec_val [of ?s] by (simp add: formatDecimalLimbs_def)
qed

section \<open>Correctness of multiplication\<close>

lemma base_bound:
  "a < decimalLimbBase \<Longrightarrow> b < decimalLimbBase \<Longrightarrow> x < decimalLimbBase \<Longrightarrow> c < decimalLimbBase \<Longrightarrow>
    a * b + x + c < decimalLimbBase * decimalLimbBase \<and> a * b + x + c < 2 ^ 64"
proof -
  assume lt: "a < decimalLimbBase" "b < decimalLimbBase" "x < decimalLimbBase" "c < decimalLimbBase"
  then have "a * b \<le> (decimalLimbBase - 1) * (decimalLimbBase - 1)" by (intro mult_le_mono) auto
  with lt show ?thesis by (simp add: decimalLimbBase_def)
qed

lemma limb_step:
  fixes B P :: nat
  assumes "B * q + m = a * b + w + c" and "lw + P * c' = l1 + a * lb + q"
  shows "m + B * lw + B * P * c' = w + B * l1 + a * (b + B * lb) + c"
  using assms(1) arg_cong [OF assms(2), of "\<lambda>z. B * z"] by (simp add: algebra_simps)

lemma mul_row_val:
  assumes "a < decimalLimbBase" "c < decimalLimbBase" "wf_limbs bs" "wf_limbs ws"
    "length ws = length bs"
  shows "\<exists>ws' c'. mul_row a bs (length pre) c (pre @ ws @ y # post) = pre @ ws' @ c' # post
    \<and> length ws' = length bs \<and> wf_limbs ws' \<and> c' < decimalLimbBase
    \<and> limbs_val ws' + decimalLimbBase ^ length bs * c' = limbs_val ws + a * limbs_val bs + c"
  using assms
proof (induction bs arbitrary: pre ws c)
  case Nil
  then show ?case by simp
next
  case (Cons b bs)
  then obtain w ws1 where ws: "ws = w # ws1" "length ws1 = length bs" "w < decimalLimbBase"
    "wf_limbs ws1"
    by (cases ws) auto
  define v where "v = a * b + w + c"
  have v: "v < decimalLimbBase * decimalLimbBase" "v < 2 ^ 64"
    using base_bound [of a b w c] Cons.prems ws by (simp_all add: v_def)
  then have "v div decimalLimbBase < decimalLimbBase" by (simp add: less_mult_imp_div_less)
  then obtain ws' c' where IH:
    "mul_row a bs (length (pre @ [v mod decimalLimbBase])) (v div decimalLimbBase)
       ((pre @ [v mod decimalLimbBase]) @ ws1 @ y # post)
     = (pre @ [v mod decimalLimbBase]) @ ws' @ c' # post"
    "length ws' = length bs" "wf_limbs ws'" "c' < decimalLimbBase"
    "limbs_val ws' + decimalLimbBase ^ length bs * c' =
       limbs_val ws1 + a * limbs_val bs + v div decimalLimbBase"
    using Cons.IH [of "v div decimalLimbBase" ws1 "pre @ [v mod decimalLimbBase]"] Cons.prems ws
    by auto
  have "mul_row a (b # bs) (length pre) c (pre @ ws @ y # post) =
      pre @ (v mod decimalLimbBase # ws') @ c' # post"
    using IH(1) v ws by (simp add: v_def [symmetric] u64_small Let_def nth_append)
  moreover have "limbs_val (v mod decimalLimbBase # ws') + decimalLimbBase ^ length (b # bs) * c' =
      limbs_val ws + a * limbs_val (b # bs) + c"
    using limb_step [OF _ IH(5), where B = decimalLimbBase and m = "v mod decimalLimbBase" and b = b
        and w = w and c = c] ws by (simp add: v_def)
  ultimately show ?case
    using IH(2-4) by (intro exI [of _ "v mod decimalLimbBase # ws'"] exI [of _ c']) simp
qed

lemma mul_rows_val:
  assumes "wf_limbs as" "wf_limbs bs" "wf_limbs pre" "wf_limbs ws" "length ws = length bs"
  shows "length (mul_rows as bs (length pre) (pre @ ws @ replicate (length as) 0)) =
      length pre + length ws + length as
    \<and> wf_limbs (mul_rows as bs (length pre) (pre @ ws @ replicate (length as) 0))
    \<and> limbs_val (mul_rows as bs (length pre) (pre @ ws @ replicate (length as) 0)) =
      limbs_val pre + decimalLimbBase ^ length pre * (limbs_val ws + limbs_val as * limbs_val bs)"
  using assms
proof (induction as arbitrary: pre ws)
  case Nil
  then show ?case by (simp add: limbs_val_append)
next
  case (Cons a as)
  obtain ws' c' where row:
    "mul_row a bs (length pre) 0 (pre @ ws @ 0 # replicate (length as) 0) =
       pre @ ws' @ c' # replicate (length as) 0"
    "length ws' = length bs" "wf_limbs ws'" "c' < decimalLimbBase"
    "limbs_val ws' + decimalLimbBase ^ length bs * c' = limbs_val ws + a * limbs_val bs"
    using mul_row_val [of a 0 bs ws pre 0 "replicate (length as) 0"] Cons.prems by auto
  obtain x xs where x: "ws' @ [c'] = x # xs" by (cases "ws' @ [c']") auto
  have xs: "length xs = length bs" "x < decimalLimbBase" "wf_limbs xs"
  proof -
    have "length (x # xs) = Suc (length bs)" and "wf_limbs (x # xs)"
      unfolding x [symmetric] using row(2-4) by simp_all
    then show "length xs = length bs" "x < decimalLimbBase" "wf_limbs xs" by simp_all
  qed
  have xval: "x + decimalLimbBase * limbs_val xs = limbs_val ws + a * limbs_val bs"
    using row(2,5) arg_cong [OF x, of limbs_val] by (simp add: limbs_val_append)
  have "mul_rows (a # as) bs (length pre) (pre @ ws @ replicate (length (a # as)) 0) =
      mul_rows as bs (length (pre @ [x])) ((pre @ [x]) @ xs @ replicate (length as) 0)"
    using row(1) x by (metis (no_types, lifting) append.assoc append_Cons append_Nil length_Cons
        length_append list.size(3) mul_rows.simps(2) replicate_Suc add_Suc_right add_0_right)
  moreover have "decimalLimbBase ^ length pre *
      (x + decimalLimbBase * (limbs_val xs + limbs_val as * limbs_val bs)) =
      decimalLimbBase ^ length pre * (limbs_val ws + limbs_val (a # as) * limbs_val bs)"
    by (rule arg_cong [where f = "\<lambda>z. decimalLimbBase ^ length pre * z"])
      (use xval in \<open>simp add: algebra_simps\<close>)
  ultimately show ?case
    using Cons.IH [of "pre @ [x]" xs] Cons.prems xs
    by (simp add: limbs_val_append algebra_simps)
qed

lemma multiply_limbs_ok:
  assumes "wf_limbs as" "wf_limbs bs"
  shows "wf_limbs (multiply_limbs as bs)" "length (multiply_limbs as bs) = length as + length bs"
    "limbs_val (multiply_limbs as bs) = limbs_val as * limbs_val bs"
proof -
  have "replicate (length as + length bs) 0 = [] @ replicate (length bs) 0 @ replicate (length as) (0 :: nat)"
    by (simp add: replicate_add [symmetric] add.commute)
  then have "multiply_limbs as bs =
      mul_rows as bs (length ([] :: nat list)) ([] @ replicate (length bs) 0 @ replicate (length as) 0)"
    by (simp add: multiply_limbs_def)
  moreover have "wf_limbs (replicate (length bs) 0)" by (simp add: list_all_iff)
  ultimately show "wf_limbs (multiply_limbs as bs)"
    "length (multiply_limbs as bs) = length as + length bs"
    "limbs_val (multiply_limbs as bs) = limbs_val as * limbs_val bs"
    using mul_rows_val [of as bs "[]" "replicate (length bs) 0"] assms by simp_all
qed

lemma formatDecimalLimbs_multiply:
  "formatDecimalLimbs (multiply_limbs (decimalLimbs (FormatUint m)) (decimalLimbs (FormatUint n))) =
     Some (FormatUint (m * n))"
proof -
  have "decimalLimbs (FormatUint m) \<noteq> []" by (simp add: decimalLimbs_step)
  then have "multiply_limbs (decimalLimbs (FormatUint m)) (decimalLimbs (FormatUint n)) \<noteq> []"
    using multiply_limbs_ok(2) decimalLimbs_digits [OF FormatUint_digits]
    by (metis add_is_0 length_0_conv)
  then show ?thesis
    using decimalLimbs_digits [OF FormatUint_digits] by (simp add: formatDecimalLimbs_ok multiply_limbs_ok)
qed

lemma FormatInt_mult:
  "i \<noteq> 0 \<Longrightarrow> j \<noteq> 0 \<Longrightarrow>
    FormatInt (i * j) = (if (i < 0) \<noteq> (j < 0) then CHR ''-'' # FormatUint (nat \<bar>i\<bar> * nat \<bar>j\<bar>)
                         else FormatUint (nat \<bar>i\<bar> * nat \<bar>j\<bar>))"
  by (auto simp: FormatInt_abs [of "i * j"] mult_less_0_iff nat_abs_mult_distrib linorder_neq_iff)

lemma MultiplySigned_ok:
  assumes "denotes l i" "denotes r j"
  shows "MultiplySignedDecimal l r = Some (FormatInt (i * j), True)"
proof -
  let ?m = "nat \<bar>i\<bar>" and ?n = "nat \<bar>j\<bar>"
  have fast: "u64 (?m * ?n) = ?m * ?n" if "?n \<noteq> 0" "?m \<le> (2 ^ 64 - 1) div ?n"
  proof -
    have "?m * ?n \<le> (2 ^ 64 - 1) div ?n * ?n" using that(2) by (rule mult_le_mono1)
    also have "\<dots> \<le> 2 ^ 64 - 1" by simp
    finally show ?thesis by (simp add: u64_small)
  qed
  show ?thesis
  proof (cases "i = 0 \<or> j = 0")
    case True
    then have "FormatUint ?m = ''0'' \<or> FormatUint ?n = ''0''" and "FormatInt (i * j) = ''0''" by auto
    with assms show ?thesis
      by (simp add: MultiplySignedDecimal_def NormalizeSigned_ok FormatInt_magnitude Let_def
          del: TrimPrefix_Cons FormatUint_eq_0 FormatInt_eq_0)
  next
    case False
    with assms fast show ?thesis
      by (simp add: MultiplySignedDecimal_def NormalizeSigned_ok FormatInt_magnitude Let_def
          FormatInt_mult formatDecimalLimbs_multiply del: TrimPrefix_Cons)
  qed
qed

lemma MultiplySigned_fail:
  "(\<nexists>i. denotes l i) \<or> (\<nexists>j. denotes r j) \<Longrightarrow> MultiplySignedDecimal l r = Some ([], False)"
  by (auto simp: MultiplySignedDecimal_def NormalizeSigned_fail split: prod.splits)

section \<open>Correctness of powers of two\<close>

lemma scale_limbs_val:
  assumes "wf_limbs limbs" "c < f" "f \<le> decimalLimbBase"
  shows "wf_limbs (fst (scale_limbs f c limbs)) \<and> length (fst (scale_limbs f c limbs)) = length limbs
    \<and> snd (scale_limbs f c limbs) < f
    \<and> limbs_val (fst (scale_limbs f c limbs)) + decimalLimbBase ^ length limbs * snd (scale_limbs f c limbs)
      = f * limbs_val limbs + c"
  using assms
proof (induction limbs arbitrary: c)
  case Nil
  then show ?case by simp
next
  case (Cons x xs)
  define v where "v = x * f + c"
  have "x * f + c < Suc x * f" using Cons.prems(2) by simp
  also have "\<dots> \<le> decimalLimbBase * f" using Cons.prems by (intro mult_le_mono1) simp
  finally have v: "v < decimalLimbBase * f" by (simp add: v_def)
  also have "\<dots> \<le> decimalLimbBase * decimalLimbBase" using Cons.prems(3) by simp
  finally have "v < 2 ^ 64" using base_square by linarith
  then have u: "u64 (x * f + c) = v" by (simp add: v_def u64_small)
  have c: "v div decimalLimbBase < f" using v by (simp add: less_mult_imp_div_less mult.commute)
  have IH: "wf_limbs (fst (scale_limbs f (v div decimalLimbBase) xs))"
    "length (fst (scale_limbs f (v div decimalLimbBase) xs)) = length xs"
    "snd (scale_limbs f (v div decimalLimbBase) xs) < f"
    "limbs_val (fst (scale_limbs f (v div decimalLimbBase) xs))
      + decimalLimbBase ^ length xs * snd (scale_limbs f (v div decimalLimbBase) xs)
      = f * limbs_val xs + v div decimalLimbBase"
    using Cons.IH [OF _ c] Cons.prems by simp_all
  have "decimalLimbBase * (v div decimalLimbBase) + v mod decimalLimbBase = x * f + c"
    by (simp add: v_def)
  then have "v mod decimalLimbBase + decimalLimbBase *
      (limbs_val (fst (scale_limbs f (v div decimalLimbBase) xs))
      + decimalLimbBase ^ length xs * snd (scale_limbs f (v div decimalLimbBase) xs)) =
      f * (x + decimalLimbBase * limbs_val xs) + c"
    unfolding IH(4) by (simp add: algebra_simps)
  with IH(1-3) u show ?case
    by (simp add: Let_def split_beta distrib_left mult.assoc [symmetric] add.assoc)
qed

lemma pow2_loop_val:
  "wf_limbs limbs \<Longrightarrow> limbs \<noteq> [] \<Longrightarrow>
    wf_limbs (pow2_loop bits limbs) \<and> pow2_loop bits limbs \<noteq> []
    \<and> limbs_val (pow2_loop bits limbs) = 2 ^ bits * limbs_val limbs"
proof (induction bits limbs rule: pow2_loop.induct)
  case (1 bits limbs)
  show ?case
  proof (cases "bits = 0")
    case True
    with 1 show ?thesis by (simp add: pow2_loop.simps)
  next
    case False
    define shift where "shift = (if bits > 29 then 29 else bits)"
    obtain xs c where sc: "scale_limbs (2 ^ shift) 0 limbs = (xs, c)" by fastforce
    define ys where "ys = (if c \<noteq> 0 then xs @ [c] else xs)"
    have "(2 :: nat) ^ shift \<le> 2 ^ 29" by (intro power_increasing) (auto simp: shift_def)
    then have f: "2 ^ shift \<le> decimalLimbBase" "u64 (2 ^ shift) = 2 ^ shift"
      by (simp_all add: decimalLimbBase_def u64_small)
    have xs: "wf_limbs xs" "length xs = length limbs" "c < 2 ^ shift"
      "limbs_val xs + decimalLimbBase ^ length limbs * c = 2 ^ shift * limbs_val limbs"
      using scale_limbs_val [of limbs 0 "2 ^ shift"] "1.prems" f sc by simp_all
    then have ys: "wf_limbs ys" "ys \<noteq> []" "limbs_val ys = 2 ^ shift * limbs_val limbs"
      using f "1.prems"(2) by (auto simp: ys_def limbs_val_append)
    have eq: "pow2_loop bits limbs = pow2_loop (bits - shift) ys"
      using False sc f by (subst pow2_loop.simps) (simp add: shift_def [symmetric] ys_def Let_def)
    have pow: "(2 :: nat) ^ (bits - shift) * 2 ^ shift = 2 ^ bits"
      by (simp add: shift_def flip: power_add)
    have "wf_limbs (pow2_loop (bits - shift) ys) \<and> pow2_loop (bits - shift) ys \<noteq> []
        \<and> limbs_val (pow2_loop (bits - shift) ys) = 2 ^ (bits - shift) * limbs_val ys"
      by (rule "1.IH" [OF False shift_def, of "(xs, c)" xs c, folded ys_def])
        (simp_all only: sc f ys simp_thms)
    then show ?thesis
      unfolding eq ys(3) mult.assoc [symmetric] pow by simp
  qed
qed

lemma Pow2Unsigned_ok: "Pow2UnsignedDecimal (int n) = Some (FormatUint (2 ^ n))"
  using pow2_loop_val [of "[1]" n]
  by (simp add: Pow2UnsignedDecimal_def formatDecimalLimbs_ok decimalLimbBase_def)

lemma Pow2Unsigned_eq: "Pow2UnsignedDecimal k = Some (FormatUint (2 ^ nat k))"
proof (cases "0 \<le> k")
  case True
  then show ?thesis using Pow2Unsigned_ok [of "nat k"] by simp
next
  case False
  then show ?thesis by (simp add: Pow2UnsignedDecimal_def)
qed

end
