(* ===== verification/Limb_Division.thy ===== *)
theory Limb_Division
  imports Limbs
begin

text \<open>
  Long division of \<^verbatim>\<open>compiler/constant/decimal.go\<close> (Knuth's algorithm D in base \<open>10 ^ 9\<close>),
  the division of signed and unsigned decimals built on it, and the Euclidean algorithm.
  The correctness argument: the two-limb estimate never falls below the quotient digit, after
  the correction loop it exceeds it by at most one, and then the add-back repairs it.
\<close>

section \<open>Definitions\<close>

text \<open>
  Division of a limb list, most significant limb first, by one limb: the loop of the one-limb
  case and of the final unscaling of the remainder.
\<close>

fun short_div :: "uint64 \<Rightarrow> uint64 \<Rightarrow> uint64 list \<Rightarrow> uint64 list \<times> uint64" where
  "short_div divisor remainder [] = ([], remainder)"
| "short_div divisor remainder (limb # limbs) =
     (let v = u64 (u64 (remainder * decimalLimbBase) + limb);
          (rest, out) = short_div divisor (v mod divisor) limbs
      in (v div divisor # rest, out))"

text \<open>
  The correction loop of the estimate: \<open>v1\<close> and \<open>v2\<close> are the two leading limbs of the divisor,
  \<open>u2\<close> is the third limb of the dividend window.  The loop can only be entered with a positive
  estimate, so the decrement never wraps.
\<close>

function correct_estimate :: "uint64 \<Rightarrow> uint64 \<Rightarrow> uint64 \<Rightarrow> uint64 \<Rightarrow> uint64 \<Rightarrow> uint64" where
  "correct_estimate v1 v2 u2 estimate remainder =
     (if decimalLimbBase \<le> estimate
         \<or> u64 (remainder * decimalLimbBase + u2) < u64 (estimate * v2)
      then
        let estimate = u64_sub estimate 1;
            remainder = u64 (remainder + v1)
        in if decimalLimbBase \<le> remainder then estimate
           else correct_estimate v1 v2 u2 estimate remainder
      else estimate)"
  by pat_completeness auto

lemma u64_sub_1_less: "0 < n \<Longrightarrow> u64_sub n (Suc 0) < n"
proof -
  assume "0 < n"
  then have "n + 2 ^ 64 - Suc 0 = (n - 1) + 2 ^ 64" by simp
  then have "u64_sub n (Suc 0) = (n - 1) mod 2 ^ 64"
    unfolding u64_sub_def by (simp only: mod_add_self2)
  also have "\<dots> \<le> n - 1" by (rule mod_less_eq_dividend)
  finally show ?thesis using \<open>0 < n\<close> by linarith
qed

termination correct_estimate
proof (relation "measure (\<lambda>(v1, v2, u2, estimate, remainder). estimate)", goal_cases)
  case 1
  show ?case by simp
next
  case (2 v1 v2 u2 estimate remainder e r)
  then have "0 < estimate" by (cases "estimate = 0") (auto simp: u64_def decimalLimbBase_def)
  with 2 show ?case using u64_sub_1_less [of estimate] by simp
qed

declare correct_estimate.simps [simp del]

text \<open>Subtracting a multiple of the divisor from the window that starts at index \<open>k\<close>.\<close>

fun mul_sub :: "uint64 \<Rightarrow> nat \<Rightarrow> uint64 list \<Rightarrow> uint64 \<Rightarrow> uint64 list \<Rightarrow> uint64 list \<times> uint64" where
  "mul_sub estimate k [] borrow dividend = (dividend, borrow)"
| "mul_sub estimate k (limb # limbs) borrow dividend =
     (let prod = u64 (estimate * limb + borrow);
          borrow = prod div decimalLimbBase;
          low = prod mod decimalLimbBase;
          (digit, borrow) =
            (if dividend ! k < low then (u64 (dividend ! k + decimalLimbBase), u64 (borrow + 1))
             else (dividend ! k, borrow))
      in mul_sub estimate (Suc k) limbs borrow (dividend[k := u64_sub digit low]))"

text \<open>Adding the divisor back into the window.\<close>

fun add_back :: "nat \<Rightarrow> uint64 list \<Rightarrow> uint64 \<Rightarrow> uint64 list \<Rightarrow> uint64 list \<times> uint64" where
  "add_back k [] carry dividend = (dividend, carry)"
| "add_back k (limb # limbs) carry dividend =
     (let v = u64 (dividend ! k + limb + carry)
      in add_back (Suc k) limbs (v div decimalLimbBase) (dividend[k := v mod decimalLimbBase]))"

text \<open>One iteration of the main loop: the new dividend and the quotient limb.\<close>

definition divide_step :: "uint64 list \<Rightarrow> nat \<Rightarrow> uint64 list \<Rightarrow> uint64 list \<times> uint64" where
  "divide_step divisor offset dividend =
     (let width = length divisor;
          leading = u64 (dividend ! (offset + width) * decimalLimbBase + dividend ! (offset + width - 1));
          v1 = divisor ! (width - 1);
          estimate = correct_estimate v1 (divisor ! (width - 2)) (dividend ! (offset + width - 2))
                       (leading div v1) (leading mod v1);
          (reduced, borrow) = mul_sub estimate offset divisor 0 dividend;
          high = reduced ! (offset + width);
          negative = (high < borrow);
          reduced = reduced[offset + width := u64_sub (u64 (high + decimalLimbBase)) borrow mod decimalLimbBase]
      in if negative
         then
           let (restored, carry) = add_back offset divisor 0 reduced
           in (restored[offset + width := u64 (restored ! (offset + width) + carry) mod decimalLimbBase],
               u64_sub estimate 1)
         else (reduced, estimate))"

fun divide_loop :: "uint64 list \<Rightarrow> nat \<Rightarrow> uint64 list \<Rightarrow> uint64 list \<Rightarrow> uint64 list \<times> uint64 list" where
  "divide_loop divisor 0 dividend quo = (dividend, quo)"
| "divide_loop divisor (Suc offset) dividend quo =
     (let (dividend, digit) = divide_step divisor offset dividend
      in divide_loop divisor offset dividend (quo[offset := digit]))"

text \<open>
  The multi-limb case of \<^verbatim>\<open>divideCanonicalDecimal\<close>.  \<open>None\<close> stands for a panic: a quotient of
  negative length, an empty limb list to format, or a division by a leading limb of zero in the
  first round of the loop.  None of them happens on canonical input with a divisor other than
  zero.
\<close>

definition divide_long :: "uint64 list \<Rightarrow> uint64 list \<Rightarrow> (string \<times> string) option" where
  "divide_long dividend divisor =
     (let width = length divisor;
          steps = Suc (length dividend) - width;
          scale = decimalLimbBase div u64 (divisor ! (width - 1) + 1);
          (scaled_divisor, _) = scale_limbs scale 0 divisor;
          (scaled_dividend, carry) = scale_limbs scale 0 dividend
      in if steps = 0 \<or> scaled_divisor ! (width - 1) = 0 then None
         else
           let (reduced, quo) =
                 divide_loop scaled_divisor steps (scaled_dividend @ [carry]) (replicate steps 0);
               (unscaled, _) = short_div scale 0 (rev (take width reduced))
           in do {
             q \<leftarrow> formatDecimalLimbs quo;
             r \<leftarrow> formatDecimalLimbs (rev unscaled);
             Some (q, r)
           })"

definition divide_limbs :: "uint64 list \<Rightarrow> uint64 list \<Rightarrow> (string \<times> string) option" where
  "divide_limbs dividend divisor =
     (case divisor of
        [] \<Rightarrow> None
      | [limb] \<Rightarrow>
          if limb = 0 then None
          else
            let (quo, remainder) = short_div limb 0 (rev dividend)
            in do {
              q \<leftarrow> formatDecimalLimbs (rev quo);
              Some (q, FormatUint remainder)
            }
      | _ \<Rightarrow> divide_long dividend divisor)"

definition divideCanonicalDecimal :: "string \<Rightarrow> string \<Rightarrow> (string \<times> string) option" where
  "divideCanonicalDecimal left right =
     (let slow = divide_limbs (decimalLimbs left) (decimalLimbs right)
      in if right = ''1'' then Some (left, ''0'')
         else
           let comparison = compareCanonicalDecimal left right
           in if comparison < 0 then Some (''0'', left)
              else if comparison = 0 then Some (''1'', ''0'')
              else
                case ParseUint left 10 of
                  None \<Rightarrow> slow
                | Some leftValue \<Rightarrow>
                    (case ParseUint right 10 of
                       None \<Rightarrow> slow
                     | Some rightValue \<Rightarrow>
                         if rightValue = 0 then None
                         else Some (FormatUint (leftValue div rightValue),
                                    FormatUint (leftValue mod rightValue))))"

definition DivideUnsignedDecimal :: "string \<Rightarrow> string \<Rightarrow> (string \<times> string \<times> bool) option" where
  "DivideUnsignedDecimal left0 right0 =
     (let (left, leftOK) = normalizeUnsignedDecimal left0;
          (right, rightOK) = normalizeUnsignedDecimal right0
      in if \<not> leftOK \<or> \<not> rightOK \<or> right = ''0'' then Some ([], [], False)
         else do {
           (quo, remainder) \<leftarrow> divideCanonicalDecimal left right;
           Some (quo, remainder, True)
         })"

definition DivideSignedDecimal :: "string \<Rightarrow> string \<Rightarrow> (string \<times> string \<times> bool) option" where
  "DivideSignedDecimal left0 right0 =
     (let (left, leftOK) = NormalizeSignedDecimal left0;
          (right, rightOK) = NormalizeSignedDecimal right0
      in if \<not> leftOK \<or> \<not> rightOK \<or> right = ''0'' then Some ([], [], False)
         else
           let quotientNegative = (HasPrefix left ''-'' \<noteq> HasPrefix right ''-'');
               remainderNegative = HasPrefix left ''-''
           in do {
             (quo, remainder) \<leftarrow>
               divideCanonicalDecimal (TrimPrefix left ''-'') (TrimPrefix right ''-'');
             Some (if quotientNegative \<and> quo \<noteq> ''0'' then CHR ''-'' # quo else quo,
                   if remainderNegative \<and> remainder \<noteq> ''0'' then CHR ''-'' # remainder else remainder,
                   True)
           })"

text \<open>
  The Euclidean loop has no bound in the source: \<open>None\<close> is a panic of the division or a loop
  that does not end.
\<close>

partial_function (option) gcdCanonicalDecimal :: "string \<Rightarrow> string \<Rightarrow> string option" where
  "gcdCanonicalDecimal left right =
     (if right = ''0'' then Some left
      else do {
        qr \<leftarrow> divideCanonicalDecimal left right;
        gcdCanonicalDecimal right (snd qr)
      })"

definition GCDUnsignedDecimal :: "string \<Rightarrow> string \<Rightarrow> string option" where
  "GCDUnsignedDecimal left0 right0 =
     (let (left, leftOK) = normalizeUnsignedDecimal left0;
          (right, rightOK) = normalizeUnsignedDecimal right0
      in if \<not> leftOK \<or> \<not> rightOK then Some ''1'' else gcdCanonicalDecimal left right)"

section \<open>Division by one limb\<close>

lemma short_div_val:
  assumes "0 < d" "d \<le> decimalLimbBase" "r < d" "wf_limbs xs" "short_div d r xs = (qs, out)"
  shows "out < d \<and> wf_limbs qs \<and> length qs = length xs
    \<and> limbs_val (rev qs) * d + out = r * decimalLimbBase ^ length xs + limbs_val (rev xs)"
  using assms(3-5)
proof (induction xs arbitrary: r qs out)
  case Nil
  then show ?case by simp
next
  case (Cons x xs)
  define v where "v = r * decimalLimbBase + x"
  have "v < Suc r * decimalLimbBase" using Cons.prems by (simp add: v_def)
  also have "\<dots> \<le> d * decimalLimbBase" using Cons.prems by (intro mult_le_mono1) simp
  finally have v: "v < d * decimalLimbBase" .
  also have "\<dots> \<le> decimalLimbBase * decimalLimbBase" using assms(2) by simp
  finally have "v < 2 ^ 64" using base_square by linarith
  then have u: "u64 (u64 (r * decimalLimbBase) + x) = v" by (simp add: v_def u64_small)
  obtain qs' out' where rest: "short_div d (v mod d) xs = (qs', out')" by fastforce
  have IH: "out' < d" "wf_limbs qs'" "length qs' = length xs"
    "limbs_val (rev qs') * d + out' = (v mod d) * decimalLimbBase ^ length xs + limbs_val (rev xs)"
    using Cons.IH [OF _ _ rest] Cons.prems assms(1) by simp_all
  have eq: "qs = v div d # qs'" "out = out'" using Cons.prems(3) u rest by simp_all
  have "v div d < decimalLimbBase" using v by (simp add: less_mult_imp_div_less mult.commute)
  moreover have "v * decimalLimbBase ^ length xs =
      (d * (v div d) + v mod d) * decimalLimbBase ^ length xs" by simp
  then have "(limbs_val (rev qs') + decimalLimbBase ^ length xs * (v div d)) * d + out' =
      v * decimalLimbBase ^ length xs + limbs_val (rev xs)"
    using IH(4) by (simp only: distrib_right distrib_left ac_simps)
  ultimately show ?case
    using IH(1-3) by (simp add: eq limbs_val_append v_def algebra_simps)
qed

section \<open>The window operations\<close>

lemma mul_sub_arith:
  fixes B P :: nat
  assumes "digit + (e * d + b) = w + B * b2" and "lw' + e * ld + b2 = lw + P * b'"
  shows "digit + B * lw' + e * (d + B * ld) + b = w + B * lw + B * P * b'"
  using assms(1) arg_cong [OF assms(2), of "\<lambda>z. B * z"] by (simp add: algebra_simps)

lemma mul_sub_digit:
  assumes "e < decimalLimbBase" "d < decimalLimbBase" "b \<le> decimalLimbBase" "w < decimalLimbBase"
  defines "p \<equiv> u64 (e * d + b)"
  defines "low \<equiv> p mod decimalLimbBase"
  defines "b1 \<equiv> p div decimalLimbBase"
  defines "digit \<equiv> (if w < low then u64_sub (u64 (w + decimalLimbBase)) low else u64_sub w low)"
  defines "b2 \<equiv> (if w < low then u64 (b1 + 1) else b1)"
  shows "digit < decimalLimbBase" "b2 \<le> decimalLimbBase"
    "digit + (e * d + b) = w + decimalLimbBase * b2"
proof -
  have "e * d \<le> (decimalLimbBase - 1) * (decimalLimbBase - 1)"
    using assms(1,2) by (intro mult_le_mono) auto
  then have bound: "e * d + b < decimalLimbBase * decimalLimbBase"
    using assms(3) by (simp add: decimalLimbBase_def)
  then have p: "p = e * d + b" using base_square by (simp add: p_def u64_small)
  have low: "low < decimalLimbBase" by (simp add: low_def)
  have b1: "b1 < decimalLimbBase" using bound p by (simp add: b1_def less_mult_imp_div_less)
  have split: "e * d + b = decimalLimbBase * b1 + low" using p by (simp add: b1_def low_def)
  have small: "w + decimalLimbBase < 2 ^ 64" "b1 + 1 < 2 ^ 64"
    using assms(4) b1 by (simp_all add: decimalLimbBase_def)
  have dig: "digit = (if w < low then w + decimalLimbBase - low else w - low)"
    using small low by (simp add: digit_def u64_small u64_sub_small)
  have b2: "b2 = (if w < low then b1 + 1 else b1)" using small by (simp add: b2_def u64_small)
  show "digit < decimalLimbBase" using dig assms(4) low by auto
  show "b2 \<le> decimalLimbBase" using b1 by (simp add: b2)
  show "digit + (e * d + b) = w + decimalLimbBase * b2"
    unfolding split dig b2 using low by auto
qed

lemma mul_sub_val:
  assumes "e < decimalLimbBase" "b \<le> decimalLimbBase" "wf_limbs ds" "wf_limbs ws"
    "length ws = length ds"
  shows "\<exists>ws' b'. mul_sub e (length pre) ds b (pre @ ws @ post) = (pre @ ws' @ post, b')
    \<and> length ws' = length ds \<and> wf_limbs ws' \<and> b' \<le> decimalLimbBase
    \<and> limbs_val ws' + e * limbs_val ds + b = limbs_val ws + decimalLimbBase ^ length ds * b'"
  using assms(2-)
proof (induction ds arbitrary: pre ws b)
  case Nil
  then show ?case by simp
next
  case (Cons d ds)
  then obtain w ws1 where ws: "ws = w # ws1" "length ws1 = length ds" "w < decimalLimbBase"
    "wf_limbs ws1"
    by (cases ws) auto
  define p where "p = u64 (e * d + b)"
  define digit where "digit = (if w < p mod decimalLimbBase
    then u64_sub (u64 (w + decimalLimbBase)) (p mod decimalLimbBase)
    else u64_sub w (p mod decimalLimbBase))"
  define b2 where "b2 = (if w < p mod decimalLimbBase then u64 (p div decimalLimbBase + 1)
    else p div decimalLimbBase)"
  have dig: "digit < decimalLimbBase" "b2 \<le> decimalLimbBase"
    "digit + (e * d + b) = w + decimalLimbBase * b2"
    unfolding digit_def b2_def p_def using assms(1) Cons.prems ws(3)
    by (intro mul_sub_digit; simp)+
  obtain ws' b' where IH:
    "mul_sub e (length (pre @ [digit])) ds b2 ((pre @ [digit]) @ ws1 @ post) =
       ((pre @ [digit]) @ ws' @ post, b')"
    "length ws' = length ds" "wf_limbs ws'" "b' \<le> decimalLimbBase"
    "limbs_val ws' + e * limbs_val ds + b2 = limbs_val ws1 + decimalLimbBase ^ length ds * b'"
    using Cons.IH [of b2 ws1 "pre @ [digit]"] Cons.prems dig(2) ws by auto
  have "mul_sub e (length pre) (d # ds) b (pre @ ws @ post) =
      mul_sub e (Suc (length pre)) ds b2 (pre @ digit # ws1 @ post)"
    unfolding mul_sub.simps Let_def p_def [symmetric]
    by (simp add: ws digit_def b2_def nth_append)
  then have "mul_sub e (length pre) (d # ds) b (pre @ ws @ post) = (pre @ (digit # ws') @ post, b')"
    using IH(1) by simp
  moreover have "limbs_val (digit # ws') + e * limbs_val (d # ds) + b =
      limbs_val ws + decimalLimbBase ^ length (d # ds) * b'"
    using mul_sub_arith [OF dig(3) IH(5)] ws by simp
  ultimately show ?case
    using IH(2-4) dig(1) by (intro exI [of _ "digit # ws'"] exI [of _ b']) simp
qed

lemma add_back_val:
  assumes "c \<le> 1" "wf_limbs ds" "wf_limbs ws" "length ws = length ds"
  shows "\<exists>ws' c'. add_back (length pre) ds c (pre @ ws @ post) = (pre @ ws' @ post, c')
    \<and> length ws' = length ds \<and> wf_limbs ws' \<and> c' \<le> 1
    \<and> limbs_val ws' + decimalLimbBase ^ length ds * c' = limbs_val ws + limbs_val ds + c"
  using assms
proof (induction ds arbitrary: pre ws c)
  case Nil
  then show ?case by simp
next
  case (Cons d ds)
  then obtain w ws1 where ws: "ws = w # ws1" "length ws1 = length ds" "w < decimalLimbBase"
    "wf_limbs ws1"
    by (cases ws) auto
  define v where "v = w + d + c"
  define m where "m = v mod decimalLimbBase"
  define q where "q = v div decimalLimbBase"
  have v: "v < 2 * decimalLimbBase" using Cons.prems ws by (simp add: v_def)
  then have "v < 2 ^ 64" by (simp add: decimalLimbBase_def)
  then have u: "u64 (w + d + c) = v" by (simp add: v_def u64_small)
  have q: "q \<le> 1" using v less_mult_imp_div_less [of v 2 decimalLimbBase] by (simp add: q_def)
  have mq: "m + decimalLimbBase * q = w + d + c" by (simp add: m_def q_def v_def)
  obtain ws' c' where IH:
    "add_back (length (pre @ [m])) ds q ((pre @ [m]) @ ws1 @ post) = ((pre @ [m]) @ ws' @ post, c')"
    "length ws' = length ds" "wf_limbs ws'" "c' \<le> 1"
    "limbs_val ws' + decimalLimbBase ^ length ds * c' = limbs_val ws1 + limbs_val ds + q"
    using Cons.IH [of q ws1 "pre @ [m]"] Cons.prems q ws by auto
  have "add_back (length pre) (d # ds) c (pre @ ws @ post) = (pre @ (m # ws') @ post, c')"
    using IH(1) u by (simp add: ws m_def q_def Let_def nth_append)
  moreover have "limbs_val (m # ws') + decimalLimbBase ^ length (d # ds) * c' =
      limbs_val ws + limbs_val (d # ds) + c"
    using mq arg_cong [OF IH(5), of "\<lambda>z. decimalLimbBase * z"] ws by (simp add: algebra_simps)
  moreover have "m < decimalLimbBase" by (simp add: m_def)
  ultimately show ?case
    using IH(2-4) by (intro exI [of _ "m # ws'"] exI [of _ c']) simp
qed

section \<open>The estimate of one quotient limb\<close>

lemma correct_estimate_spec:
  assumes "v1 < decimalLimbBase" "v2 < decimalLimbBase" "u2 < decimalLimbBase"
    "decimalLimbBase \<le> 2 * v1" "lead \<le> v1 * decimalLimbBase + (decimalLimbBase - 1)"
    "q < decimalLimbBase" "q * (v1 * decimalLimbBase + v2) \<le> lead * decimalLimbBase + u2"
    and "lead = e * v1 + r" "r < decimalLimbBase" "q \<le> e"
  shows "q \<le> correct_estimate v1 v2 u2 e r \<and> correct_estimate v1 v2 u2 e r < decimalLimbBase
    \<and> correct_estimate v1 v2 u2 e r * (v1 * decimalLimbBase + v2) \<le> lead * decimalLimbBase + u2"
  using assms(8-10)
proof (induction e arbitrary: r rule: less_induct)
  case (less e r)
  let ?B = decimalLimbBase
  have v1: "0 < v1" using assms(4) by (cases v1) simp_all
  have "(?B + 2) * v1 = v1 * ?B + 2 * v1" by (simp add: algebra_simps)
  moreover have "e * v1 \<le> v1 * ?B + (?B - 1)" using less.prems(1) assms(5) by linarith
  moreover have "?B - 1 < 2 * v1" using assms(4) base_pos by linarith
  ultimately have "e * v1 < (?B + 2) * v1" by linarith
  then have e: "e < ?B + 2" by (simp only: mult_less_cancel2)
  have "r * ?B + u2 < Suc r * ?B" using assms(3) by simp
  also have "\<dots> \<le> ?B * ?B" using less.prems(2) by (intro mult_le_mono1) simp
  finally have no1: "u64 (r * ?B + u2) = r * ?B + u2" using base_square by (simp add: u64_small)
  have "e * v2 \<le> (?B + 2) * ?B" using e assms(2) by (intro mult_le_mono) simp_all
  then have no2: "u64 (e * v2) = e * v2" using base_square by (simp add: u64_small)
  have key: "e * (v1 * ?B + v2) + r * ?B = lead * ?B + e * v2"
    unfolding less.prems(1) by (simp add: algebra_simps)
  show ?case
  proof (cases "?B \<le> e \<or> r * ?B + u2 < e * v2")
    case False
    then have "correct_estimate v1 v2 u2 e r = e"
      by (simp add: correct_estimate.simps [of v1 v2 u2 e r] no1 no2)
    with False key less.prems(3) show ?thesis by auto
  next
    case True
    have "q < e"
    proof (cases "?B \<le> e")
      case False
      with True key have "lead * ?B + u2 < e * (v1 * ?B + v2)" by linarith
      with assms(7) have "q * (v1 * ?B + v2) < e * (v1 * ?B + v2)" by linarith
      then show ?thesis by simp
    qed (use assms(6) in simp)
    then have q: "q \<le> e - 1" and e1: "Suc (e - 1) = e" by simp_all
    have "e < 2 ^ 64" using e by (simp add: decimalLimbBase_def)
    then have sub: "u64_sub e 1 = e - 1" using e1 by (intro u64_sub_small) simp_all
    have "r + v1 < 2 ^ 64" using less.prems(2) assms(1) by (simp add: decimalLimbBase_def)
    then have add: "u64 (r + v1) = r + v1" by (rule u64_small)
    have lead: "lead = (e - 1) * v1 + (r + v1)"
      unfolding less.prems(1) by (subst e1 [symmetric]) simp
    have unf: "correct_estimate v1 v2 u2 e r =
        (if ?B \<le> r + v1 then e - 1 else correct_estimate v1 v2 u2 (e - 1) (r + v1))"
      using True by (simp only: correct_estimate.simps [of v1 v2 u2 e r] no1 no2 sub add Let_def if_True)
    show ?thesis
    proof (cases "?B \<le> r + v1")
      case True
      have "\<not> ?B \<le> e - 1"
      proof
        assume "?B \<le> e - 1"
        then have "?B * v1 \<le> (e - 1) * v1" by (rule mult_le_mono1)
        moreover have "?B * v1 = v1 * ?B" by (rule mult.commute)
        ultimately show False using lead True assms(5) base_pos by linarith
      qed
      then have "(e - 1) * v2 \<le> ?B * ?B" using assms(2) by (intro mult_le_mono) simp_all
      also have "\<dots> \<le> (r + v1) * ?B" using True by (intro mult_le_mono1)
      finally have "(e - 1) * (v1 * ?B + v2) \<le> lead * ?B"
        unfolding lead by (simp add: algebra_simps)
      with unf True q \<open>\<not> ?B \<le> e - 1\<close> show ?thesis by simp
    next
      case False
      with less.IH [OF _ lead] q e1 unf show ?thesis by simp
    qed
  qed
qed

section \<open>One step of the main loop\<close>

text \<open>
  The facts on the leading limbs that the estimate needs, for a window \<open>us @ [u2, y, x]\<close> and a
  divisor \<open>vs @ [v2, v1]\<close>.
\<close>

lemma leading_limbs:
  fixes P :: nat
  assumes W: "W = lu + P * (u2 + decimalLimbBase * lead)" and V: "V = lv + P * (v1 * decimalLimbBase + v2)"
    and lt: "lu < P" "lv < P" "v2 < decimalLimbBase" "0 < v1" "u2 < decimalLimbBase" and WV: "W < decimalLimbBase * V"
    and lead: "lead = x * decimalLimbBase + y" "y < decimalLimbBase"
  shows "W div V * (v1 * decimalLimbBase + v2) \<le> lead * decimalLimbBase + u2"
    and "lead \<le> v1 * decimalLimbBase + (decimalLimbBase - 1)"
    and "W div V \<le> lead div v1"
    and "\<And>e. e < decimalLimbBase \<Longrightarrow> e * (v1 * decimalLimbBase + v2) \<le> lead * decimalLimbBase + u2 \<Longrightarrow>
      e * V < W + V"
proof -
  let ?B = decimalLimbBase and ?q = "W div V"
  have "P * (?q * (v1 * ?B + v2)) = ?q * (P * (v1 * ?B + v2))" by (simp only: ac_simps)
  also have "\<dots> \<le> ?q * V" by (rule mult_le_mono2) (simp add: V)
  also have "\<dots> \<le> W" by simp
  also have "W < P * (lead * ?B + u2 + 1)" using W lt(1) by (simp add: algebra_simps)
  finally have "P * (?q * (v1 * ?B + v2)) < P * (lead * ?B + u2 + 1)" .
  then have "?q * (v1 * ?B + v2) < lead * ?B + u2 + 1" by (simp only: mult_less_cancel1)
  then show H: "?q * (v1 * ?B + v2) \<le> lead * ?B + u2" by simp
  have "P * (?B * lead) \<le> W" unfolding W by (simp add: distrib_left)
  also note WV
  also have "?B * V < ?B * (P * (v1 * ?B + v2 + 1))"
    using lt(2) by (simp add: V algebra_simps)
  also have "\<dots> \<le> ?B * (P * ((v1 + 1) * ?B))" using lt(3) by (intro mult_le_mono2) simp
  finally have "(P * ?B) * lead < (P * ?B) * ((v1 + 1) * ?B)" by (simp only: ac_simps)
  then have "lead < (v1 + 1) * ?B" by (simp only: mult_less_cancel1)
  then show "lead \<le> v1 * ?B + (?B - 1)" by simp
  have "?q * v1 * ?B \<le> lead * ?B + u2" using H by (simp add: algebra_simps)
  also have "\<dots> < (lead + 1) * ?B" using lt(5) by simp
  finally have "?q * v1 < lead + 1" by (simp only: mult_less_cancel2)
  then show "?q \<le> lead div v1" using lt(4) by (simp add: less_eq_div_iff_mult_less_eq)
  show "e * V < W + V" if e: "e < ?B" "e * (v1 * ?B + v2) \<le> lead * ?B + u2" for e
  proof -
    have "e * V = e * lv + P * (e * (v1 * ?B + v2))" unfolding V by (simp add: algebra_simps)
    also have "\<dots> \<le> e * lv + P * (lead * ?B + u2)" using e(2) by simp
    also have "\<dots> \<le> e * lv + W" using W by (simp add: algebra_simps)
    also have "e * lv + W < ?B * P + W"
      using e(1) lt(2) by (intro add_strict_right_mono mult_strict_mono') simp_all
    also have "?B * P \<le> P * (v1 * ?B)" using lt(4) by simp
    also have "\<dots> \<le> V" unfolding V by (simp add: algebra_simps)
    finally show ?thesis by simp
  qed
qed

text \<open>
  From the estimate to the remainder: whichever of the two possible estimates was used, the
  window afterwards holds the remainder and its top limb is zero.
\<close>

lemma window_result:
  fixes Bw :: nat
  assumes W: "W = lw + Bw * x" and V: "0 < V" "V \<le> Bw" and lw': "lw' < Bw"
    and eq: "lw' + e * V = lw + Bw * b'"
  shows "e = W div V \<Longrightarrow> b' = x \<and> lw' = W mod V"
    and "e = W div V + 1 \<Longrightarrow> b' = x + 1 \<and> lw' + V = W mod V + Bw"
proof -
  have W': "W = W div V * V + W mod V" by simp
  have m: "W mod V < V" using V(1) by simp
  show "b' = x \<and> lw' = W mod V" if "e = W div V"
  proof -
    have "lw' + W div V * V = lw + Bw * b'" using eq that by simp
    then have "lw' + Bw * x = W mod V + Bw * b'" using W W' by linarith
    then have key: "int lw' - int (W mod V) = int Bw * (int b' - int x)"
      by (simp add: algebra_simps flip: of_nat_add of_nat_mult)
    have "int Bw * (-1) < int Bw * (int b' - int x)" "int Bw * (int b' - int x) < int Bw * 1"
      unfolding key [symmetric] using m V lw' by linarith+
    moreover have "0 < int Bw" using V by simp
    ultimately have "- 1 < int b' - int x" "int b' - int x < 1"
      by (simp_all only: mult_less_cancel_left_pos)
    then have "int b' - int x = 0" by simp
    with key show ?thesis by simp
  qed
  show "b' = x + 1 \<and> lw' + V = W mod V + Bw" if "e = W div V + 1"
  proof -
    have "lw' + W div V * V + V = lw + Bw * b'" using eq that by simp
    then have "lw' + V + Bw * x = W mod V + Bw * b'" using W W' by linarith
    then have key: "int lw' + int V - int (W mod V) = int Bw * (int b' - int x)"
      by (simp add: algebra_simps flip: of_nat_add of_nat_mult)
    have "0 < int Bw * (int b' - int x)" "int Bw * (int b' - int x) < int Bw * 2"
      unfolding key [symmetric] using m V lw' by linarith+
    then have "int b' - int x = 1" using V
      by (simp add: zero_less_mult_iff)
    with key show ?thesis by simp
  qed
qed

lemma two_leading_limbs:
  assumes "2 \<le> length v"
  obtains vs v2 v1 where "v = vs @ [v2, v1]" "length vs = length v - 2"
proof -
  obtain xs a where xs: "v = xs @ [a]" using assms by (cases v rule: rev_cases) auto
  then obtain ys b where "xs = ys @ [b]" using assms by (cases xs rule: rev_cases) auto
  with xs that [of ys b a] show ?thesis by simp
qed

lemma divide_step_ok:
  assumes wf: "wf_limbs v" "wf_limbs ws" "x < decimalLimbBase"
    and len: "length ws = length v" "2 \<le> length v"
    and lead: "decimalLimbBase \<le> 2 * v ! (length v - 1)"
    and WV: "limbs_val (ws @ [x]) < decimalLimbBase * limbs_val v"
  shows "\<exists>ws'. divide_step v (length low) (low @ ws @ x # high) =
      (low @ ws' @ 0 # high, limbs_val (ws @ [x]) div limbs_val v)
    \<and> length ws' = length v \<and> wf_limbs ws' \<and> limbs_val ws' = limbs_val (ws @ [x]) mod limbs_val v"
proof -
  let ?B = decimalLimbBase and ?V = "limbs_val v" and ?W = "limbs_val (ws @ [x])" and ?o = "length low"
  obtain vs v2 v1 where v: "v = vs @ [v2, v1]" and vs: "length vs = length v - 2"
    using two_leading_limbs [OF len(2)] .
  obtain us u2 y where u: "ws = us @ [u2, y]" and us: "length us = length v - 2"
    using two_leading_limbs [of ws] len by metis
  define P where "P = ?B ^ length vs"
  define L where "L = x * ?B + y"
  have small: "v1 < ?B" "v2 < ?B" "u2 < ?B" "y < ?B" "wf_limbs vs" "wf_limbs us" "?B \<le> 2 * v1"
    using wf lead by (simp_all add: v u nth_append)
  have v1: "0 < v1" using small(7) by (cases v1) simp_all
  have lens: "length us = length vs" using us vs by simp
  have W: "?W = limbs_val us + P * (u2 + ?B * L)"
    by (simp add: u limbs_val_append P_def lens L_def algebra_simps)
  have V: "?V = limbs_val vs + P * (v1 * ?B + v2)"
    by (simp add: v limbs_val_append P_def algebra_simps)
  have ltP: "limbs_val us < P" "limbs_val vs < P"
    using limbs_val_less [OF small(6)] limbs_val_less [OF small(5)] by (simp_all add: P_def lens)
  note facts = leading_limbs [OF W V ltP small(2) v1 small(3) WV L_def small(4)]
  define q where "q = ?W div ?V"
  have Vpos: "0 < ?V" using WV by (cases "?V = 0") simp_all
  have q: "q < ?B" using WV by (simp add: q_def less_mult_imp_div_less)
  define e where "e = correct_estimate v1 v2 u2 (L div v1) (L mod v1)"
  have "L mod v1 < ?B" using v1 small(1) by (meson mod_less_divisor less_trans)
  then have e: "q \<le> e" "e < ?B" "e * (v1 * ?B + v2) \<le> L * ?B + u2"
    using correct_estimate_spec [OF small(1-3,7) facts(2) q, of "L div v1" "L mod v1"] facts(1,3)
    by (simp_all add: q_def e_def)
  have "e * ?V < ?W + ?V" using facts(4) e by blast
  also have "\<dots> < (q + 2) * ?V" using Vpos by (simp add: q_def dividend_less_div_times)
  finally have "e < q + 2" by (simp only: mult_less_cancel2)
  then have e_cases: "e = q \<or> e = q + 1" using e(1) by linarith
  have "L < 2 ^ 64" using facts(2) small(1) mult_le_mono1 [of v1 "?B - 1" ?B]
    by (simp add: decimalLimbBase_def)
  then have L: "u64 (x * ?B + y) = L" by (simp add: L_def u64_small)
  have lv: "length v = length us + 2" using us len(2) by simp
  have nth: "(low @ ws @ x # high) ! (?o + length v) = x"
    "(low @ ws @ x # high) ! (?o + length v - 1) = y"
    "(low @ ws @ x # high) ! (?o + length v - 2) = u2"
    by (simp_all add: nth_append u lv)
  have vnth: "v ! (length v - 1) = v1" "v ! (length v - 2) = v2"
    using lens by (simp_all add: lv) (simp_all add: v nth_append)
  obtain ws1 b' where sub: "mul_sub e ?o v 0 (low @ ws @ x # high) = (low @ ws1 @ x # high, b')"
    and ws1: "length ws1 = length v" "wf_limbs ws1" "b' \<le> ?B"
    "limbs_val ws1 + e * ?V = limbs_val ws + ?B ^ length v * b'"
    using mul_sub_val [of e 0 v ws low "x # high"] e(2) wf len by auto
  have lt: "limbs_val ws1 < ?B ^ length v" "?V \<le> ?B ^ length v"
    using limbs_val_less [OF ws1(2)] limbs_val_less [OF wf(1)] ws1(1) by simp_all
  have Wx: "?W = limbs_val ws + ?B ^ length v * x" by (simp add: limbs_val_append len)
  note res = window_result [OF Wx Vpos lt(2,1) ws1(4)]
  have xB: "u64 (x + ?B) = x + ?B" "x + ?B < 2 ^ 64"
    using wf(3) by (simp_all add: u64_small decimalLimbBase_def)
  have step: "divide_step v ?o (low @ ws @ x # high) =
      (let reduced = low @ ws1 @ (u64_sub (x + ?B) b' mod ?B) # high
       in if x < b'
          then let (restored, carry) = add_back ?o v 0 reduced
               in (restored[?o + length v := u64 (restored ! (?o + length v) + carry) mod ?B], u64_sub e 1)
          else (reduced, e))"
    unfolding divide_step_def Let_def nth L vnth e_def [symmetric] sub prod.case
    by (simp add: nth_append list_update_append ws1(1) xB)
  from e_cases show ?thesis
  proof
    assume "e = q"
    then have b: "b' = x" "limbs_val ws1 = ?W mod ?V" using res(1) by (simp_all add: q_def)
    have "u64_sub (x + ?B) x mod ?B = 0" using xB(2) by (simp add: u64_sub_small)
    with step b ws1 \<open>e = q\<close> show ?thesis by (simp add: q_def)
  next
    assume "e = q + 1"
    then have b: "b' = x + 1" "limbs_val ws1 + ?V = ?W mod ?V + ?B ^ length v"
      using res(2) by (simp_all add: q_def)
    have "u64_sub (x + ?B) (x + 1) = ?B - 1"
      using xB(2) by (subst u64_sub_small) (simp_all add: decimalLimbBase_def)
    then have hi: "u64_sub (x + ?B) b' mod ?B = ?B - 1" using b(1) by simp
    obtain ws2 c where restore: "add_back ?o v 0 (low @ ws1 @ (?B - 1) # high) =
        (low @ ws2 @ (?B - 1) # high, c)"
      and ws2: "length ws2 = length v" "wf_limbs ws2" "c \<le> 1"
      "limbs_val ws2 + ?B ^ length v * c = limbs_val ws1 + ?V"
      using add_back_val [of 0 v ws1 low "(?B - 1) # high"] wf ws1 by auto
    have "?W mod ?V < ?B ^ length v" using Vpos lt(2) by (meson mod_less_divisor less_le_trans)
    with ws2 b(2) limbs_val_less [OF ws2(2)] have c: "c = 1" "limbs_val ws2 = ?W mod ?V"
      by (cases c; simp)+
    have "e < 2 ^ 64" "1 \<le> e" using e(2) \<open>e = q + 1\<close> by (simp_all add: decimalLimbBase_def)
    then have "u64_sub e 1 = q" using \<open>e = q + 1\<close> by (subst u64_sub_small) simp_all
    moreover have "u64 (?B - 1 + 1) mod ?B = 0" by (simp add: u64_small decimalLimbBase_def)
    ultimately show ?thesis
      using step b(1) hi restore c ws2
      by (simp add: nth_append list_update_append q_def)
  qed
qed

section \<open>The main loop\<close>

lemma divide_loop_ok:
  assumes wf: "wf_limbs v" "2 \<le> length v" "decimalLimbBase \<le> 2 * v ! (length v - 1)"
  assumes "wf_limbs (low @ ws @ [x])" "length low = offset" "length ws = length v"
    "limbs_val (ws @ [x]) < decimalLimbBase * limbs_val v" "offset < length quo"
  shows "\<exists>rs qs rest. divide_loop v (Suc offset) (low @ ws @ x # high) quo = (rs @ rest, qs @ drop (Suc offset) quo)
    \<and> length rs = length v \<and> wf_limbs rs \<and> length qs = Suc offset \<and> wf_limbs qs
    \<and> limbs_val qs = limbs_val (low @ ws @ [x]) div limbs_val v
    \<and> limbs_val rs = limbs_val (low @ ws @ [x]) mod limbs_val v"
  using assms(4-)
proof (induction offset arbitrary: low ws x high quo)
  case 0
  let ?W = "limbs_val (ws @ [x])" and ?V = "limbs_val v"
  obtain ws' where st: "divide_step v (length low) (low @ ws @ x # high) = (low @ ws' @ 0 # high, ?W div ?V)"
    and ws': "length ws' = length v" "wf_limbs ws'" "limbs_val ws' = ?W mod ?V"
    using divide_step_ok [of v ws x low high] wf 0 by auto
  have "?W div ?V < decimalLimbBase" using 0 by (simp add: less_mult_imp_div_less)
  moreover have "quo[0 := ?W div ?V] = (?W div ?V) # drop (Suc 0) quo"
    using 0 by (cases quo) simp_all
  ultimately show ?case
    using st ws' 0
    by (intro exI [of _ ws'] exI [of _ "[?W div ?V]"] exI [of _ "0 # high"]) simp
next
  case (Suc offset)
  let ?B = decimalLimbBase and ?W = "limbs_val (ws @ [x])" and ?V = "limbs_val v"
  obtain ws' where st: "divide_step v (length low) (low @ ws @ x # high) = (low @ ws' @ 0 # high, ?W div ?V)"
    and ws': "length ws' = length v" "wf_limbs ws'" "limbs_val ws' = ?W mod ?V"
    using divide_step_ok [of v ws x low high] wf Suc.prems by auto
  have Vpos: "0 < ?V" using Suc.prems(4) by (cases "?V = 0") simp_all
  have qlt: "?W div ?V < ?B" using Suc.prems(4) by (simp add: less_mult_imp_div_less)
  obtain low' l where low: "low = low' @ [l]" "length low' = offset"
    using Suc.prems(2) by (cases low rule: rev_cases) auto
  obtain ws2 x2 where w2: "l # ws' = ws2 @ [x2]" by (cases "l # ws'" rule: rev_cases) auto
  have len2: "length ws2 = length v" using arg_cong [OF w2, of length] ws'(1) by simp
  have "limbs_val (ws2 @ [x2]) = l + ?B * (?W mod ?V)" unfolding w2 [symmetric] by (simp add: ws'(3))
  also have "\<dots> < ?B * (?W mod ?V + 1)" using Suc.prems(1) by (simp add: low)
  also have "\<dots> \<le> ?B * ?V" using Vpos by (intro mult_le_mono2) (simp add: Suc_leI)
  finally have lt2: "limbs_val (ws2 @ [x2]) < ?B * ?V" .
  have wf2: "wf_limbs (low' @ ws2 @ [x2])"
    unfolding w2 [symmetric] using Suc.prems(1) ws'(2) by (simp add: low)
  have eq2: "low @ ws' @ 0 # high = low' @ ws2 @ x2 # 0 # high"
    using w2 by (simp add: low)
  let ?N' = "limbs_val (low' @ ws2 @ [x2])" and ?N = "limbs_val (low @ ws @ [x])"
  let ?quo = "quo[Suc offset := ?W div ?V]"
  obtain rs qs rest where IH:
    "divide_loop v (Suc offset) (low' @ ws2 @ x2 # 0 # high) ?quo = (rs @ rest, qs @ drop (Suc offset) ?quo)"
    "length rs = length v" "wf_limbs rs" "length qs = Suc offset" "wf_limbs qs"
    "limbs_val qs = ?N' div ?V" "limbs_val rs = ?N' mod ?V"
    using Suc.IH [OF wf2 low(2) len2 lt2, of ?quo "0 # high"] Suc.prems(5) by auto
  have "low' @ ws2 @ [x2] = low @ ws'" unfolding w2 [symmetric] by (simp add: low)
  then have N': "?N' = limbs_val low + ?B ^ Suc offset * (?W mod ?V)"
    by (simp add: limbs_val_append ws'(3) low distrib_left mult.assoc mult.left_commute)
  have "?N = limbs_val low + ?B ^ Suc offset * ?W"
    using Suc.prems(2) by (simp add: limbs_val_append)
  also have "?W = ?W div ?V * ?V + ?W mod ?V" by simp
  finally have N: "?N = ?N' + (?B ^ Suc offset * (?W div ?V)) * ?V"
    unfolding N' by (simp only: distrib_left ac_simps)
  have "?N div ?V = ?N' div ?V + ?B ^ Suc offset * (?W div ?V)" "?N mod ?V = ?N' mod ?V"
    unfolding N using Vpos by (simp_all only: div_mult_self1 mod_mult_self1 less_numeral_extra(3) neq0_conv)
  moreover have "qs @ drop (Suc offset) ?quo = (qs @ [?W div ?V]) @ drop (Suc (Suc offset)) quo"
    using Suc.prems(5) by (simp add: Cons_nth_drop_Suc [symmetric])
  ultimately show ?case
    using IH st eq2 qlt Suc.prems(2)
    by (intro exI [of _ rs] exI [of _ "qs @ [?W div ?V]"] exI [of _ rest])
      (simp add: limbs_val_append)
qed

section \<open>Normalising the divisor\<close>

lemma scale_bound:
  assumes "1 \<le> t" "t < decimalLimbBase"
  defines "s \<equiv> decimalLimbBase div (t + 1)"
  shows "1 \<le> s" "s * (t + 1) \<le> decimalLimbBase" "2 * s \<le> decimalLimbBase"
    "decimalLimbBase \<le> 2 * (s * t)"
proof -
  let ?B = decimalLimbBase
  show s: "1 \<le> s" using assms by (simp add: s_def less_eq_div_iff_mult_less_eq)
  show le: "s * (t + 1) \<le> ?B" unfolding s_def by (rule div_times_less_eq_dividend)
  have "2 * s \<le> (t + 1) * s" using assms(1) by (intro mult_le_mono1) simp
  also have "\<dots> = s * (t + 1)" by (rule mult.commute)
  also note le
  finally show "2 * s \<le> ?B" .
  have lt: "?B < (s + 1) * (t + 1)"
    unfolding s_def using dividend_less_div_times [of "t + 1" ?B] by simp
  consider "s = 1" | "t = 1" | "2 \<le> s" "2 \<le> t" using s assms(1) by linarith
  then show "?B \<le> 2 * (s * t)"
  proof cases
    case 1
    with lt show ?thesis by (simp add: decimalLimbBase_def)
  next
    case 2
    with lt show ?thesis by (simp add: decimalLimbBase_def)
  next
    case 3
    then obtain a b where "s = a + 2" "t = b + 2" by (metis add.commute le_Suc_ex)
    with lt show ?thesis by (simp add: algebra_simps)
  qed
qed

lemma scaled_divisor:
  assumes wf: "wf_limbs d" and len: "2 \<le> length d" and top: "d ! (length d - 1) \<noteq> 0"
  defines "s \<equiv> decimalLimbBase div (d ! (length d - 1) + 1)"
  shows "\<exists>v. scale_limbs s 0 d = (v, 0) \<and> wf_limbs v \<and> length v = length d
    \<and> limbs_val v = s * limbs_val d \<and> decimalLimbBase \<le> 2 * v ! (length v - 1)"
proof -
  let ?B = decimalLimbBase and ?t = "d ! (length d - 1)"
  obtain ds t where d: "d = ds @ [t]" using len by (cases d rule: rev_cases) auto
  have t: "?t = t" "1 \<le> t" "t < ?B" "wf_limbs ds" using wf top by (simp_all add: d)
  note sb = scale_bound [OF t(2,3)]
  have s: "s = ?B div (t + 1)" by (simp only: s_def t(1))
  obtain v c where sc: "scale_limbs s 0 d = (v, c)" by fastforce
  have "0 < s" "s \<le> ?B" using sb(1,2) by (simp_all add: s)
  then have v: "wf_limbs v" "length v = length d" "limbs_val v + ?B ^ length d * c = s * limbs_val d"
    using scale_limbs_val [of d 0 s] wf sc by simp_all
  have "limbs_val d < ?B ^ length ds * (t + 1)"
    using limbs_val_less [OF t(4)] by (simp add: d limbs_val_append)
  then have "s * limbs_val d < s * (?B ^ length ds * (t + 1))" using \<open>0 < s\<close> by simp
  also have "\<dots> = ?B ^ length ds * (s * (t + 1))" by (simp only: ac_simps)
  also have "\<dots> \<le> ?B ^ length ds * ?B" using sb(2) by (simp only: s mult_le_mono2)
  finally have "s * limbs_val d < ?B ^ length d" by (simp add: d mult.commute)
  with v(3) have c: "c = 0" by (cases c) simp_all
  obtain vs v1 where vs: "v = vs @ [v1]" using v(2) len by (cases v rule: rev_cases) auto
  have lens: "length vs = length ds" using v(2) by (simp add: vs d)
  have "?B ^ length ds * (s * t) \<le> s * limbs_val d"
    by (simp add: d limbs_val_append distrib_left mult.left_commute)
  also have "\<dots> = limbs_val vs + ?B ^ length ds * v1" using v(3) c by (simp add: vs lens limbs_val_append)
  also have "\<dots> < ?B ^ length ds * (v1 + 1)"
    using limbs_val_less [of vs] v(1) by (simp add: vs lens)
  finally have "s * t < v1 + 1" by (simp only: mult_less_cancel1)
  then have "?B \<le> 2 * v ! (length v - 1)" using sb(4) by (simp add: vs s)
  with sc c v show ?thesis by simp
qed

lemma divide_long_ok:
  assumes D: "wf_limbs D" and wf: "wf_limbs d" and len: "2 \<le> length d" "length d \<le> length D"
    and top: "d ! (length d - 1) \<noteq> 0"
  shows "divide_long D d =
    Some (FormatUint (limbs_val D div limbs_val d), FormatUint (limbs_val D mod limbs_val d))"
proof -
  let ?B = decimalLimbBase and ?t = "d ! (length d - 1)" and ?o = "length D - length d"
  define s where "s = ?B div (?t + 1)"
  have t: "1 \<le> ?t" "?t < ?B" using wf len top by (simp_all add: list_all_length)
  then have u: "u64 (?t + 1) = ?t + 1" by (simp add: u64_small decimalLimbBase_def)
  note sb = scale_bound [OF t, folded s_def]
  have s: "0 < s" "s \<le> ?B" using sb(1,3) by simp_all
  obtain v where v: "scale_limbs s 0 d = (v, 0)" "wf_limbs v" "length v = length d"
    "limbs_val v = s * limbs_val d" "?B \<le> 2 * v ! (length v - 1)"
    using scaled_divisor [OF wf len(1) top] by (auto simp: s_def)
  obtain us x where us: "scale_limbs s 0 D = (us, x)" by fastforce
  have x: "wf_limbs us" "length us = length D" "x < s" "limbs_val us + ?B ^ length D * x = s * limbs_val D"
    using scale_limbs_val [OF D _ s(2), of 0] s us by simp_all
  define low ws where "low = take ?o us" and "ws = drop ?o us"
  have uw: "us @ [x] = low @ ws @ [x]" "length low = ?o" "length ws = length v" "wf_limbs ws"
    using x len v(3) by (auto simp: low_def ws_def list_all_iff dest: in_set_dropD)
  have U: "limbs_val (low @ ws @ [x]) = s * limbs_val D"
    unfolding uw(1) [symmetric] using x by (simp add: limbs_val_append)
  have "limbs_val (ws @ [x]) < ?B ^ length v * (x + 1)"
    using limbs_val_less [OF uw(4)] uw(3) by (simp add: limbs_val_append)
  also have "\<dots> \<le> ?B ^ length v * s" using x(3) by (intro mult_le_mono2) simp
  finally have "2 * limbs_val (ws @ [x]) < ?B ^ length v * (2 * s)" by simp
  also have "\<dots> \<le> ?B ^ length v * ?B" using sb(3) by (rule mult_le_mono2)
  also have "\<dots> \<le> ?B * (2 * limbs_val v)"
  proof -
    obtain vs v1 where vs: "v = vs @ [v1]" using v(3) len by (cases v rule: rev_cases) auto
    have "?B ^ length v = ?B ^ length vs * ?B" by (simp add: vs)
    also have "\<dots> \<le> ?B ^ length vs * (2 * v1)" using v(5) by (intro mult_le_mono2) (simp add: vs)
    also have "\<dots> \<le> 2 * limbs_val v" by (simp add: vs limbs_val_append)
    finally show ?thesis by simp
  qed
  finally have WV: "limbs_val (ws @ [x]) < ?B * limbs_val v" by simp
  have wfU: "wf_limbs (low @ ws @ [x])"
    unfolding uw(1) [symmetric] using x(1,3) s(2) by simp
  have z0: "drop (Suc ?o) (replicate (Suc ?o) (0 :: nat)) = []"
    and ln: "?o < length (replicate (Suc ?o) (0 :: nat))" and lv: "2 \<le> length v"
    using v(3) len by simp_all
  obtain rs qs rest where loop:
    "divide_loop v (Suc ?o) (low @ ws @ [x]) (replicate (Suc ?o) 0) = (rs @ rest, qs)"
    "length rs = length v" "wf_limbs rs" "length qs = Suc ?o" "wf_limbs qs"
    "limbs_val qs = s * limbs_val D div limbs_val v" "limbs_val rs = s * limbs_val D mod limbs_val v"
    using divide_loop_ok [OF v(2) lv v(5) wfU uw(2,3) WV ln, of "[]", unfolded z0 U append_Nil2] by blast
  have lq: "limbs_val qs = limbs_val D div limbs_val d" "limbs_val rs = s * (limbs_val D mod limbs_val d)"
    using loop(6,7) s(1) by (simp_all add: v(4) mod_mult_mult1)
  obtain zs z where zs: "short_div s 0 (rev rs) = (zs, z)" by fastforce
  have z: "z < s" "wf_limbs zs" "length zs = length rs" "limbs_val (rev zs) * s + z = limbs_val rs"
    using short_div_val [OF s, of 0 "rev rs" zs z] loop(3) zs s(1) by simp_all
  have "limbs_val (rev zs) = limbs_val D mod limbs_val d"
  proof -
    have "limbs_val rs div s = limbs_val (rev zs)" using z(1,4) s(1)
      by (metis add.right_neutral div_less div_mult_self3 not_less_zero)
    then show ?thesis using lq(2) s(1) by simp
  qed
  moreover have "qs \<noteq> []" "rev zs \<noteq> []" using loop(2,4) z(3) v(3) len by auto
  ultimately have "formatDecimalLimbs qs = Some (FormatUint (limbs_val D div limbs_val d))"
    "formatDecimalLimbs (rev zs) = Some (FormatUint (limbs_val D mod limbs_val d))"
    using loop(5) z(2) lq(1) by (simp_all add: formatDecimalLimbs_ok)
  moreover have "take (length d) (rs @ rest) = rs" using loop(2) v(3) by simp
  moreover have "Suc (length D) - length d = Suc ?o" using len(2) by (rule Suc_diff_le)
  moreover have "v ! (length d - 1) \<noteq> 0" using v(3,5) by (auto simp: decimalLimbBase_def)
  ultimately show ?thesis
    unfolding divide_long_def Let_def u s_def [symmetric] v(1) us prod.case uw(1)
    by (simp only: loop(1) zs prod.case nat.distinct if_False simp_thms bind.bind_lunit)
qed

section \<open>Correctness of the public operations\<close>

lemma decimalLimbs_FormatUint:
  "limbs_val (decimalLimbs (FormatUint n)) = n" "wf_limbs (decimalLimbs (FormatUint n))"
  "length (decimalLimbs (FormatUint n)) = (length (FormatUint n) + 8) div 9"
  using decimalLimbs_digits [OF FormatUint_digits, of n] by simp_all

lemma decimalLimbs_top:
  assumes "n \<noteq> 0" and "length (decimalLimbs (FormatUint n)) = Suc k"
  shows "decimalLimbs (FormatUint n) ! k \<noteq> 0"
proof
  let ?l = "decimalLimbs (FormatUint n)"
  assume zero: "?l ! k = 0"
  have "?l = take k ?l @ [?l ! k]" using assms(2) by (metis lessI take_Suc_conv_app_nth take_all le_refl)
  then have "n = limbs_val (take k ?l)" using zero decimalLimbs_FormatUint(1) [of n]
    by (metis (no_types) add.right_neutral limbs_val.simps limbs_val_append mult_0_right)
  also have "\<dots> < decimalLimbBase ^ k"
    using limbs_val_less [of "take k ?l"] decimalLimbs_FormatUint(2) [of n] assms(2)
    by (simp add: list_all_iff) (metis in_set_takeD)
  also have "\<dots> = 10 ^ (9 * k)" by (simp add: power_mult pow9_base [symmetric])
  also have "\<dots> \<le> 10 ^ (length (FormatUint n) - 1)"
    using assms(2) decimalLimbs_FormatUint(3) [of n] by (intro power_increasing) auto
  also have "\<dots> \<le> n" using assms(1) by (rule FormatUint_length_bounds)
  finally show False by simp
qed

lemma divide_limbs_ok:
  assumes "0 < n" "n < m"
  shows "divide_limbs (decimalLimbs (FormatUint m)) (decimalLimbs (FormatUint n)) =
    Some (FormatUint (m div n), FormatUint (m mod n))"
proof -
  let ?D = "decimalLimbs (FormatUint m)" and ?d = "decimalLimbs (FormatUint n)"
  have ne: "?D \<noteq> []" "?d \<noteq> []" by (simp_all add: decimalLimbs_step)
  note D = decimalLimbs_FormatUint [of m] and d = decimalLimbs_FormatUint [of n]
  show ?thesis
  proof (cases "length ?d = 1")
    case True
    then obtain limb where limb: "?d = [limb]" by (cases ?d) auto
    then have n: "limb = n" "n < decimalLimbBase" using d(1,2) by simp_all
    obtain qs r where qr: "short_div n 0 (rev ?D) = (qs, r)" by fastforce
    have r: "r < n" "wf_limbs qs" "length qs = length ?D" "limbs_val (rev qs) * n + r = m"
      using short_div_val [of n 0 "rev ?D" qs r] qr D(1,2) n(2) assms(1) by simp_all
    have "m div n = limbs_val (rev qs)" "m mod n = r"
      unfolding r(4) [symmetric] using r(1) by simp_all
    moreover have "rev qs \<noteq> []" using r(3) ne by auto
    ultimately show ?thesis
      using limb n qr r(2) assms(1) by (simp add: divide_limbs_def formatDecimalLimbs_ok)
  next
    case False
    then have len: "2 \<le> length ?d" using ne by (cases ?d) (auto simp: Suc_le_eq)
    then obtain a b l where abl: "?d = a # b # l" by (metis Suc_le_length_iff numeral_2_eq_2)
    have "length (FormatUint n) \<le> length (FormatUint m)"
      using FormatUint_length_mono [of m n] assms(2) by force
    then have "length ?d \<le> length ?D" unfolding D(3) d(3) by (intro div_le_mono) simp
    moreover have "?d ! (length ?d - 1) \<noteq> 0"
      using assms(1) len by (intro decimalLimbs_top) simp_all
    ultimately have "divide_long ?D ?d = Some (FormatUint (m div n), FormatUint (m mod n))"
      using divide_long_ok [OF D(2) d(2) len] D(1) d(1) by simp
    then show ?thesis using abl by (simp add: divide_limbs_def)
  qed
qed

lemma divideCanonical_ok:
  assumes "n \<noteq> 0"
  shows "divideCanonicalDecimal (FormatUint m) (FormatUint n) =
    Some (FormatUint (m div n), FormatUint (m mod n))"
proof (cases m n rule: linorder_cases)
  case less
  then show ?thesis
    by (cases "n = 1") (auto simp: divideCanonicalDecimal_def compareCanonical_FormatUint Let_def)
next
  case equal
  with assms show ?thesis
    by (simp add: divideCanonicalDecimal_def compareCanonical_FormatUint Let_def)
next
  case greater
  with assms show ?thesis
    by (simp add: divideCanonicalDecimal_def compareCanonical_FormatUint divide_limbs_ok Let_def)
qed

lemma DivideUnsigned_ok:
  "denotes_nat l m \<Longrightarrow> denotes_nat r n \<Longrightarrow>
    DivideUnsignedDecimal l r = Some (if n = 0 then ([], [], False)
      else (FormatUint (m div n), FormatUint (m mod n), True))"
  by (simp add: DivideUnsignedDecimal_def normalizeUnsigned_ok divideCanonical_ok)

text \<open>Go's integer division truncates towards zero and its remainder has the sign of the dividend.\<close>

definition quot :: "int \<Rightarrow> int \<Rightarrow> int" where
  "quot i j = sgn i * sgn j * (\<bar>i\<bar> div \<bar>j\<bar>)"

definition rem :: "int \<Rightarrow> int \<Rightarrow> int" where
  "rem i j = sgn i * (\<bar>i\<bar> mod \<bar>j\<bar>)"

lemma quot_rem: "quot i j * j + rem i j = i"
proof -
  have "quot i j * j + rem i j = sgn i * (\<bar>i\<bar> div \<bar>j\<bar> * (sgn j * j) + \<bar>i\<bar> mod \<bar>j\<bar>)"
    by (simp add: quot_def rem_def algebra_simps)
  also have "sgn j * j = \<bar>j\<bar>" by (simp add: abs_sgn mult.commute)
  finally show ?thesis by (simp add: sgn_mult_abs)
qed

lemma DivideSigned_ok:
  assumes "denotes l i" "denotes r j"
  shows "DivideSignedDecimal l r = Some (if j = 0 then ([], [], False)
      else (FormatInt (quot i j), FormatInt (rem i j), True))"
proof (cases "j = 0")
  case True
  with assms show ?thesis by (simp add: DivideSignedDecimal_def NormalizeSigned_ok)
next
  case False
  define q where "q = nat \<bar>i\<bar> div nat \<bar>j\<bar>"
  define r' where "r' = nat \<bar>i\<bar> mod nat \<bar>j\<bar>"
  have zero: "i = 0 \<Longrightarrow> q = 0" "i = 0 \<Longrightarrow> r' = 0" by (simp_all add: q_def r'_def)
  have "\<bar>i\<bar> div \<bar>j\<bar> = int q" "\<bar>i\<bar> mod \<bar>j\<bar> = int r'"
    by (simp_all add: q_def r'_def zdiv_int zmod_int)
  then have parts: "quot i j = (if (i < 0) = (j < 0) then int q else - int q)"
      "rem i j = (if i < 0 then - int r' else int r')"
    using False zero by (simp_all only: quot_def rem_def) (simp_all add: sgn_if)
  have vals: "FormatInt (quot i j) =
      (if (i < 0) \<noteq> (j < 0) \<and> q \<noteq> 0 then CHR ''-'' # FormatUint q else FormatUint q)"
      "FormatInt (rem i j) = (if i < 0 \<and> r' \<noteq> 0 then CHR ''-'' # FormatUint r' else FormatUint r')"
    unfolding parts by (simp_all add: FormatInt_def)
  have divide: "divideCanonicalDecimal (FormatUint (nat \<bar>i\<bar>)) (FormatUint (nat \<bar>j\<bar>)) =
      Some (FormatUint q, FormatUint r')"
    using False by (simp add: divideCanonical_ok q_def r'_def)
  show ?thesis
    using assms False unfolding vals
    by (simp add: DivideSignedDecimal_def NormalizeSigned_ok FormatInt_magnitude divide Let_def
        del: TrimPrefix_Cons)
qed

lemma gcdCanonical_ok: "gcdCanonicalDecimal (FormatUint m) (FormatUint n) = Some (FormatUint (gcd m n))"
proof (induction n arbitrary: m rule: less_induct)
  case (less n)
  show ?case
  proof (cases "n = 0")
    case True
    then show ?thesis by (simp add: gcdCanonicalDecimal.simps)
  next
    case False
    then have "gcdCanonicalDecimal (FormatUint n) (FormatUint (m mod n)) = Some (FormatUint (gcd n (m mod n)))"
      using less.IH by simp
    then show ?thesis
      using False by (subst gcdCanonicalDecimal.simps) (simp add: divideCanonical_ok gcd_red_nat [of m n])
  qed
qed

lemma GCDUnsigned_ok:
  "denotes_nat l m \<Longrightarrow> denotes_nat r n \<Longrightarrow> GCDUnsignedDecimal l r = Some (FormatUint (gcd m n))"
  by (simp add: GCDUnsignedDecimal_def normalizeUnsigned_ok gcdCanonical_ok)

end
