(* ===== verification/Decimal_Bits.thy ===== *)
theory Decimal_Bits
  imports Limb_Division
begin

text \<open>
  The bitwise operators of constants, the last part of \<^verbatim>\<open>compiler/constant/decimal.go\<close>.  A
  number is unfolded into its bits by repeated halving, negated in two's complement at a
  width two bits above the longer operand, combined bit by bit and folded back by repeated
  doubling.  The result is the bitwise operator on the integers, where a negative number has
  infinitely many leading ones.
\<close>

unbundle bit_operations_syntax

section \<open>The operations\<close>

text \<open>
  The loop of \<^verbatim>\<open>unsignedDecimalBits\<close>.  On a text that is no number the normaliser leaves the
  empty string and the loop reads its last byte: the panic is \<open>None\<close>.
\<close>

partial_function (option) decimal_bits_loop :: "string \<Rightarrow> nat list option" where
  "decimal_bits_loop text =
     (if text = ''0'' then Some []
      else if text = [] then None
      else do {
        bits \<leftarrow> decimal_bits_loop (HalveUnsignedDecimal text);
        Some (digit_val (last text) mod 2 # bits)
      })"

definition unsignedDecimalBits :: "string \<Rightarrow> nat list option" where
  "unsignedDecimalBits text = decimal_bits_loop (fst (normalizeUnsignedDecimal text))"

definition unsignedBitsDecimal :: "nat list \<Rightarrow> string" where
  "unsignedBitsDecimal bits =
     foldr (\<lambda>b out. let doubled = AddUnsignedDecimal out out
                    in if b \<noteq> 0 then AddUnsignedDecimal doubled ''1'' else doubled) bits ''0''"

fun increment_bits :: "nat \<Rightarrow> nat list \<Rightarrow> nat list" where
  "increment_bits carry [] = []"
| "increment_bits carry (b # bits) =
     (if carry = 0 then b # bits
      else let sum = (b + carry) mod 256
           in (sum AND 1) # increment_bits (drop_bit 1 sum) bits)"

definition twosComplementBits :: "nat list \<Rightarrow> nat list" where
  "twosComplementBits bits = increment_bits 1 (map (\<lambda>b. b XOR 1) bits)"

text \<open>\<^verbatim>\<open>make\<close> then \<^verbatim>\<open>copy\<close>: the first \<open>width\<close> bits, zero-filled.\<close>

definition copy_bits :: "nat \<Rightarrow> nat list \<Rightarrow> nat list" where
  "copy_bits width bits = take width bits @ replicate (width - length bits) 0"

definition signedDecimalBits :: "string \<Rightarrow> nat \<Rightarrow> nat list option" where
  "signedDecimalBits text width = do {
     magnitude \<leftarrow> unsignedDecimalBits (TrimPrefix text ''-'');
     let out = copy_bits width magnitude;
     Some (if HasPrefix text ''-'' then twosComplementBits out else out)
   }"

text \<open>The switch on the operator; \<open>None\<close> is its default case.\<close>

definition bit_operator :: "string \<Rightarrow> (nat \<Rightarrow> nat \<Rightarrow> nat) option" where
  "bit_operator operator =
     (if operator = ''&'' then Some (\<lambda>a b. a AND b)
      else if operator = ''|'' then Some (\<lambda>a b. a OR b)
      else if operator = ''^'' then Some (\<lambda>a b. a XOR b)
      else if operator = ''&^'' then Some (\<lambda>a b. a AND (b XOR 1))
      else None)"

text \<open>
  The width is at least two, so the default case of the switch is reached in the first round
  of the loop whenever the operator is unknown.
\<close>

definition BitwiseSignedDecimal :: "string \<Rightarrow> string \<Rightarrow> string \<Rightarrow> (string \<times> bool) option" where
  "BitwiseSignedDecimal operator left0 right0 =
     (let (left, leftOK) = NormalizeSignedDecimal left0;
          (right, rightOK) = NormalizeSignedDecimal right0
      in if \<not> leftOK \<or> \<not> rightOK then Some ([], False)
         else do {
           leftMagnitude \<leftarrow> unsignedDecimalBits (TrimPrefix left ''-'');
           rightMagnitude \<leftarrow> unsignedDecimalBits (TrimPrefix right ''-'');
           let width = max (length leftMagnitude) (length rightMagnitude) + 2;
           leftBits \<leftarrow> signedDecimalBits left width;
           rightBits \<leftarrow> signedDecimalBits right width;
           case bit_operator operator of
             None \<Rightarrow> Some ([], False)
           | Some f \<Rightarrow>
               let out = map2 f leftBits rightBits
               in if out ! (width - 1) = 0 then Some (unsignedBitsDecimal out, True)
                  else
                    let magnitude = unsignedBitsDecimal (twosComplementBits out)
                    in if magnitude = ''0'' then Some (''0'', True)
                       else Some (CHR ''-'' # magnitude, True)
         })"

section \<open>Bit strings\<close>

text \<open>The \<open>w\<close> low bits of an integer, least significant first.\<close>

definition bits_of :: "nat \<Rightarrow> int \<Rightarrow> nat list" where
  "bits_of w i = map (\<lambda>k. of_bool (bit i k)) [0..<w]"

lemma bits_of_length [simp]: "length (bits_of w i) = w"
  by (simp add: bits_of_def)

lemma bits_of_nth [simp]: "k < w \<Longrightarrow> bits_of w i ! k = of_bool (bit i k)"
  by (simp add: bits_of_def)

lemma bits_of_0 [simp]: "bits_of 0 i = []"
  by (simp add: bits_of_def)

lemma bits_of_Suc: "bits_of (Suc w) i = of_bool (odd i) # bits_of w (i div 2)"
  by (rule nth_equalityI) (auto simp: nth_Cons' bit_Suc [symmetric] bit_0 Suc_pred)

lemma increment_bits_of: "increment_bits 1 (bits_of w i) = bits_of w (i + 1)"
proof (induction w arbitrary: i)
  case 0
  show ?case by simp
next
  case (Suc w)
  have "increment_bits 0 bits = bits" for bits by (cases bits) simp_all
  moreover have "(i + 1) div 2 = (if odd i then i div 2 + 1 else i div 2)"
    by (auto elim: oddE)
  ultimately show ?case
    using Suc [of "i div 2"] by (cases "odd i") (simp_all add: bits_of_Suc drop_bit_Suc)
qed

lemma twosComplement_bits_of: "twosComplementBits (bits_of w i) = bits_of w (- i)"
proof -
  have "map (\<lambda>b. b XOR 1) (bits_of w i) = bits_of w (NOT i)"
    by (rule nth_equalityI) (auto simp: bit_not_iff)
  then show ?thesis
    using increment_bits_of [of w "NOT i"] by (simp add: twosComplementBits_def not_int_def)
qed

lemma AddUnsigned_one: "AddUnsignedDecimal (FormatUint n) ''1'' = FormatUint (Suc n)"
  using AddUnsigned_ok [of "FormatUint n" n "FormatUint 1" 1] denotes_nat_FormatUint [of 1 1] by simp

lemma unsignedBits_of: "unsignedBitsDecimal (bits_of w i) = FormatUint (nat (take_bit w i))"
proof (induction w arbitrary: i)
  case 0
  show ?case by (simp add: unsignedBitsDecimal_def)
next
  case (Suc w)
  have "take_bit (Suc w) i = 2 * take_bit w (i div 2) + of_bool (odd i)"
    by (simp add: take_bit_Suc mod_2_eq_odd)
  then have "nat (take_bit (Suc w) i) = 2 * nat (take_bit w (i div 2)) + of_bool (odd i)"
    by (simp add: nat_add_distrib nat_mult_distrib)
  then show ?case
    using Suc [of "i div 2"]
    by (simp add: unsignedBitsDecimal_def bits_of_Suc Let_def mult_2
        AddUnsigned_ok AddUnsigned_one)
qed

text \<open>The number of bits of a natural number, and its bits.\<close>

lemma decimal_bits_loop_ok:
  "\<exists>w. n < 2 ^ w \<and> decimal_bits_loop (FormatUint n) = Some (bits_of w (int n))"
proof (induction n rule: less_induct)
  case (less n)
  show ?case
  proof (cases "n = 0")
    case True
    then show ?thesis by (intro exI [of _ 0]) (simp add: decimal_bits_loop.simps)
  next
    case False
    then obtain w where w: "n div 2 < 2 ^ w"
        "decimal_bits_loop (FormatUint (n div 2)) = Some (bits_of w (int (n div 2)))"
      using less.IH [of "n div 2"] by auto
    have "digit_val (last (FormatUint n)) mod 2 = n mod 2"
      by (subst FormatUint.simps) (simp add: mod_mod_cancel)
    then have "decimal_bits_loop (FormatUint n) = Some (bits_of (Suc w) (int n))"
      using w(2) False
      by (subst decimal_bits_loop.simps)
        (simp add: HalveUnsigned_ok bits_of_Suc zdiv_int mod_2_eq_odd)
    moreover have "n < 2 ^ Suc w" using w(1) by auto
    ultimately show ?thesis by blast
  qed
qed

lemma unsignedDecimalBits_ok:
  assumes "denotes_nat s n"
  obtains w where "n < 2 ^ w" "unsignedDecimalBits s = Some (bits_of w (int n))"
  using decimal_bits_loop_ok [of n] assms
  by (auto simp: unsignedDecimalBits_def normalizeUnsigned_ok)

lemma copy_bits_of:
  assumes "int n < 2 ^ w" "w \<le> v"
  shows "copy_bits v (bits_of w (int n)) = bits_of v (int n)"
proof (rule nth_equalityI)
  show "length (copy_bits v (bits_of w (int n))) = length (bits_of v (int n))"
    using assms(2) by (simp add: copy_bits_def)
  fix k assume "k < length (copy_bits v (bits_of w (int n)))"
  then have k: "k < v" using assms(2) by (simp add: copy_bits_def)
  have "\<not> bit (int n) k" if "w \<le> k"
    using assms(1) that by (metis bit_take_bit_iff leD of_nat_0_le_iff take_bit_int_eq_self_iff)
  then show "copy_bits v (bits_of w (int n)) ! k = bits_of v (int n) ! k"
    using k assms(2) by (simp add: copy_bits_def nth_append)
qed

lemma signedDecimalBits_ok:
  assumes "unsignedDecimalBits (FormatUint (nat \<bar>i\<bar>)) = Some (bits_of w \<bar>i\<bar>)"
    and "\<bar>i\<bar> < 2 ^ w" "w \<le> v"
  shows "signedDecimalBits (FormatInt i) v = Some (bits_of v i)"
  using assms copy_bits_of [of "nat \<bar>i\<bar>" w v]
  by (cases "i < 0")
    (simp_all add: signedDecimalBits_def FormatInt_magnitude FormatInt_def [of i] twosComplement_bits_of Let_def)

section \<open>Correctness\<close>

text \<open>What each operator does to integers.\<close>

definition int_operator :: "string \<Rightarrow> (int \<Rightarrow> int \<Rightarrow> int) option" where
  "int_operator operator =
     (if operator = ''&'' then Some (\<lambda>a b. a AND b)
      else if operator = ''|'' then Some (\<lambda>a b. a OR b)
      else if operator = ''^'' then Some (\<lambda>a b. a XOR b)
      else if operator = ''&^'' then Some (\<lambda>a b. a AND NOT b)
      else None)"

lemma bit_operator_None: "bit_operator operator = None \<longleftrightarrow> int_operator operator = None"
  by (simp add: bit_operator_def int_operator_def)

lemma bit_operator_bits:
  assumes "int_operator operator = Some g"
  obtains f where "bit_operator operator = Some f"
    "map2 f (bits_of w i) (bits_of w j) = bits_of w (g i j)"
proof -
  obtain f where f: "bit_operator operator = Some f" using assms bit_operator_None by fastforce
  have "f (of_bool (bit i k)) (of_bool (bit j k)) = of_bool (bit (g i j) k)" for k
    using assms f
    by (auto simp: bit_operator_def int_operator_def bit_and_iff bit_or_iff bit_xor_iff bit_not_iff
        split: if_splits)
  then have "map2 f (bits_of w i) (bits_of w j) = bits_of w (g i j)"
    by (intro nth_equalityI) simp_all
  with f show ?thesis by (rule that)
qed

lemma int_operator_range:
  assumes "int_operator operator = Some g" "\<bar>i\<bar> < 2 ^ w" "\<bar>j\<bar> < 2 ^ w"
  shows "- (2 ^ w) \<le> g i j \<and> g i j < 2 ^ w"
proof -
  have "signed_take_bit w i = i" "signed_take_bit w j = j"
    using assms(2,3) by (auto simp: signed_take_bit_int_eq_self_iff)
  then have ij: "bit i (min w k) = bit i k" "bit j (min w k) = bit j k" for k
    using bit_signed_take_bit_iff [of w i k] bit_signed_take_bit_iff [of w j k] by simp_all
  have "signed_take_bit w (g i j) = g i j"
  proof (rule bit_eqI)
    fix k show "bit (signed_take_bit w (g i j)) k = bit (g i j) k"
      using assms(1) ij [of k]
      by (auto simp: int_operator_def bit_signed_take_bit_iff bit_and_iff bit_or_iff bit_xor_iff
          bit_not_iff split: if_splits)
  qed
  then show ?thesis by (simp add: signed_take_bit_int_eq_self_iff)
qed

lemma sign_bit:
  assumes "- (2 ^ w) \<le> x" "x < (2 ^ w :: int)"
  shows "bit x w \<longleftrightarrow> x < 0"
proof -
  have "signed_take_bit w x = x" using assms by (simp add: signed_take_bit_int_eq_self_iff)
  then show ?thesis by (metis signed_take_bit_negative_iff)
qed

lemma bits_of_result:
  assumes "- (2 ^ w) \<le> x" "x < (2 ^ w :: int)" "bits = bits_of (Suc (Suc w)) x"
  shows "(if bits ! Suc w = 0 then (unsignedBitsDecimal bits, True)
      else if unsignedBitsDecimal (twosComplementBits bits) = ''0'' then (''0'', True)
      else (CHR ''-'' # unsignedBitsDecimal (twosComplementBits bits), True)) = (FormatInt x, True)"
proof -
  have small: "2 ^ w < (2 ^ Suc (Suc w) :: int)" by simp
  have "bit x (Suc w) \<longleftrightarrow> x < 0" using assms(1,2) by (intro sign_bit) simp_all
  then have "bits ! Suc w = 0 \<longleftrightarrow> 0 \<le> x" using assms(3) by auto
  moreover have "take_bit (Suc (Suc w)) x = x" if "0 \<le> x"
    using that assms(2) small by (intro take_bit_int_eq_self) linarith+
  moreover have "take_bit (Suc (Suc w)) (- x) = - x" if "x < 0"
    using that assms(1) small by (intro take_bit_int_eq_self) linarith+
  ultimately show ?thesis
    using assms(3) by (simp add: unsignedBits_of twosComplement_bits_of FormatInt_def)
qed

lemma BitwiseSigned_ok:
  assumes "denotes l i" "denotes r j" "int_operator operator = Some g"
  shows "BitwiseSignedDecimal operator l r = Some (FormatInt (g i j), True)"
proof -
  obtain v where v: "nat \<bar>i\<bar> < 2 ^ v" "unsignedDecimalBits (FormatUint (nat \<bar>i\<bar>)) = Some (bits_of v (int (nat \<bar>i\<bar>)))"
    by (rule unsignedDecimalBits_ok [of "FormatUint (nat \<bar>i\<bar>)" "nat \<bar>i\<bar>"]) simp_all
  obtain w where w: "nat \<bar>j\<bar> < 2 ^ w" "unsignedDecimalBits (FormatUint (nat \<bar>j\<bar>)) = Some (bits_of w (int (nat \<bar>j\<bar>)))"
    by (rule unsignedDecimalBits_ok [of "FormatUint (nat \<bar>j\<bar>)" "nat \<bar>j\<bar>"]) simp_all
  let ?m = "max v w"
  have bound: "\<bar>i\<bar> < 2 ^ v" "\<bar>j\<bar> < 2 ^ w"
    using v(1) w(1) by (simp_all add: nat_less_iff)
  then have bounds: "\<bar>i\<bar> < 2 ^ ?m" "\<bar>j\<bar> < 2 ^ ?m"
    by (meson less_le_trans max.cobounded1 max.cobounded2 one_le_numeral power_increasing)+
  have bits: "signedDecimalBits (FormatInt i) (?m + 2) = Some (bits_of (?m + 2) i)"
    "signedDecimalBits (FormatInt j) (?m + 2) = Some (bits_of (?m + 2) j)"
    using v(2) w(2) bound
    by (auto intro: signedDecimalBits_ok [where w = v] signedDecimalBits_ok [where w = w])
  obtain f where f: "bit_operator operator = Some f"
      "map2 f (bits_of (?m + 2) i) (bits_of (?m + 2) j) = bits_of (?m + 2) (g i j)"
    using assms(3) by (rule bit_operator_bits)
  have range: "- (2 ^ ?m) \<le> g i j" "g i j < 2 ^ ?m"
    using int_operator_range [OF assms(3) bounds] by simp_all
  show ?thesis
    using assms(1,2) v(2) w(2) bits f bits_of_result [OF range, of "bits_of (?m + 2) (g i j)"]
    by (simp add: BitwiseSignedDecimal_def NormalizeSigned_ok FormatInt_magnitude Let_def
        del: TrimPrefix_Cons split: if_splits)
qed

lemma BitwiseSigned_fail:
  assumes "(\<nexists>i. denotes l i) \<or> (\<nexists>j. denotes r j)"
  shows "BitwiseSignedDecimal operator l r = Some ([], False)"
  using assms NormalizeSigned_fail by (auto simp: BitwiseSignedDecimal_def split: prod.splits)

end
