(* ===== verification/Decimal_Contract.thy ===== *)
theory Decimal_Contract
  imports Decimal_Bits
begin

text \<open>
  What the rest of the constant package may rely on in \<^verbatim>\<open>compiler/constant/decimal.go\<close>.

  Every binary operation on signed decimals keeps one contract: it is a total function, it
  accepts exactly the texts that stand for integers on which the operation is defined, its
  result is the canonical text of the exact result, and on a failure it returns the empty
  text.  The contract is the locale \<open>exact_binop\<close>; addition, subtraction, multiplication,
  truncated quotient and remainder and the four bitwise operators interpret it, and the
  properties of the package follow from its lemmas.
\<close>

section \<open>The contract\<close>

locale exact_binop =
  fixes run :: "string \<Rightarrow> string \<Rightarrow> (string \<times> bool) option"
    and sem :: "int \<Rightarrow> int \<Rightarrow> int option"
  assumes accepts: "denotes l i \<Longrightarrow> denotes r j \<Longrightarrow> sem i j = Some k \<Longrightarrow> run l r = Some (FormatInt k, True)"
    and undefined_at: "denotes l i \<Longrightarrow> denotes r j \<Longrightarrow> sem i j = None \<Longrightarrow> run l r = Some ([], False)"
    and rejects: "(\<nexists>i. denotes l i) \<or> (\<nexists>j. denotes r j) \<Longrightarrow> run l r = Some ([], False)"
begin

lemma outcome:
  "(\<exists>i j k. denotes l i \<and> denotes r j \<and> sem i j = Some k \<and> run l r = Some (FormatInt k, True))
    \<or> (\<nexists>i j k. denotes l i \<and> denotes r j \<and> sem i j = Some k) \<and> run l r = Some ([], False)"
proof (cases "(\<exists>i. denotes l i) \<and> (\<exists>j. denotes r j)")
  case True
  then obtain i j where ij: "denotes l i" "denotes r j" by blast
  show ?thesis
  proof (cases "sem i j")
    case None
    then show ?thesis using ij undefined_at by (metis denotes_unique option.distinct(1))
  next
    case (Some k)
    then show ?thesis using ij accepts by blast
  qed
next
  case False
  then show ?thesis using rejects by blast
qed

lemma total: "run l r \<noteq> None"
  using outcome [of l r] by auto

lemma success_iff:
  "run l r = Some (out, True) \<longleftrightarrow>
    (\<exists>i j k. denotes l i \<and> denotes r j \<and> sem i j = Some k \<and> out = FormatInt k)"
proof
  assume "run l r = Some (out, True)"
  then show "\<exists>i j k. denotes l i \<and> denotes r j \<and> sem i j = Some k \<and> out = FormatInt k"
    using outcome [of l r] by auto
qed (auto simp: accepts)

lemma failure_iff:
  "run l r = Some (out, False) \<longleftrightarrow>
    out = [] \<and> (\<nexists>i j k. denotes l i \<and> denotes r j \<and> sem i j = Some k)"
  using outcome [of l r] by auto

lemma texts: "\<exists>t ok. run l r = Some (t, ok) \<and> (ok \<longrightarrow> (\<exists>k. t = FormatInt k))"
  using outcome [of l r] by auto

text \<open>The result depends on the numbers and not on how they are written.\<close>

lemma congruent:
  assumes "\<And>i. denotes l i = denotes l' i" "\<And>j. denotes r j = denotes r' j"
  shows "run l r = run l' r'"
  using outcome [of l r] outcome [of l' r'] assms
  by (metis denotes_unique option.inject)

end

locale exact_commutative = exact_binop +
  assumes sem_commute: "sem i j = sem j i"
begin

lemma commute: "run l r = run r l"
  using outcome [of l r] outcome [of r l] sem_commute by (metis denotes_unique option.inject)

end

section \<open>The operations keep it\<close>

lemma SubtractSigned_fail:
  "(\<nexists>i. denotes l i) \<or> (\<nexists>j. denotes r j) \<Longrightarrow> SubtractSignedDecimal l r = ([], False)"
  by (cases "\<exists>j. denotes r j")
    (auto simp: SubtractSignedDecimal_def NegateSigned_ok NegateSigned_fail AddSigned_fail)

lemma DivideSigned_fail:
  "(\<nexists>i. denotes l i) \<or> (\<nexists>j. denotes r j) \<Longrightarrow> DivideSignedDecimal l r = Some ([], [], False)"
  by (auto simp: DivideSignedDecimal_def NormalizeSigned_fail split: prod.splits)

text \<open>The two halves of \<^verbatim>\<open>DivideSignedDecimal\<close>, as the operators \<^verbatim>\<open>/\<close> and \<^verbatim>\<open>%\<close> use it.\<close>

definition quotient_half :: "string \<times> string \<times> bool \<Rightarrow> string \<times> bool" where
  "quotient_half = (\<lambda>(q, r, ok). (q, ok))"

definition remainder_half :: "string \<times> string \<times> bool \<Rightarrow> string \<times> bool" where
  "remainder_half = (\<lambda>(q, r, ok). (r, ok))"

definition guarded :: "(int \<Rightarrow> int \<Rightarrow> int) \<Rightarrow> int \<Rightarrow> int \<Rightarrow> int option" where
  "guarded f i j = (if j = 0 then None else Some (f i j))"

interpretation dec_add: exact_commutative "\<lambda>l r. Some (AddSignedDecimal l r)" "\<lambda>i j. Some (i + j)"
  by unfold_locales (auto simp: AddSigned_ok AddSigned_fail)

interpretation dec_sub: exact_binop "\<lambda>l r. Some (SubtractSignedDecimal l r)" "\<lambda>i j. Some (i - j)"
  by unfold_locales (auto simp: SubtractSigned_ok SubtractSigned_fail)

interpretation dec_mul: exact_commutative MultiplySignedDecimal "\<lambda>i j. Some (i * j)"
  by unfold_locales (auto simp: MultiplySigned_ok MultiplySigned_fail)

interpretation dec_quot: exact_binop
  "\<lambda>l r. map_option quotient_half (DivideSignedDecimal l r)" "guarded quot"
  by unfold_locales
    (auto simp: DivideSigned_ok DivideSigned_fail quotient_half_def guarded_def split: if_splits)

interpretation dec_rem: exact_binop
  "\<lambda>l r. map_option remainder_half (DivideSignedDecimal l r)" "guarded rem"
  by unfold_locales
    (auto simp: DivideSigned_ok DivideSigned_fail remainder_half_def guarded_def split: if_splits)

lemma BitwiseSigned_unknown:
  assumes "int_operator operator = None"
  shows "BitwiseSignedDecimal operator l r = Some ([], False)"
proof (cases "(\<exists>i. denotes l i) \<and> (\<exists>j. denotes r j)")
  case True
  then obtain i j where ij: "denotes l i" "denotes r j" by blast
  obtain v where v: "int (nat \<bar>i\<bar>) < 2 ^ v"
      "unsignedDecimalBits (FormatUint (nat \<bar>i\<bar>)) = Some (bits_of v (int (nat \<bar>i\<bar>)))"
    by (rule unsignedDecimalBits_ok [of "FormatUint (nat \<bar>i\<bar>)" "nat \<bar>i\<bar>"]) simp_all
  obtain w where w: "int (nat \<bar>j\<bar>) < 2 ^ w"
      "unsignedDecimalBits (FormatUint (nat \<bar>j\<bar>)) = Some (bits_of w (int (nat \<bar>j\<bar>)))"
    by (rule unsignedDecimalBits_ok [of "FormatUint (nat \<bar>j\<bar>)" "nat \<bar>j\<bar>"]) simp_all
  have "signedDecimalBits (FormatInt i) (max v w + 2) = Some (bits_of (max v w + 2) i)"
    "signedDecimalBits (FormatInt j) (max v w + 2) = Some (bits_of (max v w + 2) j)"
    using v w
    by (auto intro: signedDecimalBits_ok [where w = v] signedDecimalBits_ok [where w = w])
  then show ?thesis
    using ij v w assms bit_operator_None [of operator]
    by (simp add: BitwiseSignedDecimal_def NormalizeSigned_ok FormatInt_magnitude Let_def
        del: TrimPrefix_Cons)
next
  case False
  then show ?thesis by (auto intro: BitwiseSigned_fail)
qed

definition bitwise_sem :: "string \<Rightarrow> int \<Rightarrow> int \<Rightarrow> int option" where
  "bitwise_sem operator i j = map_option (\<lambda>f. f i j) (int_operator operator)"

interpretation dec_bits: exact_binop "BitwiseSignedDecimal operator" "bitwise_sem operator"
  for operator
  by unfold_locales
    (auto simp: bitwise_sem_def BitwiseSigned_ok BitwiseSigned_fail BitwiseSigned_unknown)

section \<open>Properties of the decimal arithmetic\<close>

text \<open>
  C21. Normalisation accepts exactly the texts that stand for an integer, returns its canonical
  text, and returns the empty text otherwise.
\<close>

theorem normalize_exact:
  "(case NormalizeSignedDecimal s of (out, ok) \<Rightarrow>
      if ok then \<exists>i. denotes s i \<and> out = FormatInt i else out = [] \<and> (\<nexists>i. denotes s i))"
  by (cases "\<exists>i. denotes s i") (auto simp: NormalizeSigned_ok NormalizeSigned_fail)

text \<open>
  C22. Addition and subtraction of decimal texts, digit by digit with carry and borrow, are exact
  on all integers, and fail with the empty text exactly when an operand is no integer.
\<close>

theorem add_subtract_exact:
  "(AddSignedDecimal l r = (out, True) \<longleftrightarrow> (\<exists>i j. denotes l i \<and> denotes r j \<and> out = FormatInt (i + j)))
   \<and> (AddSignedDecimal l r = (out, False) \<longleftrightarrow> out = [] \<and> (\<nexists>i j. denotes l i \<and> denotes r j))
   \<and> (SubtractSignedDecimal l r = (out, True) \<longleftrightarrow> (\<exists>i j. denotes l i \<and> denotes r j \<and> out = FormatInt (i - j)))
   \<and> (SubtractSignedDecimal l r = (out, False) \<longleftrightarrow> out = [] \<and> (\<nexists>i j. denotes l i \<and> denotes r j))"
  using dec_add.success_iff [of l r out] dec_add.failure_iff [of l r out]
    dec_sub.success_iff [of l r out] dec_sub.failure_iff [of l r out] by simp

text \<open>
  C16. Multiplication with base-1000000000 limbs returns the exact product for operands of any
  length: no product, sum or carry of the 64-bit limb loops wraps, and no index is out of range.
\<close>

theorem multiply_exact:
  "MultiplySignedDecimal l r \<noteq> None
   \<and> (MultiplySignedDecimal l r = Some (out, True) \<longleftrightarrow>
        (\<exists>i j. denotes l i \<and> denotes r j \<and> out = FormatInt (i * j)))
   \<and> (MultiplySignedDecimal l r = Some (out, False) \<longleftrightarrow> out = [] \<and> (\<nexists>i j. denotes l i \<and> denotes r j))"
  using dec_mul.total [of l r] dec_mul.success_iff [of l r out] dec_mul.failure_iff [of l r out] by simp

text \<open>
  C5. Long division returns the quotient truncated towards zero and the remainder with the sign
  of the dividend, both canonical, for operands of any length; it fails exactly when an operand
  is no integer or the divisor is zero, and the quotient times the divisor plus the remainder is
  the dividend.
\<close>

theorem divide_exact:
  "\<exists>q r ok. DivideSignedDecimal a b = Some (q, r, ok) \<and>
    (if ok then \<exists>i j. denotes a i \<and> denotes b j \<and> j \<noteq> 0 \<and> q = FormatInt (quot i j)
         \<and> r = FormatInt (rem i j) \<and> quot i j * j + rem i j = i \<and> \<bar>rem i j\<bar> < \<bar>j\<bar>
     else q = [] \<and> r = [] \<and> (\<nexists>i j. denotes a i \<and> denotes b j \<and> j \<noteq> 0))"
proof (cases "(\<exists>i. denotes a i) \<and> (\<exists>j. denotes b j)")
  case True
  then obtain i j where ij: "denotes a i" "denotes b j" by blast
  have "\<bar>rem i j\<bar> < \<bar>j\<bar>" if "j \<noteq> 0"
    using that by (simp add: rem_def abs_mult sgn_if)
  then show ?thesis
    using ij DivideSigned_ok [OF ij] denotes_unique quot_rem by (auto split: if_splits)
next
  case False
  then show ?thesis using DivideSigned_fail [of a b] by auto
qed

text \<open>
  The Euclidean loop ends on all numbers and returns the canonical text of the greatest
  common divisor; on texts that are no numbers the result is \<open>1\<close>.
\<close>

theorem gcd_exact:
  "\<exists>out. GCDUnsignedDecimal l r = Some out \<and>
    ((\<exists>m n. denotes_nat l m \<and> denotes_nat r n \<and> out = FormatUint (gcd m n))
     \<or> (\<nexists>m n. denotes_nat l m \<and> denotes_nat r n) \<and> out = ''1'')"
proof (cases "(\<exists>m. denotes_nat l m) \<and> (\<exists>n. denotes_nat r n)")
  case True
  then show ?thesis using GCDUnsigned_ok by blast
next
  case False
  then show ?thesis
    by (auto simp: GCDUnsignedDecimal_def normalizeUnsigned_fail split: prod.splits)
qed

text \<open>
  C23. The bitwise operators compute the operators of the integers in infinite two's complement,
  negative operands included: the width of two bits above the longer operand loses nothing.
\<close>

theorem bitwise_exact:
  "BitwiseSignedDecimal operator l r \<noteq> None
   \<and> (BitwiseSignedDecimal operator l r = Some (out, True) \<longleftrightarrow>
        (\<exists>i j g. denotes l i \<and> denotes r j \<and> int_operator operator = Some g \<and> out = FormatInt (g i j)))
   \<and> (BitwiseSignedDecimal operator l r = Some (out, False) \<longleftrightarrow>
        out = [] \<and> (\<nexists>i j g. denotes l i \<and> denotes r j \<and> int_operator operator = Some g))"
  using dec_bits.total [of operator l r] dec_bits.success_iff [of operator l r out]
    dec_bits.failure_iff [of operator l r out]
  by (cases "int_operator operator") (simp_all add: bitwise_sem_def)

text \<open>
  The comparison of signed decimals is the order of the integers, and the power-of-two
  routine, which multiplies by up to 29 bits at a time, returns the exact power.
\<close>

theorem compare_pow2_exact:
  "(denotes l i \<and> denotes r j \<longrightarrow> CompareSignedDecimal l r = sgn (i - j))
    \<and> Pow2UnsignedDecimal b = Some (FormatUint (2 ^ nat b))"
  by (simp add: CompareSigned_ok Pow2Unsigned_eq)

theorem compare_pow2_witness:
  "CompareSignedDecimal (FormatInt (-12)) (FormatInt 7) = -1
    \<and> Pow2UnsignedDecimal 40 = Some (FormatUint 1099511627776)"
  using compare_pow2_exact [of "FormatInt (-12)" "-12" "FormatInt 7" 7 40] by simp

end
