(* ===== verification/Literal.thy ===== *)
theory Literal
  imports Decimal_Contract
begin

text \<open>
  Exact constant values and integer literals: the type \<^verbatim>\<open>Value\<close>, its kinds and
  \<^verbatim>\<open>ParseIntegerLiteral\<close> of \<^verbatim>\<open>compiler/constant/value.go\<close>.  The parser has a fast path over
  64-bit machine integers and a slow path over decimal texts; the theorem of this theory is
  that both read the same number, in every base.
\<close>

section \<open>Values\<close>

record Value =
  Text :: string
  Type :: string
  Untyped :: bool
  Real :: string
  Imag :: string

text \<open>The zero value \<^verbatim>\<open>Value{}\<close>, which every failure returns.\<close>

definition noValue :: Value where
  "noValue = \<lparr>Text = [], Type = [], Untyped = False, Real = [], Imag = []\<rparr>"

datatype Kind = Invalid | Boolean | Number | StringValue | ComplexValue

definition kind_of :: "Value \<Rightarrow> Kind" where
  "kind_of v =
     (if Imag v \<noteq> [] then ComplexValue
      else if Text v = ''true'' \<or> Text v = ''false'' then Boolean
      else if HasPrefix (Text v) [CHR 0x22] then StringValue
      else if Text v \<noteq> [] then Number
      else Invalid)"

section \<open>Integer literals\<close>

text \<open>
  The sources range over runes.  A rune outside ASCII is no digit and neither is any byte of
  its encoding, so reading bytes accepts the same texts.
\<close>

definition integerDigit :: "char \<Rightarrow> int" where
  "integerDigit c =
     (let b = byte_val c :: nat in
      if 48 \<le> b \<and> b \<le> 57 then int b - 48
      else if 97 \<le> b \<and> b \<le> 102 then int b - 97 + 10
      else if 65 \<le> b \<and> b \<le> 70 then int b - 65 + 10
      else -1)"

text \<open>The slow loop; the inner \<open>None\<close> is a byte that is no digit of the base.\<close>

fun literal_loop :: "nat \<Rightarrow> string \<Rightarrow> string \<Rightarrow> string option option" where
  "literal_loop base acc [] = Some (Some acc)"
| "literal_loop base acc (c # s) =
     (let n = integerDigit c in
      if n < 0 \<or> int base \<le> n then Some None
      else do {
        scaled \<leftarrow> MultiplySignedDecimal acc (FormatUint base);
        literal_loop base (fst (AddSignedDecimal (fst scaled) (FormatInt n))) s
      })"

text \<open>The base and the digits of an unsigned literal.\<close>

definition literal_base :: "string \<Rightarrow> nat \<times> string" where
  "literal_base text =
     (if length text > 1 \<and> text ! 0 = CHR ''0''
      then if text ! 1 = CHR ''b'' \<or> text ! 1 = CHR ''B'' then (2, drop 2 text)
           else if text ! 1 = CHR ''o'' \<or> text ! 1 = CHR ''O'' then (8, drop 2 text)
           else if text ! 1 = CHR ''x'' \<or> text ! 1 = CHR ''X'' then (16, drop 2 text)
           else (8, drop 1 text)
      else (10, text))"

definition intLiteral :: "string \<Rightarrow> Value" where
  "intLiteral text = \<lparr>Text = text, Type = ''Int'', Untyped = True, Real = [], Imag = []\<rparr>"

text \<open>The parser after the sign: \<open>text\<close> is not empty.\<close>

definition parse_digits :: "string \<Rightarrow> string \<Rightarrow> (Value \<times> bool) option" where
  "parse_digits sign text =
     (let (base, digits) = literal_base text
      in if digits = []
         then if text = ''0'' then Some (intLiteral ''0'', True) else Some (noValue, False)
         else if base = 10
         then if \<not> list_all is_digit digits then Some (noValue, False)
              else Some (intLiteral ((if digits = ''0'' then [] else sign) @ digits), True)
         else
           let firstDigit = integerDigit (hd digits)
           in if firstDigit < 0 \<or> int base \<le> firstDigit then Some (noValue, False)
              else
                case ParseUint digits base of
                  Some parsed \<Rightarrow>
                    Some (intLiteral (if parsed \<noteq> 0 then sign @ FormatUint parsed
                                      else FormatUint parsed), True)
                | None \<Rightarrow> do {
                    slow \<leftarrow> literal_loop base ''0'' digits;
                    case slow of
                      None \<Rightarrow> Some (noValue, False)
                    | Some out \<Rightarrow>
                        (case NormalizeSignedDecimal (sign @ out) of
                           (normal, ok) \<Rightarrow> Some (intLiteral normal, ok))
                  })"

definition ParseIntegerLiteral :: "string \<Rightarrow> (Value \<times> bool) option" where
  "ParseIntegerLiteral text0 =
     (let trimmed = TrimSpace (RemoveByte text0 CHR ''_'') in
      if trimmed = [] then Some (noValue, False)
      else
        let sign = (if hd trimmed = CHR ''-'' then ''-'' else []);
            text = (if hd trimmed = CHR ''+'' \<or> hd trimmed = CHR ''-'' then tl trimmed else trimmed)
        in if text = [] then Some (noValue, False) else parse_digits sign text)"

section \<open>What a literal denotes\<close>

definition digit_ok :: "nat \<Rightarrow> char \<Rightarrow> bool" where
  "digit_ok base c = (0 \<le> integerDigit c \<and> integerDigit c < int base)"

definition base_val :: "nat \<Rightarrow> nat \<Rightarrow> string \<Rightarrow> nat" where
  "base_val base acc s = foldl (\<lambda>n c. n * base + nat (integerDigit c)) acc s"

text \<open>
  The integer a literal stands for: an optional sign, an optional base prefix, and at least one
  digit, all of them digits of the base.  A leading zero followed by a digit is octal.
\<close>

definition literal_int :: "string \<Rightarrow> int option" where
  "literal_int text =
     (case sign_split text of
        (neg, rest) \<Rightarrow>
          (case literal_base rest of
             (base, digits) \<Rightarrow>
               if digits \<noteq> [] \<and> list_all (digit_ok base) digits
               then Some (if neg then - int (base_val base 0 digits) else int (base_val base 0 digits))
               else None))"

section \<open>The two paths read the same number\<close>

lemma alnum_val_integerDigit:
  "digit_ok base c \<Longrightarrow> alnum_val c = Some (nat (integerDigit c)) \<and> nat (integerDigit c) < base"
  by (auto simp: digit_ok_def alnum_val_def integerDigit_def Let_def split: if_splits)

lemma alnum_val_bad:
  assumes "\<not> digit_ok base c" "base \<le> 16"
  shows "case alnum_val c of None \<Rightarrow> True | Some d \<Rightarrow> \<not> d < base"
  using assms by (auto simp: digit_ok_def alnum_val_def integerDigit_def Let_def split: if_splits)

lemma parse_base_eq:
  assumes "base \<le> 16"
  shows "parse_base base acc s =
    (if list_all (digit_ok base) s then Some (base_val base acc s) else None)"
proof (induction s arbitrary: acc)
  case Nil
  show ?case by (simp add: base_val_def)
next
  case (Cons c s)
  show ?case
  proof (cases "digit_ok base c")
    case True
    then show ?thesis using Cons alnum_val_integerDigit [OF True] by (simp add: base_val_def)
  next
    case False
    then show ?thesis
      using alnum_val_bad [OF False assms] by (auto split: option.splits)
  qed
qed

lemma literal_loop_eq:
  "literal_loop base (FormatUint n) s =
    Some (if list_all (digit_ok base) s then Some (FormatUint (base_val base n s)) else None)"
proof (induction s arbitrary: n)
  case Nil
  show ?case by (simp add: base_val_def)
next
  case (Cons c s)
  show ?case
  proof (cases "digit_ok base c")
    case True
    then have "FormatInt (int n * int base + integerDigit c) = FormatUint (n * base + nat (integerDigit c))"
      by (metis FormatInt_of_nat digit_ok_def int_nat_eq of_nat_add of_nat_mult)
    then show ?thesis
      using True Cons.IH [of "n * base + nat (integerDigit c)"]
      by (simp add: digit_ok_def base_val_def MultiplySigned_ok AddSigned_ok)
  next
    case False
    then show ?thesis by (auto simp: digit_ok_def)
  qed
qed

lemma digit_ok_10: "digit_ok 10 c \<longleftrightarrow> is_digit c"
  by (auto simp: digit_ok_def integerDigit_def is_digit_def Let_def)

lemma base_val_10: "list_all is_digit s \<Longrightarrow> base_val 10 acc s = digits_val acc s"
  by (induction s arbitrary: acc)
    (auto simp: base_val_def digits_val_def integerDigit_def is_digit_def digit_val_of_digit nat_diff_distrib)

lemma literal_base_cases:
  obtains "literal_base text = (10, text)" "\<not> (length text > 1 \<and> text ! 0 = CHR ''0'')"
  | base digits where "literal_base text = (base, digits)" "base \<in> {2, 8, 16}" "text \<noteq> ''0''"
proof (cases "length text > 1 \<and> text ! 0 = CHR ''0''")
  case True
  then have "fst (literal_base text) \<in> {2, 8, 16}" "text \<noteq> ''0''" by (auto simp: literal_base_def)
  then show ?thesis using that(2) [of "fst (literal_base text)" "snd (literal_base text)"] by simp
next
  case False
  then show ?thesis using that(1) by (auto simp: literal_base_def)
qed

lemma canonical_decimal_digits:
  assumes "list_all is_digit s" "s \<noteq> []" "\<not> (length s > 1 \<and> s ! 0 = CHR ''0'')"
  shows "FormatUint (dec_val s) = s"
proof (rule FormatUint_dec_val)
  show "canonical s" using assms by (cases s) (auto simp: canonical_def)
qed

lemma TrimSpace_minus: "TrimSpace (CHR ''-'' # FormatUint n) = CHR ''-'' # FormatUint n"
proof (rule TrimSpace_tight)
  have "is_digit (last (FormatUint n))"
    using FormatUint_digits FormatUint_nonempty last_in_set by (metis list_all_iff)
  then show "CHR ''-'' # FormatUint n = [] \<or>
    tight_byte (hd (CHR ''-'' # FormatUint n)) \<and> tight_byte (last (CHR ''-'' # FormatUint n))"
    by (simp add: is_digit_tight)
qed

lemma parse_digits_eq:
  assumes "rest \<noteq> []" "literal_base rest = (base, digits)"
  shows "parse_digits (if neg then ''-'' else []) rest = Some
     (if digits \<noteq> [] \<and> list_all (digit_ok base) digits
      then (intLiteral (FormatInt (if neg then - int (base_val base 0 digits)
                                   else int (base_val base 0 digits))), True)
      else (noValue, False))"
proof (cases rule: literal_base_cases [of rest])
  case 1
  then have [simp]: "base = 10" "digits = rest" using assms(2) by simp_all
  have ok: "list_all (digit_ok 10) rest = list_all is_digit rest"
    by (simp add: list_all_iff digit_ok_10)
  show ?thesis
  proof (cases "list_all is_digit rest")
    case True
    have "FormatUint (base_val 10 0 rest) = rest"
      using canonical_decimal_digits [OF True assms(1) 1(2)] base_val_10 [OF True, of 0]
      by (simp add: dec_val_def)
    moreover from this have "rest = ''0'' \<longleftrightarrow> base_val 10 0 rest = 0" by (metis FormatUint_eq_0)
    ultimately show ?thesis
      using True assms 1 ok by (auto simp: parse_digits_def FormatInt_def)
  next
    case False
    then show ?thesis using assms 1 ok by (simp add: parse_digits_def)
  qed
next
  case (2 b ds)
  then have base: "base \<in> {2, 8, 16}" "rest \<noteq> ''0''" "base \<noteq> 10" "base \<le> 16"
    using assms(2) by auto
  have neg: "NormalizeSignedDecimal (CHR ''-'' # FormatUint n) = (FormatInt (- int n), True)" for n
    by (rule NormalizeSigned_ok) (auto simp: denotes_def sign_split_def TrimSpace_minus)
  show ?thesis
  proof (cases "digits \<noteq> [] \<and> list_all (digit_ok base) digits")
    case True
    then have "0 \<le> integerDigit (hd digits)" "integerDigit (hd digits) < int base"
      by (cases digits; simp add: digit_ok_def)+
    then show ?thesis
      using True base assms literal_loop_eq [of base 0 digits] parse_base_eq [OF base(4), of 0 digits] neg
        NormalizeSigned_FormatInt [of "int (base_val base 0 digits)"]
      by (auto simp: parse_digits_def ParseUint_def FormatInt_def)
  next
    case False
    then show ?thesis
      using base assms literal_loop_eq [of base 0 digits] parse_base_eq [OF base(4), of 0 digits]
      by (auto simp: parse_digits_def ParseUint_def Let_def)
  qed
qed

lemma ParseInteger_eq:
  "ParseIntegerLiteral text = Some
     (case literal_int (TrimSpace (RemoveByte text CHR ''_'')) of
        Some i \<Rightarrow> (intLiteral (FormatInt i), True)
      | None \<Rightarrow> (noValue, False))"
proof -
  let ?t = "TrimSpace (RemoveByte text CHR ''_'')"
  obtain neg rest where split: "sign_split ?t = (neg, rest)" by fastforce
  obtain base digits where base: "literal_base rest = (base, digits)" by fastforce
  have parts: "(if hd ?t = CHR ''-'' then ''-'' else []) = (if neg then ''-'' else [])"
    "(if hd ?t = CHR ''+'' \<or> hd ?t = CHR ''-'' then tl ?t else ?t) = rest" if "?t \<noteq> []"
    using split that by (auto simp: sign_split_def split: if_splits)
  have "ParseIntegerLiteral text =
      (if rest = [] then Some (noValue, False) else parse_digits (if neg then ''-'' else []) rest)"
  proof (cases "?t = []")
    case True
    then show ?thesis using split by (simp add: ParseIntegerLiteral_def sign_split_def)
  next
    case False
    then show ?thesis unfolding ParseIntegerLiteral_def Let_def parts [OF False] by (rule if_not_P)
  qed
  moreover have "rest = [] \<Longrightarrow> digits = []" using base by (auto simp: literal_base_def)
  ultimately show ?thesis
    using parse_digits_eq [OF _ base, of neg] by (simp add: literal_int_def split base)
qed


end
