(* ===== verification/Rational.thy ===== *)
theory Rational
  imports Literal Complex_Main
begin

text \<open>
  Exact rational constants, \<^verbatim>\<open>compiler/constant/rational.go\<close>: the type \<^verbatim>\<open>Rational\<close>, its
  canonical form, the field operations, and the parsers of integer, decimal, hexadecimal and
  fraction literals.  The abstraction is the type \<^typ>\<open>rat\<close>: \<open>RationalOf x\<close> is the one canonical
  pair of texts that stands for \<open>x\<close>, and every operation on canonical pairs returns the
  canonical pair of the exact result.
\<close>

section \<open>The type\<close>

record Rational =
  Numerator :: string
  Denominator :: string

definition noRational :: Rational where
  "noRational = \<lparr>Numerator = [], Denominator = []\<rparr>"

definition NewRational :: "string \<Rightarrow> string \<Rightarrow> (Rational \<times> bool) option" where
  "NewRational numerator0 denominator0 =
     (let (numerator1, numeratorOK) = NormalizeSignedDecimal numerator0;
          (denominator1, denominatorOK) = NormalizeSignedDecimal denominator0
      in if \<not> numeratorOK \<or> \<not> denominatorOK \<or> denominator1 = ''0'' then Some (noRational, False)
         else
           let flip = HasPrefix denominator1 ''-'';
               denominator = (if flip then TrimPrefix denominator1 ''-'' else denominator1);
               numerator = (if flip then fst (NegateSignedDecimal numerator1) else numerator1)
           in if numerator = ''0'' then Some (\<lparr>Numerator = ''0'', Denominator = ''1''\<rparr>, True)
              else
                let absNumerator = TrimPrefix numerator ''-''
                in do {
                  divisor \<leftarrow> gcdCanonicalDecimal absNumerator denominator;
                  if divisor \<noteq> ''1''
                  then do {
                    reducedNumerator \<leftarrow> divideCanonicalDecimal absNumerator divisor;
                    reducedDenominator \<leftarrow> divideCanonicalDecimal denominator divisor;
                    Some (\<lparr>Numerator = (if HasPrefix numerator ''-'' then ''-'' else []) @ fst reducedNumerator,
                           Denominator = fst reducedDenominator\<rparr>, True)
                  }
                  else Some (\<lparr>Numerator = numerator, Denominator = denominator\<rparr>, True)
                })"

definition Rational_Valid :: "Rational \<Rightarrow> bool" where
  "Rational_Valid r = (Denominator r \<noteq> [])"

definition Rational_IsZero :: "Rational \<Rightarrow> bool" where
  "Rational_IsZero r = (Rational_Valid r \<and> Numerator r = ''0'')"

definition Rational_Integer :: "Rational \<Rightarrow> string \<times> bool" where
  "Rational_Integer r = (Numerator r, Rational_Valid r \<and> Denominator r = ''1'')"

definition Rational_String :: "Rational \<Rightarrow> string" where
  "Rational_String r =
     (if \<not> Rational_Valid r then []
      else if Denominator r = ''1'' then Numerator r
      else Numerator r @ ''/'' @ Denominator r)"

section \<open>Field operations\<close>

definition NegateRational :: "Rational \<Rightarrow> Rational \<times> bool" where
  "NegateRational r =
     (let (numerator, ok) = NegateSignedDecimal (Numerator r)
      in (\<lparr>Numerator = numerator, Denominator = Denominator r\<rparr>, ok))"

definition AddRational :: "Rational \<Rightarrow> Rational \<Rightarrow> (Rational \<times> bool) option" where
  "AddRational left right = do {
     (leftNumerator, ok1) \<leftarrow> MultiplySignedDecimal (Numerator left) (Denominator right);
     if \<not> ok1 then Some (noRational, False) else do {
       (rightNumerator, ok2) \<leftarrow> MultiplySignedDecimal (Numerator right) (Denominator left);
       if \<not> ok2 then Some (noRational, False) else
         let (numerator, ok3) = AddSignedDecimal leftNumerator rightNumerator
         in if \<not> ok3 then Some (noRational, False) else do {
              (denominator, ok4) \<leftarrow> MultiplySignedDecimal (Denominator left) (Denominator right);
              if \<not> ok4 then Some (noRational, False) else NewRational numerator denominator
            }
     }
   }"

definition SubtractRational :: "Rational \<Rightarrow> Rational \<Rightarrow> (Rational \<times> bool) option" where
  "SubtractRational left right =
     (let (negated, ok) = NegateRational right
      in if \<not> ok then Some (noRational, False) else AddRational left negated)"

definition MultiplyRational :: "Rational \<Rightarrow> Rational \<Rightarrow> (Rational \<times> bool) option" where
  "MultiplyRational left right = do {
     (numerator, ok1) \<leftarrow> MultiplySignedDecimal (Numerator left) (Numerator right);
     if \<not> ok1 then Some (noRational, False) else do {
       (denominator, ok2) \<leftarrow> MultiplySignedDecimal (Denominator left) (Denominator right);
       if \<not> ok2 then Some (noRational, False) else NewRational numerator denominator
     }
   }"

definition DivideRational :: "Rational \<Rightarrow> Rational \<Rightarrow> (Rational \<times> bool) option" where
  "DivideRational left right =
     (if Rational_IsZero right then Some (noRational, False)
      else do {
        (numerator, ok1) \<leftarrow> MultiplySignedDecimal (Numerator left) (Denominator right);
        if \<not> ok1 then Some (noRational, False) else do {
          (denominator, ok2) \<leftarrow> MultiplySignedDecimal (Denominator left) (Numerator right);
          if \<not> ok2 then Some (noRational, False) else NewRational numerator denominator
        }
      })"

definition CompareRational :: "Rational \<Rightarrow> Rational \<Rightarrow> int option" where
  "CompareRational left right = do {
     (leftScaled, leftOK) \<leftarrow> MultiplySignedDecimal (Numerator left) (Denominator right);
     (rightScaled, rightOK) \<leftarrow> MultiplySignedDecimal (Numerator right) (Denominator left);
     Some (if \<not> leftOK \<or> \<not> rightOK then 0 else CompareSignedDecimal leftScaled rightScaled)
   }"

section \<open>Literals\<close>

definition maxLiteralExponent :: nat where
  "maxLiteralExponent = 100000"

text \<open>The loop of \<^verbatim>\<open>parseLiteralExponent\<close>: \<open>None\<close> is a byte that is no digit, or a value too large.\<close>

fun exponent_loop :: "nat \<Rightarrow> string \<Rightarrow> nat option" where
  "exponent_loop v [] = Some v"
| "exponent_loop v (c # s) =
     (if \<not> is_digit c then None
      else let v = v * 10 + digit_val c
           in if maxLiteralExponent < v then None else exponent_loop v s)"

definition parseLiteralExponent :: "string \<Rightarrow> int \<times> bool" where
  "parseLiteralExponent text0 =
     (if text0 = [] then (0, False)
      else
        let sgn = (hd text0 = CHR ''+'' \<or> hd text0 = CHR ''-'');
            negative = (sgn \<and> hd text0 = CHR ''-'');
            text = (if sgn then tl text0 else text0)
        in if text = [] then (0, False)
           else case exponent_loop 0 text of
                  None \<Rightarrow> (0, False)
                | Some v \<Rightarrow> (if negative then - int v else int v, True))"

definition numericDigit :: "char \<Rightarrow> int" where
  "numericDigit c =
     (let b = byte_val c :: nat in
      if 48 \<le> b \<and> b \<le> 57 then int b - 48
      else if 97 \<le> b \<and> b \<le> 102 then int b - 97 + 10
      else if 65 \<le> b \<and> b \<le> 70 then int b - 65 + 10
      else -1)"

text \<open>The leading sign both float parsers read, and the text after it.\<close>

definition literal_sign :: "string \<Rightarrow> string \<times> string" where
  "literal_sign text =
     (if text \<noteq> [] \<and> (hd text = CHR ''+'' \<or> hd text = CHR ''-'')
      then (if hd text = CHR ''-'' then ''-'' else [], tl text) else ([], text))"

text \<open>
  The fraction both float parsers split at the point: the digits without the point and the
  number of digits after it, \<open>None\<close> for a second point.
\<close>

definition split_point :: "string \<Rightarrow> (string \<times> nat) option" where
  "split_point text =
     (case IndexByte text CHR ''.'' of
        None \<Rightarrow> Some (text, 0)
      | Some pos \<Rightarrow>
          if IndexByte (drop (pos + 1) text) CHR ''.'' \<noteq> None then None
          else Some (take pos text @ drop (pos + 1) text, length text - pos - 1))"

definition parseDecimalRational :: "string \<Rightarrow> (Rational \<times> bool) option" where
  "parseDecimalRational text0 =
     (let (sign, text1) = literal_sign text0;
          (exponent, text2, exponentOK) =
            (case IndexAny text1 ''eE'' of
               None \<Rightarrow> (0, text1, True)
             | Some pos \<Rightarrow>
                 let (parsed, ok) = parseLiteralExponent (drop (pos + 1) text1)
                 in (parsed, take pos text1, ok))
      in if \<not> exponentOK then Some (noRational, False)
         else
           case split_point text2 of
             None \<Rightarrow> Some (noRational, False)
           | Some (text, fractionDigits) \<Rightarrow>
               if text = [] \<or> \<not> list_all is_digit text then Some (noRational, False)
               else
                 let (coefficient, ok) = NormalizeSignedDecimal (sign @ text)
                 in if \<not> ok then Some (noRational, False)
                    else
                      let power = exponent - int fractionDigits
                      in if 0 \<le> power
                         then NewRational (coefficient @ Repeat ''0'' (nat power)) ''1''
                         else NewRational coefficient (''1'' @ Repeat ''0'' (nat (- power))))"

text \<open>The digit loop of \<^verbatim>\<open>parseHexRational\<close>; the inner \<open>None\<close> is a byte that is no digit.\<close>

fun hex_loop :: "string \<Rightarrow> string \<Rightarrow> string option option" where
  "hex_loop coefficient [] = Some (Some coefficient)"
| "hex_loop coefficient (c # s) =
     (let n = numericDigit c in
      if n < 0 \<or> 16 \<le> n then Some None
      else do {
        scaled \<leftarrow> MultiplySignedDecimal coefficient ''16'';
        hex_loop (fst (AddSignedDecimal (fst scaled) (FormatInt n))) s
      })"

definition parseHexRational :: "string \<Rightarrow> (Rational \<times> bool) option" where
  "parseHexRational text0 =
     (let (sign, text) = literal_sign text0
      in if length text < 3 \<or> text ! 0 \<noteq> CHR ''0'' \<or> (text ! 1 \<noteq> CHR ''x'' \<and> text ! 1 \<noteq> CHR ''X'')
         then Some (noRational, False)
         else
           case IndexAny text ''pP'' of
             None \<Rightarrow>
               if CHR ''.'' \<in> set text then Some (noRational, False)
               else do {
                 (v, ok) \<leftarrow> ParseIntegerLiteral (sign @ text);
                 if \<not> ok then Some (noRational, False) else NewRational (Text v) ''1''
               }
           | Some exponentAt \<Rightarrow>
               let (exponent, ok) = parseLiteralExponent (drop (exponentAt + 1) text)
               in if \<not> ok then Some (noRational, False)
                  else
                    case split_point (drop 2 (take exponentAt text)) of
                      None \<Rightarrow> Some (noRational, False)
                    | Some (mantissa, fractionDigits) \<Rightarrow>
                        if mantissa = [] then Some (noRational, False)
                        else do {
                          digits \<leftarrow> hex_loop ''0'' mantissa;
                          case digits of
                            None \<Rightarrow> Some (noRational, False)
                          | Some unsigned \<Rightarrow>
                              let coefficient = fst (NormalizeSignedDecimal (sign @ unsigned));
                                  power = exponent - int fractionDigits * 4
                              in if 0 \<le> power
                                 then do {
                                   factor \<leftarrow> Pow2UnsignedDecimal power;
                                   (scaled, ok) \<leftarrow> MultiplySignedDecimal coefficient factor;
                                   if \<not> ok then Some (noRational, False) else NewRational scaled ''1''
                                 }
                                 else do {
                                   factor \<leftarrow> Pow2UnsignedDecimal (- power);
                                   NewRational coefficient factor
                                 }
                        })"

definition ParseRationalLiteral :: "string \<Rightarrow> (Rational \<times> bool) option" where
  "ParseRationalLiteral text0 =
     (let text = TrimSpace (RemoveByte text0 CHR ''_'')
      in if text = [] \<or> HasSuffix text ''i'' then Some (noRational, False)
         else
           case IndexByte text CHR ''/'' of
             Some slash \<Rightarrow>
               if IndexByte (drop (slash + 1) text) CHR ''/'' \<noteq> None then Some (noRational, False)
               else NewRational (take slash text) (drop (slash + 1) text)
           | None \<Rightarrow>
               if HasPrefix text ''0x'' \<or> HasPrefix text ''0X'' \<or> ContainsAny text ''pP''
               then parseHexRational text
               else if \<not> ContainsAny text ''.eE''
               then do {
                 (v, ok) \<leftarrow> ParseIntegerLiteral text;
                 if \<not> ok then Some (noRational, False) else NewRational (Text v) ''1''
               }
               else parseDecimalRational text)"

section \<open>The rational a pair stands for\<close>

definition RationalOf :: "rat \<Rightarrow> Rational" where
  "RationalOf x = \<lparr>Numerator = FormatInt (fst (quotient_of x)), Denominator = FormatInt (snd (quotient_of x))\<rparr>"

lemma RationalOf_sel [simp]:
  "Numerator (RationalOf x) = FormatInt (fst (quotient_of x))"
  "Denominator (RationalOf x) = FormatInt (snd (quotient_of x))"
  by (simp_all add: RationalOf_def)

lemma RationalOf_Valid [simp]: "Rational_Valid (RationalOf x)"
  by (simp add: Rational_Valid_def)

lemma quotient_Fract: "Fract (fst (quotient_of x)) (snd (quotient_of x)) = x"
  by (cases "quotient_of x") (metis Fract_of_int_quotient fst_conv quotient_of_div snd_conv)

lemma RationalOf_inject [simp]: "RationalOf x = RationalOf y \<longleftrightarrow> x = y"
proof
  assume "RationalOf x = RationalOf y"
  then have "quotient_of x = quotient_of y"
    by (metis FormatInt_inject RationalOf_sel prod_eqI)
  then show "x = y" by (simp add: quotient_of_inject_eq)
qed simp

lemma RationalOf_IsZero [simp]: "Rational_IsZero (RationalOf x) \<longleftrightarrow> x = 0"
proof -
  have "fst (quotient_of x) = 0 \<longleftrightarrow> x = 0"
    using quotient_Fract [of x] quotient_of_denom_pos' [of x] by (metis Fract_of_int_quotient
      div_0 fst_conv of_int_0 quotient_of_int rat_zero_code)
  then show ?thesis by (simp add: Rational_IsZero_def)
qed

text \<open>The reduced pair of a fraction, computed on magnitudes as the code does.\<close>

lemma quotient_of_reduced:
  fixes m n :: nat
  assumes "m \<noteq> 0" "n \<noteq> 0"
  shows "quotient_of (Fract (if neg then - int m else int m) (int n)) =
    (if neg then - int (m div gcd m n) else int (m div gcd m n), int (n div gcd m n))"
proof -
  let ?g = "gcd m n"
  have g: "?g \<noteq> 0" "m = ?g * (m div ?g)" "n = ?g * (n div ?g)" using assms by simp_all
  have "0 < n div ?g" using assms by (simp add: div_greater_zero_iff gcd_le2_nat)
  moreover have "coprime (m div ?g) (n div ?g)" using assms by (intro div_gcd_coprime) simp
  then have "coprime (int (m div ?g)) (int (n div ?g))" by (simp only: coprime_int_iff)
  moreover have "Fract (if neg then - int m else int m) (int n) =
      Fract (if neg then - int (m div ?g) else int (m div ?g)) (int (n div ?g))"
  proof -
    let ?k = "if neg then - int (m div ?g) else int (m div ?g)"
    have n: "int n = int ?g * int (n div ?g)" using g(3) by (metis of_nat_mult)
    have "int m = int ?g * int (m div ?g)" using g(2) by (metis of_nat_mult)
    then have m: "(if neg then - int m else int m) = int ?g * ?k" by simp
    show ?thesis unfolding n m using g(1) by (intro mult_rat_cancel) simp
  qed
  ultimately show ?thesis
    by (simp add: quotient_of_Fract normalize_stable)
qed

lemma NewRational_unfold:
  assumes "denotes n i" "denotes d j" "j \<noteq> 0"
  shows "NewRational n d =
    (let numerator = FormatInt (if j < 0 then - i else i)
     in if numerator = ''0'' then Some (\<lparr>Numerator = ''0'', Denominator = ''1''\<rparr>, True)
        else do {
          divisor \<leftarrow> gcdCanonicalDecimal (FormatUint (nat \<bar>i\<bar>)) (FormatUint (nat \<bar>j\<bar>));
          if divisor \<noteq> ''1''
          then do {
            reducedNumerator \<leftarrow> divideCanonicalDecimal (FormatUint (nat \<bar>i\<bar>)) divisor;
            reducedDenominator \<leftarrow> divideCanonicalDecimal (FormatUint (nat \<bar>j\<bar>)) divisor;
            Some (\<lparr>Numerator = (if HasPrefix numerator ''-'' then ''-'' else []) @ fst reducedNumerator,
                   Denominator = fst reducedDenominator\<rparr>, True)
          }
          else Some (\<lparr>Numerator = numerator, Denominator = FormatUint (nat \<bar>j\<bar>)\<rparr>, True)
        })"
proof -
  have num: "(if HasPrefix (FormatInt j) ''-'' then fst (NegateSignedDecimal (FormatInt i)) else FormatInt i) =
      FormatInt (if j < 0 then - i else i)"
    using NegateSigned_ok [of "FormatInt i" i] by auto
  have den: "(if HasPrefix (FormatInt j) ''-'' then TrimPrefix (FormatInt j) ''-'' else FormatInt j) =
      FormatUint (nat \<bar>j\<bar>)"
    by (simp add: FormatInt_def)
  have abs: "nat \<bar>if j < 0 then - i else i\<bar> = nat \<bar>i\<bar>" by simp
  show ?thesis
    using assms(3)
    unfolding NewRational_def NormalizeSigned_ok [OF assms(1)] NormalizeSigned_ok [OF assms(2)]
      Let_def prod.case num den
    unfolding FormatInt_magnitude abs by simp
qed

lemma NewRational_ok:
  assumes "denotes n i" "denotes d j" "j \<noteq> 0"
  shows "NewRational n d = Some (RationalOf (Fract i j), True)"
proof (cases "i = 0")
  case True
  then show ?thesis
    by (simp add: NewRational_unfold [OF assms] RationalOf_def rat_number_collapse FormatInt_def)
next
  case False
  define neg a b where "neg = ((i < 0) \<noteq> (j < 0))" and "a = nat \<bar>i\<bar>" and "b = nat \<bar>j\<bar>"
  have ab: "a \<noteq> 0" "b \<noteq> 0" using False assms(3) by (simp_all add: a_def b_def)
  have "Fract i j = Fract (if neg then - int a else int a) (int b)"
    using assms(3) by (auto simp: neg_def a_def b_def)
  note q = arg_cong [OF this, of quotient_of, unfolded quotient_of_reduced [OF ab]]
  have num: "(if j < 0 then - i else i) = (if neg then - int a else int a)"
    using False by (auto simp: neg_def a_def)
  define g where "g = gcd a b"
  have g: "g \<noteq> 0" "0 < a div g" using ab by (simp_all add: g_def div_greater_zero_iff gcd_le1_nat)
  show ?thesis
    using ab g unfolding NewRational_unfold [OF assms] num a_def [symmetric] b_def [symmetric]
    by (cases "g = 1")
      (simp_all add: gcdCanonical_ok divideCanonical_ok RationalOf_def q FormatInt_def Let_def
        g_def [symmetric])
qed

lemma NewRational_fail:
  assumes "(\<nexists>i. denotes n i) \<or> (\<nexists>j. denotes d j) \<or> denotes d 0"
  shows "NewRational n d = Some (noRational, False)"
  using assms NormalizeSigned_ok [of d 0]
  by (auto simp: NewRational_def NormalizeSigned_fail split: prod.splits)

lemma NewRational_result:
  "NewRational n d = Some (noRational, False) \<or> (\<exists>x. NewRational n d = Some (RationalOf x, True))"
  using NewRational_ok NewRational_fail by metis

section \<open>The field operations are exact\<close>

lemma Fract_split:
  obtains p q where "x = Fract p q" "0 < q" "RationalOf x = \<lparr>Numerator = FormatInt p, Denominator = FormatInt q\<rparr>"
  using quotient_Fract [of x] quotient_of_denom_pos' [of x] by (metis RationalOf_def)

lemma NegateRational_ok: "NegateRational (RationalOf x) = (RationalOf (- x), True)"
  using NegateSigned_ok [of "FormatInt (fst (quotient_of x))"]
  by (simp add: NegateRational_def RationalOf_def rat_uminus_code split: prod.splits)

lemma AddRational_ok: "AddRational (RationalOf x) (RationalOf y) = Some (RationalOf (x + y), True)"
proof -
  obtain p q where x: "x = Fract p q" "0 < q" "RationalOf x = \<lparr>Numerator = FormatInt p, Denominator = FormatInt q\<rparr>"
    by (rule Fract_split)
  obtain r s where y: "y = Fract r s" "0 < s" "RationalOf y = \<lparr>Numerator = FormatInt r, Denominator = FormatInt s\<rparr>"
    by (rule Fract_split)
  have "NewRational (FormatInt (p * s + r * q)) (FormatInt (q * s)) = Some (RationalOf (x + y), True)"
    using x(1,2) y(1,2) by (simp add: NewRational_ok)
  then show ?thesis by (simp add: AddRational_def x(3) y(3) MultiplySigned_ok AddSigned_ok)
qed

lemma SubtractRational_ok: "SubtractRational (RationalOf x) (RationalOf y) = Some (RationalOf (x - y), True)"
  by (simp add: SubtractRational_def NegateRational_ok AddRational_ok)

lemma MultiplyRational_ok: "MultiplyRational (RationalOf x) (RationalOf y) = Some (RationalOf (x * y), True)"
proof -
  obtain p q where x: "x = Fract p q" "0 < q" "RationalOf x = \<lparr>Numerator = FormatInt p, Denominator = FormatInt q\<rparr>"
    by (rule Fract_split)
  obtain r s where y: "y = Fract r s" "0 < s" "RationalOf y = \<lparr>Numerator = FormatInt r, Denominator = FormatInt s\<rparr>"
    by (rule Fract_split)
  have "NewRational (FormatInt (p * r)) (FormatInt (q * s)) = Some (RationalOf (x * y), True)"
    using x(1,2) y(1,2) by (simp add: NewRational_ok)
  then show ?thesis by (simp add: MultiplyRational_def x(3) y(3) MultiplySigned_ok)
qed

lemma DivideRational_ok:
  "DivideRational (RationalOf x) (RationalOf y) =
    Some (if y = 0 then (noRational, False) else (RationalOf (x / y), True))"
proof (cases "y = 0")
  case True
  then show ?thesis by (simp add: DivideRational_def)
next
  case False
  obtain p q where x: "x = Fract p q" "0 < q" "RationalOf x = \<lparr>Numerator = FormatInt p, Denominator = FormatInt q\<rparr>"
    by (rule Fract_split)
  obtain r s where y: "y = Fract r s" "0 < s" "RationalOf y = \<lparr>Numerator = FormatInt r, Denominator = FormatInt s\<rparr>"
    by (rule Fract_split)
  have "r \<noteq> 0" using False y(1,2) by (auto simp: rat_number_collapse)
  then have "NewRational (FormatInt (p * s)) (FormatInt (q * r)) = Some (RationalOf (x / y), True)"
    using x(1,2) y(1,2) by (simp add: NewRational_ok)
  moreover have "\<not> Rational_IsZero (RationalOf y)" using False by simp
  ultimately show ?thesis using False by (simp add: DivideRational_def x(3) y(3) MultiplySigned_ok)
qed

lemma CompareRational_ok:
  "CompareRational (RationalOf x) (RationalOf y) = Some (if x < y then -1 else if x = y then 0 else 1)"
proof -
  obtain p q where x: "x = Fract p q" "0 < q" "RationalOf x = \<lparr>Numerator = FormatInt p, Denominator = FormatInt q\<rparr>"
    by (rule Fract_split)
  obtain r s where y: "y = Fract r s" "0 < s" "RationalOf y = \<lparr>Numerator = FormatInt r, Denominator = FormatInt s\<rparr>"
    by (rule Fract_split)
  have "x < y \<longleftrightarrow> p * s < r * q" "x = y \<longleftrightarrow> p * s = r * q"
    using x(1,2) y(1,2) by (auto simp: eq_rat not_le [symmetric])
  then show ?thesis by (simp add: CompareRational_def x(3) y(3) MultiplySigned_ok CompareSigned_ok sgn_if)
qed

section \<open>Literals\<close>

text \<open>The characters of canonical texts: digits and a minus sign.\<close>

definition plain :: "string \<Rightarrow> bool" where
  "plain s = list_all (\<lambda>c. is_digit c \<or> c = CHR ''-'') s"

lemma plain_digits: "list_all is_digit s \<Longrightarrow> plain s"
  by (auto simp: plain_def list_all_iff)

lemma plain_FormatInt [simp]: "plain (FormatInt i)"
  using plain_digits [OF FormatUint_digits] by (auto simp: FormatInt_def plain_def)

lemma plain_not_in:
  assumes "plain s" "\<not> is_digit c" "c \<noteq> CHR ''-''"
  shows "c \<notin> set s"
  using assms by (auto simp: plain_def list_all_iff)

lemma plain_marks [simp]:
  assumes "plain s"
  shows "CHR ''_'' \<notin> set s" "CHR ''/'' \<notin> set s" "CHR ''.'' \<notin> set s" "CHR ''e'' \<notin> set s"
    "CHR ''E'' \<notin> set s" "CHR ''p'' \<notin> set s" "CHR ''P'' \<notin> set s" "CHR ''x'' \<notin> set s"
    "CHR ''X'' \<notin> set s" "CHR ''i'' \<notin> set s"
  using plain_not_in [OF assms] by auto

lemma FormatUint_literal: "literal_base (FormatUint n) = (10, FormatUint n)"
proof -
  have "FormatUint n ! 0 \<noteq> CHR ''0'' \<or> length (FormatUint n) = 1"
    using hd_FormatUint [of n] by (cases "n = 0") (auto simp: hd_conv_nth)
  then show ?thesis by (auto simp: literal_base_def)
qed

lemma literal_int_FormatInt [simp]: "literal_int (FormatInt i) = Some i"
proof -
  have "list_all (digit_ok 10) (FormatUint n)" for n
    using FormatUint_digits [of n] by (simp add: list_all_iff digit_ok_10)
  moreover have "base_val 10 0 (FormatUint n) = n" for n
    using base_val_10 [OF FormatUint_digits, of 0 n] dec_val_FormatUint [of n] by (simp add: dec_val_def)
  ultimately show ?thesis by (simp add: literal_int_def FormatUint_literal)
qed

lemma ParseInteger_FormatInt: "ParseIntegerLiteral (FormatInt i) = Some (intLiteral (FormatInt i), True)"
  by (simp add: ParseInteger_eq RemoveByte_id)

lemma last_FormatInt: "is_digit (last (FormatInt i))"
  using FormatUint_digits FormatUint_nonempty last_in_set
  by (metis FormatInt_def last_ConsR list_all_iff)

text \<open>How \<^verbatim>\<open>ParseRationalLiteral\<close> reads a trimmed text without underscores.\<close>

lemma ParseRational_trimmed:
  assumes "CHR ''_'' \<notin> set s" "s \<noteq> []" "tight_byte (hd s)" "tight_byte (last s)" "last s \<noteq> CHR ''i''"
  shows "ParseRationalLiteral s =
    (case IndexByte s CHR ''/'' of
       Some slash \<Rightarrow>
         if IndexByte (drop (slash + 1) s) CHR ''/'' \<noteq> None then Some (noRational, False)
         else NewRational (take slash s) (drop (slash + 1) s)
     | None \<Rightarrow>
         if HasPrefix s ''0x'' \<or> HasPrefix s ''0X'' \<or> ContainsAny s ''pP'' then parseHexRational s
         else if \<not> ContainsAny s ''.eE'' then do {
           (v, ok) \<leftarrow> ParseIntegerLiteral s;
           if \<not> ok then Some (noRational, False) else NewRational (Text v) ''1''
         }
         else parseDecimalRational s)"
  using assms by (simp add: ParseRationalLiteral_def RemoveByte_id TrimSpace_tight HasSuffix_single)

lemma ParseRational_integer: "ParseRationalLiteral (FormatInt i) = Some (RationalOf (of_int i), True)"
proof -
  have "tight_byte (hd (FormatInt i))" "tight_byte (last (FormatInt i))" "last (FormatInt i) \<noteq> CHR ''i''"
    using last_FormatInt [of i] hd_FormatUint_digit [of "nat i"]
    by (auto simp: FormatInt_def is_digit_tight)
  moreover have "NewRational (FormatInt i) ''1'' = Some (RationalOf (of_int i), True)"
    using NewRational_ok [of "FormatInt i" i "''1''" 1] by (simp add: Fract_of_int_eq)
  moreover have "IndexByte (FormatInt i) CHR ''/'' = None" "\<not> HasPrefix (FormatInt i) ''0x''"
    "\<not> HasPrefix (FormatInt i) ''0X''" "\<not> ContainsAny (FormatInt i) ''pP''"
    "\<not> ContainsAny (FormatInt i) ''.eE''"
    using HasPrefix_marked [of "FormatInt i"] by (fastforce simp: ContainsAny_iff)+
  ultimately show ?thesis
    by (simp add: ParseRational_trimmed ParseInteger_FormatInt intLiteral_def)
qed

lemma ParseRational_fraction:
  assumes "0 < q"
  shows "ParseRationalLiteral (FormatInt p @ ''/'' @ FormatInt q) = Some (RationalOf (Fract p q), True)"
proof -
  let ?s = "FormatInt p @ ''/'' @ FormatInt q"
  have "tight_byte (hd ?s)" "tight_byte (last ?s)" "last ?s \<noteq> CHR ''i''"
    using last_FormatInt [of q] hd_FormatUint_digit [of "nat p"]
    by (auto simp: FormatInt_def [of p] is_digit_tight)
  moreover have "IndexByte ?s CHR ''/'' = Some (length (FormatInt p))"
    by (simp add: IndexByte_split)
  ultimately show ?thesis
    using assms by (simp add: ParseRational_trimmed NewRational_ok)
qed

subsection \<open>Decimal literals\<close>

lemma exponent_loop_ok:
  assumes "list_all is_digit s" "digits_val v s \<le> maxLiteralExponent"
  shows "exponent_loop v s = Some (digits_val v s)"
  using assms
proof (induction s arbitrary: v)
  case Nil
  show ?case by (simp add: digits_val_def)
next
  case (Cons c s)
  let ?v = "v * 10 + digit_val c"
  have eq: "digits_val v (c # s) = digits_val ?v s" by (simp add: digits_val_def)
  have "?v \<le> ?v * 10 ^ length s" by simp
  also have "\<dots> \<le> digits_val ?v s" by (subst digits_val_acc) simp
  finally have "\<not> maxLiteralExponent < ?v" using Cons.prems(2) by (simp add: eq)
  then show ?case using Cons by (simp add: eq)
qed

lemma parseLiteralExponent_ok:
  assumes "\<bar>k\<bar> \<le> int maxLiteralExponent"
  shows "parseLiteralExponent (FormatInt k) = (k, True)"
proof -
  have "exponent_loop 0 (FormatUint (nat \<bar>k\<bar>)) = Some (nat \<bar>k\<bar>)"
    using exponent_loop_ok [OF FormatUint_digits, of 0 "nat \<bar>k\<bar>"] assms dec_val_FormatUint [of "nat \<bar>k\<bar>"]
    by (simp add: dec_val_def nat_le_iff)
  then show ?thesis by (cases "k < 0") (simp_all add: parseLiteralExponent_def FormatInt_def Let_def)
qed

lemma Repeat_single: "Repeat [c] n = replicate n c"
  by (induction n) (simp_all add: Repeat_def)

lemma digits_zeros: "list_all is_digit s \<Longrightarrow> list_all is_digit (s @ replicate n CHR ''0'')"
  by (auto simp: list_all_iff)

lemma denotes_digits: "list_all is_digit s \<Longrightarrow> s \<noteq> [] \<Longrightarrow> denotes s (int (dec_val s))"
  using is_digit_tight
  by (cases s) (auto simp: denotes_def denotes_nat_def sign_split_def TrimSpace_digits)

lemma denotes_minus_digits:
  assumes "list_all is_digit s" "s \<noteq> []"
  shows "denotes (CHR ''-'' # s) (- int (dec_val s))"
proof -
  have "is_digit (last s)" using assms by (simp add: list_all_iff)
  then have "TrimSpace (CHR ''-'' # s) = CHR ''-'' # s"
    using assms(2) by (intro TrimSpace_tight) (simp add: is_digit_tight)
  then show ?thesis
    using assms by (auto simp: denotes_def denotes_nat_def sign_split_def TrimSpace_digits)
qed

lemma denotes_zeros: "denotes (FormatInt i @ replicate n CHR ''0'') (i * 10 ^ n)"
proof -
  let ?d = "FormatUint (nat \<bar>i\<bar>) @ replicate n CHR ''0''"
  have d: "list_all is_digit ?d" "?d \<noteq> []" "dec_val ?d = nat \<bar>i\<bar> * 10 ^ n"
    by (simp_all add: digits_zeros dec_val_append del: list_all_append)
  show ?thesis
    using denotes_digits [OF d(1,2)] denotes_minus_digits [OF d(1,2)] unfolding d(3)
    by (cases "i < 0") (simp_all add: FormatInt_def)
qed

definition sign_of :: "string \<Rightarrow> rat" where
  "sign_of sign = (if sign = ''-'' then -1 else 1)"

lemma literal_sign_digits:
  assumes "sign \<in> {[], ''+'', ''-''}" "s \<noteq> []" "is_digit (hd s) \<or> hd s = CHR ''.''"
  shows "literal_sign (sign @ s) = (if sign = ''-'' then ''-'' else [], s)"
  using assms by (auto simp: literal_sign_def)

lemma split_point_ok:
  "CHR ''.'' \<notin> set a \<Longrightarrow> CHR ''.'' \<notin> set b \<Longrightarrow> split_point (a @ CHR ''.'' # b) = Some (a @ b, length b)"
  by (simp add: split_point_def IndexByte_split)

lemma NewRational_scaled:
  shows "(if 0 \<le> k then NewRational (FormatInt i @ Repeat ''0'' (nat k)) ''1''
      else NewRational (FormatInt i) (''1'' @ Repeat ''0'' (nat (- k)))) =
    Some (RationalOf (of_int i * 10 powi k), True)"
proof (cases "0 \<le> k")
  case True
  then show ?thesis
    using NewRational_ok [OF denotes_zeros, of "''1''" 1 i "nat k"]
    by (simp add: Repeat_single Fract_of_int_eq power_int_def)
next
  case False
  have "denotes (''1'' @ replicate (nat (- k)) CHR ''0'') (10 ^ nat (- k))"
    using denotes_zeros [of 1 "nat (- k)"] by (simp add: FormatInt_def)
  then show ?thesis
    using False NewRational_ok [of "FormatInt i" i "''1'' @ replicate (nat (- k)) CHR ''0''" "10 ^ nat (- k)"]
    by (simp add: Repeat_single Fract_of_int_quotient power_int_def field_simps)
qed

text \<open>An exponent part: nothing, or a marker and an exponent the parser accepts.\<close>

definition exponent_part :: "string \<Rightarrow> string \<Rightarrow> int \<Rightarrow> bool" where
  "exponent_part marks text k =
     ((text = [] \<and> k = 0) \<or>
      (\<exists>c \<in> set marks. text = c # FormatInt k \<and> \<bar>k\<bar> \<le> int maxLiteralExponent))"

lemma parseDecimal_ok:
  assumes "sign \<in> {[], ''+'', ''-''}" "list_all is_digit a" "list_all is_digit b" "a @ b \<noteq> []"
    "exponent_part ''eE'' ex k"
  shows "parseDecimalRational (sign @ a @ ''.'' @ b @ ex) =
    Some (RationalOf (sign_of sign * of_nat (dec_val (a @ b)) * 10 powi (k - int (length b))), True)"
proof -
  have ab: "set ''eE'' \<inter> set (a @ CHR ''.'' # b) = {}" "CHR ''.'' \<notin> set a" "CHR ''.'' \<notin> set b"
    using assms(2,3) plain_digits plain_marks by auto
  have sgn: "literal_sign (sign @ a @ ''.'' @ b @ ex) =
      (if sign = ''-'' then ''-'' else [], a @ CHR ''.'' # b @ ex)"
    using literal_sign_digits [OF assms(1), of "a @ CHR ''.'' # b @ ex"] assms(2) by (cases a) auto
  have exp: "(case IndexAny (a @ CHR ''.'' # b @ ex) ''eE'' of
      None \<Rightarrow> (0, a @ CHR ''.'' # b @ ex, True)
    | Some pos \<Rightarrow> case parseLiteralExponent (drop (pos + 1) (a @ CHR ''.'' # b @ ex)) of
        (parsed, ok) \<Rightarrow> (parsed, take pos (a @ CHR ''.'' # b @ ex), ok)) = (k, a @ CHR ''.'' # b, True)"
    using assms(5) unfolding exponent_part_def
  proof
    assume "ex = [] \<and> k = 0"
    then show ?thesis using ab(1) by simp
  next
    assume "\<exists>c \<in> set ''eE''. ex = c # FormatInt k \<and> \<bar>k\<bar> \<le> int maxLiteralExponent"
    then obtain c where c: "c \<in> set ''eE''" "ex = c # FormatInt k" "\<bar>k\<bar> \<le> int maxLiteralExponent" by blast
    then show ?thesis
      using IndexAny_split [OF ab(1) c(1), of "FormatInt k"] by (simp add: parseLiteralExponent_ok)
  qed
  have "list_all is_digit (a @ b)" using assms(2,3) by simp
  note den = denotes_digits [OF this assms(4)] denotes_minus_digits [OF this assms(4)]
  have coefficient: "NormalizeSignedDecimal ((if sign = ''-'' then ''-'' else []) @ a @ b) =
      (FormatInt (if sign = ''-'' then - int (dec_val (a @ b)) else int (dec_val (a @ b))), True)"
    using NormalizeSigned_ok [OF den(1)] NormalizeSigned_ok [OF den(2)] by simp
  show ?thesis
    unfolding parseDecimalRational_def sgn prod.case Let_def
    unfolding exp prod.case split_point_ok [OF ab(2,3)] option.case coefficient NewRational_scaled
    using assms(2-4) by (simp add: sign_of_def)
qed

subsection \<open>Hexadecimal floating-point literals\<close>

lemma FormatUint_16: "FormatUint 16 = ''16''"
  using FormatUint_dec_val [of "''16''"]
  by (simp add: canonical_def is_digit_def dec_val_Cons digit_val_def)

lemma hex_loop_eq: "hex_loop coefficient s = literal_loop 16 coefficient s"
proof (induction s arbitrary: coefficient)
  case Nil
  show ?case by simp
next
  case (Cons c s)
  have "numericDigit c = integerDigit c" by (simp add: numericDigit_def integerDigit_def)
  then show ?case by (simp add: Cons FormatUint_16 Let_def)
qed

lemma hex_loop_ok:
  "hex_loop ''0'' s = Some (if list_all (digit_ok 16) s then Some (FormatUint (base_val 16 0 s)) else None)"
  using literal_loop_eq [of 16 0 s] by (simp add: hex_loop_eq)

lemma digit_ok_marks:
  "list_all (digit_ok 16) s \<Longrightarrow> c \<in> set ''pP./_xi'' \<Longrightarrow> c \<notin> set s"
  by (auto simp: list_all_iff digit_ok_def integerDigit_def)

lemma NewRational_pow2:
  "(if 0 \<le> k
    then do {
      factor \<leftarrow> Pow2UnsignedDecimal k;
      (scaled, ok) \<leftarrow> MultiplySignedDecimal (FormatInt i) factor;
      if \<not> ok then Some (noRational, False) else NewRational scaled ''1''
    }
    else do {
      factor \<leftarrow> Pow2UnsignedDecimal (- k);
      NewRational (FormatInt i) factor
    }) = Some (RationalOf (of_int i * 2 powi k), True)"
proof (cases "0 \<le> k")
  case True
  then show ?thesis
    by (simp add: Pow2Unsigned_eq MultiplySigned_ok NewRational_ok Fract_of_int_eq power_int_def)
next
  case False
  then show ?thesis
    by (simp add: Pow2Unsigned_eq NewRational_ok Fract_of_int_quotient power_int_def field_simps)
qed

lemma parseHex_ok:
  assumes "sign \<in> {[], ''+'', ''-''}" "x \<in> set ''xX''" "p \<in> set ''pP''"
    "list_all (digit_ok 16) a" "list_all (digit_ok 16) b" "a @ b \<noteq> []" "\<bar>k\<bar> \<le> int maxLiteralExponent"
  shows "parseHexRational (sign @ [CHR ''0'', x] @ a @ ''.'' @ b @ p # FormatInt k) =
    Some (RationalOf (sign_of sign * of_nat (base_val 16 0 (a @ b)) * 2 powi (k - int (length b) * 4)), True)"
proof -
  let ?t = "[CHR ''0'', x] @ a @ CHR ''.'' # b" and ?u = "(CHR ''0'' # x # a @ CHR ''.'' # b) @ p # FormatInt k"
  have ab: "CHR ''.'' \<notin> set a" "CHR ''.'' \<notin> set b" "set ''pP'' \<inter> set (CHR ''0'' # x # a @ CHR ''.'' # b) = {}"
    using assms(2,4,5) digit_ok_marks by auto
  have sgn: "literal_sign (sign @ [CHR ''0'', x] @ a @ ''.'' @ b @ p # FormatInt k) =
      (if sign = ''-'' then ''-'' else [], ?u)"
    using literal_sign_digits [OF assms(1), of ?u] by simp
  have at: "IndexAny ?u ''pP'' = Some (length (CHR ''0'' # x # a @ CHR ''.'' # b))"
    using IndexAny_split [OF ab(3) assms(3)] by simp
  have head: "(length ?u < 3 \<or> ?u ! 0 \<noteq> CHR ''0'' \<or> (?u ! 1 \<noteq> CHR ''x'' \<and> ?u ! 1 \<noteq> CHR ''X'')) = False"
    using assms(2) by auto
  have cut: "drop (length (CHR ''0'' # x # a @ CHR ''.'' # b) + 1) ?u = FormatInt k"
    "drop 2 (take (length (CHR ''0'' # x # a @ CHR ''.'' # b)) ?u) = a @ CHR ''.'' # b" by simp_all
  let ?n = "base_val 16 0 (a @ b)"
  have "denotes (CHR ''-'' # FormatUint ?n) (- int ?n)"
    using denotes_minus_digits [OF FormatUint_digits FormatUint_nonempty] by simp
  then have coefficient: "NormalizeSignedDecimal ((if sign = ''-'' then ''-'' else []) @ FormatUint ?n) =
      (FormatInt (if sign = ''-'' then - int ?n else int ?n), True)"
    using NormalizeSigned_ok [of "CHR ''-'' # FormatUint ?n"] by (simp add: NormalizeSigned_ok)
  have digits: "hex_loop ''0'' (a @ b) = Some (Some (FormatUint ?n))"
    using assms(4,5) by (simp add: hex_loop_ok)
  show ?thesis
    unfolding parseHexRational_def sgn prod.case Let_def
    unfolding head if_False at option.case cut parseLiteralExponent_ok [OF assms(7)] prod.case
      split_point_ok [OF ab(1,2)] digits
    using assms(6) unfolding bind.bind_lunit option.case coefficient fst_conv NewRational_pow2
    by (simp add: sign_of_def)
qed

subsection \<open>Every text\<close>

text \<open>The parsers neither panic nor loop, and what they accept is canonical.\<close>

definition canonical_result :: "(Rational \<times> bool) option \<Rightarrow> bool" where
  "canonical_result out = (out = Some (noRational, False) \<or> (\<exists>x. out = Some (RationalOf x, True)))"

lemma canonical_fail [simp]: "canonical_result (Some (noRational, False))"
  by (simp add: canonical_result_def)

lemma canonical_new [simp]: "canonical_result (NewRational n d)"
  using NewRational_result [of n d] by (simp add: canonical_result_def)

lemma canonical_integer [simp]:
  "canonical_result (do {
     (v, ok) \<leftarrow> ParseIntegerLiteral s;
     if \<not> ok then Some (noRational, False) else NewRational (Text v) ''1''
   })"
  by (simp add: ParseInteger_eq split: option.splits)

lemma canonical_product [simp]:
  "canonical_result (do {
     (scaled, ok) \<leftarrow> MultiplySignedDecimal l r;
     if \<not> ok then Some (noRational, False) else NewRational scaled ''1''
   })"
  using dec_mul.total [of l r] by (auto split: prod.splits)

lemma canonical_decimal [simp]: "canonical_result (parseDecimalRational s)"
  by (simp add: parseDecimalRational_def Let_def split: prod.splits option.splits)

lemma canonical_hex [simp]: "canonical_result (parseHexRational s)"
  by (simp add: parseHexRational_def Let_def hex_loop_ok Pow2Unsigned_eq split: prod.splits option.splits)

lemma canonical_literal: "canonical_result (ParseRationalLiteral s)"
  by (simp add: ParseRationalLiteral_def Let_def split: option.splits)

lemma ParseRational_String:
  "ParseRationalLiteral (Rational_String (RationalOf x)) = Some (RationalOf x, True)"
proof (cases "snd (quotient_of x) = 1")
  case True
  then have "of_int (fst (quotient_of x)) = x"
    using quotient_Fract [of x] by (simp add: Fract_of_int_eq [symmetric])
  then show ?thesis
    using True ParseRational_integer [of "fst (quotient_of x)"]
    by (simp add: Rational_String_def FormatInt_def [of 1])
next
  case False
  have "FormatInt (snd (quotient_of x)) \<noteq> ''1''"
    using False FormatInt_inject [of "snd (quotient_of x)" 1] by (simp add: FormatInt_def [of 1])
  then show ?thesis
    using ParseRational_fraction [OF quotient_of_denom_pos', of "fst (quotient_of x)" x]
    by (simp add: Rational_String_def quotient_Fract)
qed

section \<open>Properties of rational constants\<close>

text \<open>
  C25. A rational is built exactly from two integer texts with a denominator other than zero, and
  what is built is the one canonical pair of the fraction: coprime, with a positive denominator.
\<close>

theorem new_rational_canonical:
  "NewRational n d \<noteq> None
   \<and> (NewRational n d = Some (r, True) \<longleftrightarrow>
        (\<exists>i j. denotes n i \<and> denotes d j \<and> j \<noteq> 0 \<and> r = RationalOf (Fract i j)))
   \<and> (NewRational n d = Some (r, False) \<longleftrightarrow>
        r = noRational \<and> (\<nexists>i j. denotes n i \<and> denotes d j \<and> j \<noteq> 0))
   \<and> (\<exists>p q. RationalOf x = \<lparr>Numerator = FormatInt p, Denominator = FormatInt q\<rparr>
        \<and> coprime p q \<and> 0 < q \<and> x = Fract p q)"
proof -
  have "\<exists>p q. RationalOf x = \<lparr>Numerator = FormatInt p, Denominator = FormatInt q\<rparr>
      \<and> coprime p q \<and> 0 < q \<and> x = Fract p q"
    using quotient_Fract [of x] quotient_of_denom_pos' [of x] quotient_of_coprime [of x]
    by (metis RationalOf_def prod.collapse)
  moreover consider i j where "denotes n i" "denotes d j" "j \<noteq> 0"
      "NewRational n d = Some (RationalOf (Fract i j), True)"
    | "\<nexists>i j. denotes n i \<and> denotes d j \<and> j \<noteq> 0" "NewRational n d = Some (noRational, False)"
    using NewRational_ok [of n _ d] NewRational_fail [of n d] by (metis denotes_unique)
  then have "NewRational n d \<noteq> None
   \<and> (NewRational n d = Some (r, True) \<longleftrightarrow>
        (\<exists>i j. denotes n i \<and> denotes d j \<and> j \<noteq> 0 \<and> r = RationalOf (Fract i j)))
   \<and> (NewRational n d = Some (r, False) \<longleftrightarrow>
        r = noRational \<and> (\<nexists>i j. denotes n i \<and> denotes d j \<and> j \<noteq> 0))"
  proof cases
    case 1
    then have "denotes n a \<longleftrightarrow> a = i" "denotes d b \<longleftrightarrow> b = j" for a b using denotes_unique by blast+
    then show ?thesis using 1(3,4) by auto
  next
    case 2
    then show ?thesis by auto
  qed
  ultimately show ?thesis by blast
qed

text \<open>
  C26. On canonical rationals the field operations and the comparison are those of the rational
  numbers, with canonical results; only a division by zero fails.
\<close>

theorem rational_field_exact:
  "NegateRational (RationalOf x) = (RationalOf (- x), True)
   \<and> AddRational (RationalOf x) (RationalOf y) = Some (RationalOf (x + y), True)
   \<and> SubtractRational (RationalOf x) (RationalOf y) = Some (RationalOf (x - y), True)
   \<and> MultiplyRational (RationalOf x) (RationalOf y) = Some (RationalOf (x * y), True)
   \<and> DivideRational (RationalOf x) (RationalOf y) =
       Some (if y = 0 then (noRational, False) else (RationalOf (x / y), True))
   \<and> CompareRational (RationalOf x) (RationalOf y) = Some (if x < y then -1 else if x = y then 0 else 1)"
  by (simp add: NegateRational_ok AddRational_ok SubtractRational_ok MultiplyRational_ok
      DivideRational_ok CompareRational_ok)

text \<open>
  C27. Parsing the printed form of a canonical rational gives it back, whether it prints as an
  integer or as a fraction.
\<close>

theorem rational_roundtrip:
  "ParseRationalLiteral (Rational_String (RationalOf x)) = Some (RationalOf x, True)"
  by (rule ParseRational_String)



text \<open>
  A hexadecimal floating-point literal denotes its digits scaled by the power of two,
  exactly.
\<close>

theorem hex_literal_exact:
  assumes "sign \<in> {[], ''+'', ''-''}" "x \<in> set ''xX''" "p \<in> set ''pP''"
    "list_all (digit_ok 16) a" "list_all (digit_ok 16) b" "a @ b \<noteq> []" "\<bar>k\<bar> \<le> int maxLiteralExponent"
  shows "ParseRationalLiteral (sign @ [CHR ''0'', x] @ a @ ''.'' @ b @ p # FormatInt k) =
    Some (RationalOf (sign_of sign * of_nat (base_val 16 0 (a @ b)) * 2 powi (k - int (length b) * 4)), True)"
proof -
  let ?s = "sign @ [CHR ''0'', x] @ a @ ''.'' @ b @ p # FormatInt k"
  have marks: "c \<notin> set ?s" if "c \<in> set ''_/''" for c
  proof -
    have "c \<notin> set a" "c \<notin> set b" "c \<notin> set (FormatInt k)"
      using that digit_ok_marks [OF assms(4), of c] digit_ok_marks [OF assms(5), of c]
        plain_not_in [OF plain_FormatInt, of c] by auto
    moreover have "c \<notin> set sign" "c \<noteq> x" "c \<noteq> p" using that assms(1-3) by auto
    ultimately show ?thesis using that by auto
  qed
  have "tight_byte (hd ?s)" using assms(1) by (auto simp: tight_byte_def)
  moreover have "last ?s = last (FormatInt k)" by simp
  then have "tight_byte (last ?s)" "last ?s \<noteq> CHR ''i''"
    using last_FormatInt [of k] is_digit_tight by auto
  moreover have "IndexByte ?s CHR ''/'' = None" using marks [of "CHR ''/''"] by simp
  moreover have "ContainsAny ?s ''pP''" using assms(3) by (auto simp: ContainsAny_iff)
  moreover have "?s \<noteq> []" by simp
  ultimately show ?thesis
    using marks [of "CHR ''_''"] parseHex_ok [OF assms] by (simp add: ParseRational_trimmed)
qed

theorem hex_literal_witness:
  "ParseRationalLiteral ([] @ [CHR ''0'', CHR ''x''] @ ''1'' @ ''.'' @ ''8'' @ CHR ''p'' # FormatInt 1) =
    Some (RationalOf 3, True)"
  using hex_literal_exact [of "[]" "CHR ''x''" "CHR ''p''" "''1''" "''8''" 1]
  by (simp add: digit_ok_def integerDigit_def maxLiteralExponent_def sign_of_def base_val_def power_int_def
      power3_eq_cube)

text \<open>
  C29. On any text whatever the literal parser returns, without a panic and without looping, and a
  text it accepts yields a canonical rational.
\<close>

theorem literal_total:
  "ParseRationalLiteral s = Some (noRational, False) \<or> (\<exists>x. ParseRationalLiteral s = Some (RationalOf x, True))"
  using canonical_literal [of s] by (simp add: canonical_result_def)

text \<open>
  A signed hexadecimal integer with a digit \<^verbatim>\<open>e\<close> and no exponent is read by the integer
  parser and refused by the rational parser, which takes the \<^verbatim>\<open>e\<close> for a decimal exponent.
\<close>

theorem signed_hex_e_refused:
  "ParseIntegerLiteral ''-0x1e'' = Some (intLiteral (FormatInt (-30)), True)
   \<and> ParseRationalLiteral ''-0x1e'' = Some (noRational, False)
   \<and> ParseRationalLiteral ''-0x1d'' = Some (RationalOf (-29), True)"
proof -
  have trim: "TrimSpace ''-0x1e'' = ''-0x1e''" "TrimSpace ''-0x1d'' = ''-0x1d''"
    by (rule TrimSpace_tight; simp add: tight_byte_def)+
  have int: "ParseIntegerLiteral ''-0x1e'' = Some (intLiteral (FormatInt (-30)), True)"
    "ParseIntegerLiteral ''-0x1d'' = Some (intLiteral (FormatInt (-29)), True)"
    by (simp_all add: ParseInteger_eq RemoveByte_def trim literal_int_def sign_split_def literal_base_def
        digit_ok_def integerDigit_def base_val_def numeral_2_eq_2)
  have "NewRational (FormatInt (-29)) ''1'' = Some (RationalOf (-29), True)"
    using NewRational_ok [of "FormatInt (-29)" "-29" "''1''" 1] by (simp add: Fract_of_int_quotient)
  then show ?thesis
    using int
    by (simp add: ParseRationalLiteral_def RemoveByte_def trim HasSuffix_def IndexByte_def HasPrefix_def
        ContainsAny_def parseDecimalRational_def literal_sign_def IndexAny_def parseLiteralExponent_def
        intLiteral_def)
qed

end
