(* ===== verification/Const_Value.thy ===== *)
theory Const_Value
  imports Rational
begin

text \<open>
  Constant expressions: the unary and binary operators on exact values of
  \<^verbatim>\<open>compiler/constant/value.go\<close>, complex arithmetic (\<^verbatim>\<open>complex.go\<close>) and the representability of
  a constant in a machine type (\<^verbatim>\<open>representable.go\<close>).

  The quoting of string constants (\<^verbatim>\<open>strconv.Quote\<close> and \<^verbatim>\<open>strconv.Unquote\<close>) depends on the tables
  of printable runes of the Go library: the two functions are arguments of the definitions that
  use them, and what is used of them, that \<open>unquote\<close> inverts \<open>quote\<close>, is a hypothesis of the
  property on strings.
\<close>

section \<open>Construction and inspection\<close>

definition FormatBool :: "bool \<Rightarrow> string" where
  "FormatBool b = (if b then ''true'' else ''false'')"

definition String_value :: "(string \<Rightarrow> string) \<Rightarrow> string \<Rightarrow> string \<Rightarrow> bool \<Rightarrow> Value" where
  "String_value quote text typ untyped =
     \<lparr>Text = quote text, Type = typ, Untyped = untyped, Real = [], Imag = []\<rparr>"

definition Integer_value :: "string \<Rightarrow> string \<Rightarrow> bool \<Rightarrow> Value \<times> bool" where
  "Integer_value text0 typ untyped =
     (let (text, ok) = NormalizeSignedDecimal text0
      in if \<not> ok then (noValue, False)
         else (\<lparr>Text = text, Type = TrimSpace typ, Untyped = untyped, Real = [], Imag = []\<rparr>, True))"

definition Numeric :: "string \<Rightarrow> string \<Rightarrow> bool \<Rightarrow> (Value \<times> bool) option" where
  "Numeric text typ untyped = do {
     (r, ok) \<leftarrow> ParseRationalLiteral text;
     Some (if \<not> ok then (noValue, False)
           else (\<lparr>Text = Rational_String r, Type = TrimSpace typ, Untyped = untyped, Real = [], Imag = []\<rparr>, True))
   }"

definition integerType :: "string \<Rightarrow> bool" where
  "integerType typ =
     (TrimSpace typ \<in> {''Int'', ''Int8'', ''Int16'', ''Int32'', ''Int64'', ''Uint'', ''Uint8'', ''Uint16'',
                        ''Uint32'', ''Uint64'', ''Uintptr'', ''Byte'', ''Rune''})"

definition shiftCount :: "string \<Rightarrow> nat \<times> bool" where
  "shiftCount text0 =
     (let (text, ok) = NormalizeSignedDecimal text0
      in if \<not> ok \<or> HasPrefix text ''-'' then (0, False)
         else case ParseUint text 10 of
                None \<Rightarrow> (0, False)
              | Some v \<Rightarrow> if 4096 < v then (0, False) else (v, True))"

definition Value_Int64 :: "Value \<Rightarrow> (int \<times> bool) option" where
  "Value_Int64 v = do {
     (r, ok) \<leftarrow> ParseRationalLiteral (Text v);
     if \<not> ok then Some (0, False)
     else
       let (integer, whole) = Rational_Integer r
       in Some (if \<not> whole then (0, False) else SignedDecimalInt64 integer)
   }"

section \<open>Unary operators\<close>

definition unary_complex :: "string \<Rightarrow> Value \<Rightarrow> (Value \<times> bool) option" where
  "unary_complex operator v =
     (if operator = ''+'' then Some (v, True)
      else if operator \<noteq> ''-'' then Some (noValue, False)
      else do {
        (realPart, realOK) \<leftarrow> ParseRationalLiteral (Real v);
        (imaginaryPart, imagOK) \<leftarrow> ParseRationalLiteral (Imag v);
        Some (v\<lparr>Real := Rational_String (fst (NegateRational realPart)),
                Imag := Rational_String (fst (NegateRational imaginaryPart))\<rparr>, realOK \<and> imagOK)
      })"

definition unary_integer :: "string \<Rightarrow> Value \<Rightarrow> Value \<times> bool" where
  "unary_integer operator v =
     (let (out, ok) =
        (if operator = ''+'' then NormalizeSignedDecimal (Text v)
         else if operator = ''-'' then NegateSignedDecimal (Text v)
         else if operator = ''^''
         then let (negated, valid) = NegateSignedDecimal (Text v)
              in if valid then SubtractSignedDecimal negated ''1'' else ([], False)
         else ([], False))
      in if \<not> ok then (noValue, False) else (v\<lparr>Text := out\<rparr>, True))"

definition Unary :: "string \<Rightarrow> Value \<Rightarrow> (Value \<times> bool) option" where
  "Unary operator v =
     (if Imag v \<noteq> [] then unary_complex operator v
      else if operator = ''!'' \<and> (Text v = ''true'' \<or> Text v = ''false'')
      then Some (v\<lparr>Text := FormatBool (Text v = ''false'')\<rparr>, True)
      else if operator = ''+'' \<or> operator = ''-''
      then do {
        (r, valid) \<leftarrow> ParseRationalLiteral (Text v);
        if valid
        then let (out, ok) = (if operator = ''-'' then NegateRational r else (r, True))
             in Some (v\<lparr>Text := Rational_String out\<rparr>, ok)
        else Some (unary_integer operator v)
      }
      else Some (unary_integer operator v))"

section \<open>Complex arithmetic\<close>

definition Complex_value :: "Value \<Rightarrow> Value \<Rightarrow> string \<Rightarrow> bool \<Rightarrow> (Value \<times> bool) option" where
  "Complex_value realPart imaginaryPart typ untyped = do {
     (r, rok) \<leftarrow> ParseRationalLiteral (Text realPart);
     (i, iok) \<leftarrow> ParseRationalLiteral (Text imaginaryPart);
     Some (\<lparr>Text = [], Type = typ, Untyped = untyped, Real = Rational_String r, Imag = Rational_String i\<rparr>,
           rok \<and> iok)
   }"

text \<open>
  The switch on the operator: the real and the imaginary part and the flag, an inner \<open>None\<close> for
  the cases that return at once.
\<close>

definition complex_parts ::
  "string \<Rightarrow> Rational \<Rightarrow> Rational \<Rightarrow> Rational \<Rightarrow> Rational \<Rightarrow> (Rational \<times> Rational \<times> bool) option option" where
  "complex_parts operator a b c d =
     (if operator = ''+'' then do {
        (re, _) \<leftarrow> AddRational a c;
        (im, _) \<leftarrow> AddRational b d;
        Some (Some (re, im, True))
      }
      else if operator = ''-'' then do {
        (re, _) \<leftarrow> SubtractRational a c;
        (im, _) \<leftarrow> SubtractRational b d;
        Some (Some (re, im, True))
      }
      else if operator = ''*'' \<or> operator = ''/'' then do {
        (ac, _) \<leftarrow> MultiplyRational a c;
        (bd, _) \<leftarrow> MultiplyRational b d;
        (ad, _) \<leftarrow> MultiplyRational a d;
        (bc, _) \<leftarrow> MultiplyRational b c;
        if operator = ''*'' then do {
          (re, _) \<leftarrow> SubtractRational ac bd;
          (im, _) \<leftarrow> AddRational ad bc;
          Some (Some (re, im, True))
        }
        else do {
          (cc, _) \<leftarrow> MultiplyRational c c;
          (dd, _) \<leftarrow> MultiplyRational d d;
          (denominator, _) \<leftarrow> AddRational cc dd;
          (nr, _) \<leftarrow> AddRational ac bd;
          (ni, _) \<leftarrow> SubtractRational bc ad;
          (re, ok) \<leftarrow> DivideRational nr denominator;
          if \<not> ok then Some None
          else do {
            (im, ok) \<leftarrow> DivideRational ni denominator;
            Some (Some (re, im, ok))
          }
        }
      }
      else Some None)"

definition complexBinary :: "string \<Rightarrow> Value \<Rightarrow> Value \<Rightarrow> (Value \<times> bool) option" where
  "complexBinary operator left0 right0 =
     (let leftComplex = (Imag left0 \<noteq> []);
          left = (if Imag left0 = [] then left0\<lparr>Real := Text left0, Imag := ''0''\<rparr> else left0);
          right = (if Imag right0 = [] then right0\<lparr>Real := Text right0, Imag := ''0''\<rparr> else right0)
      in do {
        (a, aok) \<leftarrow> ParseRationalLiteral (Real left);
        (b, bok) \<leftarrow> ParseRationalLiteral (Imag left);
        (c, cok) \<leftarrow> ParseRationalLiteral (Real right);
        (d, dok) \<leftarrow> ParseRationalLiteral (Imag right);
        if \<not> aok \<or> \<not> bok \<or> \<not> cok \<or> \<not> dok then Some (noValue, False)
        else do {
          parts \<leftarrow> complex_parts operator a b c d;
          case parts of
            None \<Rightarrow> Some (noValue, False)
          | Some (re, im, ok) \<Rightarrow>
              let typ = (if \<not> leftComplex \<or> Untyped left \<and> \<not> Untyped right then Type right else Type left)
              in Some (\<lparr>Text = [], Type = typ, Untyped = Untyped left \<and> Untyped right,
                        Real = Rational_String re, Imag = Rational_String im\<rparr>, ok)
        }
      })"

section \<open>Binary operators\<close>

definition boolValue :: "bool \<Rightarrow> Value" where
  "boolValue b = \<lparr>Text = FormatBool b, Type = ''Bool'', Untyped = True, Real = [], Imag = []\<rparr>"

definition bool_binary :: "string \<Rightarrow> Value \<Rightarrow> Value \<Rightarrow> Value \<times> bool" where
  "bool_binary operator left right =
     (let joined = (\<lambda>b. (left\<lparr>Text := FormatBool b,
                              Type := (if Untyped left \<and> \<not> Untyped right then Type right else Type left),
                              Untyped := Untyped left \<and> Untyped right\<rparr>, True))
      in if operator = ''&&'' then joined (Text left = ''true'' \<and> Text right = ''true'')
         else if operator = ''||'' then joined (Text left = ''true'' \<or> Text right = ''true'')
         else if operator = ''=='' then (boolValue (Text left = Text right), True)
         else if operator = ''!='' then (boolValue (Text left \<noteq> Text right), True)
         else (noValue, False))"

definition comparison_operator :: "string \<Rightarrow> bool" where
  "comparison_operator operator = (operator \<in> {''=='', ''!='', ''<'', ''<='', ''>'', ''>=''})"

definition holds :: "string \<Rightarrow> int \<Rightarrow> bool" where
  "holds operator comparison =
     (if operator = ''=='' then comparison = 0
      else if operator = ''!='' then comparison \<noteq> 0
      else if operator = ''<'' then comparison < 0
      else if operator = ''<='' then comparison \<le> 0
      else if operator = ''>'' then comparison > 0
      else if operator = ''>='' then comparison \<ge> 0
      else False)"

text \<open>The comparison of two values; the inner \<open>None\<close> is a failure.\<close>

definition compare_values ::
  "(string \<Rightarrow> string option) \<Rightarrow> string \<Rightarrow> Value \<Rightarrow> Value \<Rightarrow> int option option" where
  "compare_values unquote operator left right =
     (if kind_of left = ComplexValue \<or> kind_of right = ComplexValue
      then if operator \<noteq> ''=='' \<and> operator \<noteq> ''!='' then Some None
           else do {
             (difference, ok) \<leftarrow> complexBinary ''-'' left right;
             if \<not> ok then Some None
             else do {
               (r, rok) \<leftarrow> ParseRationalLiteral (Real difference);
               (i, iok) \<leftarrow> ParseRationalLiteral (Imag difference);
               Some (if \<not> rok \<or> \<not> iok then None
                     else Some (if Numerator r \<noteq> ''0'' \<or> Numerator i \<noteq> ''0'' then 1 else 0))
             }
           }
      else if kind_of left = StringValue \<and> kind_of right = StringValue
      then Some (case unquote (Text left) of
                   None \<Rightarrow> None
                 | Some l \<Rightarrow> (case unquote (Text right) of None \<Rightarrow> None | Some r \<Rightarrow> Some (Compare l r)))
      else do {
        (l, lok) \<leftarrow> ParseRationalLiteral (Text left);
        (r, rok) \<leftarrow> ParseRationalLiteral (Text right);
        if \<not> lok \<or> \<not> rok then Some None
        else do {
          comparison \<leftarrow> CompareRational l r;
          Some (Some comparison)
        }
      })"

definition compare_binary ::
  "(string \<Rightarrow> string option) \<Rightarrow> string \<Rightarrow> Value \<Rightarrow> Value \<Rightarrow> (Value \<times> bool) option" where
  "compare_binary unquote operator left right = do {
     comparison \<leftarrow> compare_values unquote operator left right;
     Some (case comparison of None \<Rightarrow> (noValue, False) | Some c \<Rightarrow> (boolValue (holds operator c), True))
   }"

definition string_binary ::
  "(string \<Rightarrow> string) \<Rightarrow> (string \<Rightarrow> string option) \<Rightarrow> Value \<Rightarrow> Value \<Rightarrow> Value \<times> bool" where
  "string_binary quote unquote left right =
     (case unquote (Text left) of
        None \<Rightarrow> (noValue, False)
      | Some leftText \<Rightarrow>
          (case unquote (Text right) of
             None \<Rightarrow> (noValue, False)
           | Some rightText \<Rightarrow>
               (String_value quote (leftText @ rightText)
                  (if Untyped left \<and> \<not> Untyped right then Type right else Type left)
                  (Untyped left \<and> Untyped right), True)))"

definition rational_binary :: "string \<Rightarrow> Value \<Rightarrow> Value \<Rightarrow> (Value \<times> bool) option" where
  "rational_binary operator left right = do {
     (leftValue, leftOK) \<leftarrow> ParseRationalLiteral (Text left);
     (rightValue, rightOK) \<leftarrow> ParseRationalLiteral (Text right);
     if \<not> leftOK \<or> \<not> rightOK then Some (noValue, False)
     else do {
       (result, ok) \<leftarrow>
         (if operator = ''+'' then AddRational leftValue rightValue
          else if operator = ''-'' then SubtractRational leftValue rightValue
          else if operator = ''*'' then MultiplyRational leftValue rightValue
          else DivideRational leftValue rightValue);
       Some (if \<not> ok then (noValue, False)
             else (left\<lparr>Text := Rational_String result,
                        Type := (if integerType (Type left) \<and> \<not> integerType (Type right) then Type right
                                 else Type left),
                        Untyped := Untyped left \<and> Untyped right\<rparr>, True))
     }
   }"

text \<open>The last switch of \<^verbatim>\<open>Binary\<close>: the text of the result and the flag.\<close>

definition integer_op :: "string \<Rightarrow> string \<Rightarrow> string \<Rightarrow> (string \<times> bool) option" where
  "integer_op operator left right =
     (if operator = ''+'' then Some (AddSignedDecimal left right)
      else if operator = ''-'' then Some (SubtractSignedDecimal left right)
      else if operator = ''*'' then MultiplySignedDecimal left right
      else if operator = ''/'' then map_option quotient_half (DivideSignedDecimal left right)
      else if operator = ''%'' then map_option remainder_half (DivideSignedDecimal left right)
      else if operator \<in> {''&'', ''|'', ''^'', ''&^''} then BitwiseSignedDecimal operator left right
      else if operator = ''<<'' \<or> operator = ''>>''
      then
        let (shift, valid) = shiftCount right
        in if \<not> valid then Some ([], False)
           else do {
             factor \<leftarrow> Pow2UnsignedDecimal (int shift);
             if operator = ''<<'' then MultiplySignedDecimal left factor
             else do {
               (out, remainder, ok) \<leftarrow> DivideSignedDecimal left factor;
               Some (if ok \<and> HasPrefix left ''-'' \<and> remainder \<noteq> ''0'' then SubtractSignedDecimal out ''1''
                     else (out, ok))
             }
           }
      else Some ([], False))"

definition integer_binary :: "string \<Rightarrow> Value \<Rightarrow> Value \<Rightarrow> (Value \<times> bool) option" where
  "integer_binary operator left right = do {
     (out, ok) \<leftarrow> integer_op operator (Text left) (Text right);
     Some (if \<not> ok then (noValue, False)
           else if operator = ''<<'' \<or> operator = ''>>'' then (left\<lparr>Text := out\<rparr>, True)
           else (left\<lparr>Text := out,
                      Type := (if Untyped left \<and> \<not> Untyped right then Type right else Type left),
                      Untyped := Untyped left \<and> Untyped right\<rparr>, True))
   }"

definition Binary ::
  "(string \<Rightarrow> string) \<Rightarrow> (string \<Rightarrow> string option) \<Rightarrow> string \<Rightarrow> Value \<Rightarrow> Value \<Rightarrow> (Value \<times> bool) option" where
  "Binary quote unquote operator left right =
     (if kind_of left = Boolean \<and> kind_of right = Boolean then Some (bool_binary operator left right)
      else if comparison_operator operator then compare_binary unquote operator left right
      else if Imag left \<noteq> [] \<or> Imag right \<noteq> [] then complexBinary operator left right
      else if operator = ''+'' \<and> HasPrefix (Text left) [CHR 0x22] \<and> HasPrefix (Text right) [CHR 0x22]
      then Some (string_binary quote unquote left right)
      else if operator \<in> {''+'', ''-'', ''*'', ''/''} \<and> (\<not> integerType (Type left) \<or> \<not> integerType (Type right))
      then rational_binary operator left right
      else integer_binary operator left right)"

section \<open>Representability\<close>

definition SignedIntegerBounds :: "int \<Rightarrow> (string \<times> string) option" where
  "SignedIntegerBounds bits =
     (if bits = 8 then Some (''-128'', ''127'')
      else if bits = 16 then Some (''-32768'', ''32767'')
      else if bits = 32 then Some (''-2147483648'', ''2147483647'')
      else if bits = 64 then Some (''-9223372036854775808'', ''9223372036854775807'')
      else if bits \<le> 0 then Some (''0'', ''0'')
      else do {
        maxBase \<leftarrow> Pow2UnsignedDecimal (bits - 1);
        Some (CHR ''-'' # maxBase, fst (SubtractUnsignedDecimal maxBase ''1''))
      })"

definition UnsignedIntegerMax :: "int \<Rightarrow> string option" where
  "UnsignedIntegerMax bits =
     (if bits = 8 then Some ''255''
      else if bits = 16 then Some ''65535''
      else if bits = 32 then Some ''4294967295''
      else if bits = 64 then Some ''18446744073709551615''
      else if bits \<le> 0 then Some ''0''
      else do {
        maxBase \<leftarrow> Pow2UnsignedDecimal bits;
        Some (fst (SubtractUnsignedDecimal maxBase ''1''))
      })"

definition IntegerRepresentable :: "Rational \<Rightarrow> int \<Rightarrow> bool \<Rightarrow> bool option" where
  "IntegerRepresentable r bits signed =
     (let (integer, ok) = Rational_Integer r
      in if \<not> ok \<or> bits < 1 then Some False
         else if signed
         then do {
           (lower, upper) \<leftarrow> SignedIntegerBounds bits;
           Some (CompareSignedDecimal integer lower \<ge> 0 \<and> CompareSignedDecimal integer upper \<le> 0)
         }
         else do {
           upper \<leftarrow> UnsignedIntegerMax bits;
           Some (\<not> HasPrefix integer ''-'' \<and> CompareUnsignedDecimal integer upper \<le> 0)
         })"

definition FloatRepresentable :: "Rational \<Rightarrow> int \<Rightarrow> bool option" where
  "FloatRepresentable r bits =
     (if \<not> Rational_Valid r \<or> bits \<noteq> 32 \<and> bits \<noteq> 64 then Some False
      else
        let (exponent, precision) = (if bits = 32 then (128, 24) else (1024, 53))
        in do {
          large \<leftarrow> Pow2UnsignedDecimal exponent;
          small \<leftarrow> Pow2UnsignedDecimal (exponent - precision - 1);
          (limit, _) \<leftarrow> NewRational (fst (SubtractUnsignedDecimal large small)) ''1'';
          comparison \<leftarrow> CompareRational (r\<lparr>Numerator := TrimPrefix (Numerator r) ''-''\<rparr>) limit;
          Some (comparison < 0)
        })"

section \<open>Complex arithmetic over an exact field\<close>

text \<open>
  What complex arithmetic relies on: a representation of the rationals on which the four
  operations are exact.
\<close>

locale exact_field =
  fixes repr :: "rat \<Rightarrow> 'r"
    and add sub mul quo :: "'r \<Rightarrow> 'r \<Rightarrow> ('r \<times> bool) option"
  assumes add_exact: "add (repr x) (repr y) = Some (repr (x + y), True)"
    and sub_exact: "sub (repr x) (repr y) = Some (repr (x - y), True)"
    and mul_exact: "mul (repr x) (repr y) = Some (repr (x * y), True)"
    and quo_exact: "y \<noteq> 0 \<Longrightarrow> quo (repr x) (repr y) = Some (repr (x / y), True)"
    and quo_zero: "\<exists>z. quo (repr x) (repr 0) = Some (z, False)"
begin

lemma complex_product:
  "do {
     (ac, _) \<leftarrow> mul (repr a) (repr c);
     (bd, _) \<leftarrow> mul (repr b) (repr d);
     (ad, _) \<leftarrow> mul (repr a) (repr d);
     (bc, _) \<leftarrow> mul (repr b) (repr c);
     (re, _) \<leftarrow> sub ac bd;
     (im, _) \<leftarrow> add ad bc;
     Some (re, im)
   } = Some (repr (a * c - b * d), repr (a * d + b * c))"
  by (simp add: add_exact sub_exact mul_exact)

lemma complex_norm:
  "do {
     (cc, _) \<leftarrow> mul (repr c) (repr c);
     (dd, _) \<leftarrow> mul (repr d) (repr d);
     add cc dd
   } = Some (repr (c\<^sup>2 + d\<^sup>2), True)"
  by (simp add: add_exact mul_exact power2_eq_square)

text \<open>The divisor of a complex division is zero only for the divisor zero.\<close>

lemma complex_divides:
  "c \<noteq> 0 \<or> d \<noteq> 0 \<Longrightarrow> quo (repr x) (repr (c\<^sup>2 + d\<^sup>2)) = Some (repr (x / (c\<^sup>2 + d\<^sup>2)), True)"
  by (rule quo_exact) (simp add: sum_power2_eq_zero_iff)

lemma complex_divides_zero: "c = 0 \<and> d = 0 \<Longrightarrow> \<exists>z. quo (repr x) (repr (c\<^sup>2 + d\<^sup>2)) = Some (z, False)"
  using quo_zero by simp

end

interpretation rat_field: exact_field RationalOf AddRational SubtractRational MultiplyRational DivideRational
  by unfold_locales
    (simp_all add: AddRational_ok SubtractRational_ok MultiplyRational_ok DivideRational_ok)

text \<open>The sum, difference, product and quotient of complex numbers, as pairs.\<close>

definition complex_sem :: "string \<Rightarrow> rat \<times> rat \<Rightarrow> rat \<times> rat \<Rightarrow> (rat \<times> rat) option" where
  "complex_sem operator z w =
     (case z of (a, b) \<Rightarrow> case w of (c, d) \<Rightarrow>
        if operator = ''+'' then Some (a + c, b + d)
        else if operator = ''-'' then Some (a - c, b - d)
        else if operator = ''*'' then Some (a * c - b * d, a * d + b * c)
        else if operator = ''/'' \<and> w \<noteq> (0, 0)
        then Some ((a * c + b * d) / (c\<^sup>2 + d\<^sup>2), (b * c - a * d) / (c\<^sup>2 + d\<^sup>2))
        else None)"

lemma complex_parts_ok:
  "complex_parts operator (RationalOf a) (RationalOf b) (RationalOf c) (RationalOf d) =
    Some (case complex_sem operator (a, b) (c, d) of
            None \<Rightarrow> None
          | Some (re, im) \<Rightarrow> Some (RationalOf re, RationalOf im, True))"
proof -
  have norm: "c * c + d * d = c\<^sup>2 + d\<^sup>2" by (simp add: power2_eq_square)
  consider "operator = ''/''" "c \<noteq> 0 \<or> d \<noteq> 0" | "operator = ''/''" "c = 0 \<and> d = 0" | "operator \<noteq> ''/''"
    by blast
  then show ?thesis
  proof cases
    case 1
    then show ?thesis
      using rat_field.complex_divides [OF 1(2)]
      by (auto simp: complex_parts_def complex_sem_def norm AddRational_ok SubtractRational_ok
          MultiplyRational_ok)
  next
    case 2
    then show ?thesis
      by (simp add: complex_parts_def complex_sem_def AddRational_ok SubtractRational_ok
          MultiplyRational_ok DivideRational_ok)
  next
    case 3
    then show ?thesis
      by (simp add: complex_parts_def complex_sem_def AddRational_ok SubtractRational_ok
          MultiplyRational_ok)
  qed
qed

text \<open>That a text is a numeric literal for a rational, and a value a complex number.\<close>

definition reads :: "string \<Rightarrow> rat \<Rightarrow> bool" where
  "reads text x = (ParseRationalLiteral text = Some (RationalOf x, True))"

definition reads_complex :: "Value \<Rightarrow> rat \<times> rat \<Rightarrow> bool" where
  "reads_complex v z =
     (if Imag v = [] then reads (Text v) (fst z) \<and> snd z = 0
      else reads (Real v) (fst z) \<and> reads (Imag v) (snd z))"

lemma reads_unique: "reads s x \<Longrightarrow> reads s y \<Longrightarrow> x = y"
  by (simp add: reads_def)

lemma reads_0: "reads ''0'' 0"
  using ParseRational_integer [of 0] by (simp add: reads_def FormatInt_def)

lemma reads_FormatInt [simp]: "reads (FormatInt i) x \<longleftrightarrow> x = of_int i"
  by (auto simp: reads_def ParseRational_integer)

lemma reads_String [simp]: "reads (Rational_String (RationalOf x)) y \<longleftrightarrow> y = x"
  using ParseRational_String by (auto simp: reads_def)

lemma complexBinary_ok:
  assumes "reads_complex left z" "reads_complex right w"
  shows "complexBinary operator left right = Some
    (case complex_sem operator z w of
       None \<Rightarrow> (noValue, False)
     | Some (re, im) \<Rightarrow>
         (\<lparr>Text = [],
           Type = (if Imag left = [] \<or> Untyped left \<and> \<not> Untyped right then Type right else Type left),
           Untyped = Untyped left \<and> Untyped right,
           Real = Rational_String (RationalOf re), Imag = Rational_String (RationalOf im)\<rparr>, True))"
proof -
  obtain a b c d where zw: "z = (a, b)" "w = (c, d)" by fastforce
  show ?thesis
    using assms reads_0 unfolding zw
    by (auto simp: complexBinary_def reads_complex_def reads_def Let_def complex_parts_ok
        split: option.splits)
qed

section \<open>Integer operators\<close>

definition int_sem :: "string \<Rightarrow> int \<Rightarrow> int \<Rightarrow> int option" where
  "int_sem operator i j =
     (if operator = ''+'' then Some (i + j)
      else if operator = ''-'' then Some (i - j)
      else if operator = ''*'' then Some (i * j)
      else if operator = ''/'' then (if j = 0 then None else Some (quot i j))
      else if operator = ''%'' then (if j = 0 then None else Some (rem i j))
      else if operator = ''<<'' then (if 0 \<le> j \<and> j \<le> 4096 then Some (i * 2 ^ nat j) else None)
      else if operator = ''>>'' then (if 0 \<le> j \<and> j \<le> 4096 then Some (i div 2 ^ nat j) else None)
      else bitwise_sem operator i j)"

lemma shiftCount_ok:
  "shiftCount (FormatInt j) = (if 0 \<le> j \<and> j \<le> 4096 then (nat j, True) else (0, False))"
proof (cases "j < 0")
  case True
  then show ?thesis by (simp add: shiftCount_def)
next
  case False
  then have "FormatInt j = FormatUint (nat j)" by (simp add: FormatInt_def)
  moreover have "4096 < nat j \<longleftrightarrow> 4096 < j" using False by linarith
  ultimately show ?thesis using False by (auto simp: shiftCount_def)
qed

text \<open>A truncated quotient, less one for a negative dividend with a remainder, is the floor.\<close>

lemma shift_right_floor:
  assumes "0 < (m :: int)"
  shows "(if i < 0 \<and> rem i m \<noteq> 0 then quot i m - 1 else quot i m) = i div m"
proof (cases "i < 0")
  case False
  then show ?thesis using assms by (auto simp: quot_def sgn_if)
next
  case True
  then have parts: "quot i m = - (- i div m)" "rem i m = - (- i mod m)"
    using assms by (simp_all add: quot_def rem_def sgn_if)
  show ?thesis
  proof (cases "- i mod m = 0")
    case True
    then obtain k where "- i = m * k" by auto
    then have "i = m * (- k)" by simp
    then have "i div m = - k" using assms by (simp only: nonzero_mult_div_cancel_left)
    then show ?thesis using True parts assms by (simp add: \<open>- i = m * k\<close>)
  next
    case False
    then have "i div m = - (- i div m) - 1"
      using zdiv_zminus1_eq_if [of m "- i"] assms by simp
    then show ?thesis using \<open>i < 0\<close> False parts by simp
  qed
qed

lemma integer_op_ok:
  "integer_op operator (FormatInt i) (FormatInt j) = Some
    (case int_sem operator i j of None \<Rightarrow> ([], False) | Some k \<Rightarrow> (FormatInt k, True))"
proof -
  have arith: "AddSignedDecimal (FormatInt i) (FormatInt j) = (FormatInt (i + j), True)"
    "SubtractSignedDecimal (FormatInt i) (FormatInt j) = (FormatInt (i - j), True)"
    "MultiplySignedDecimal (FormatInt i) (FormatInt j) = Some (FormatInt (i * j), True)"
    by (simp_all add: AddSigned_ok SubtractSigned_ok MultiplySigned_ok)
  have divide: "DivideSignedDecimal (FormatInt i) (FormatInt j) = Some (if j = 0 then ([], [], False)
      else (FormatInt (quot i j), FormatInt (rem i j), True))" for j
    by (simp add: DivideSigned_ok)
  have bits: "BitwiseSignedDecimal operator (FormatInt i) (FormatInt j) =
      Some (case bitwise_sem operator i j of None \<Rightarrow> ([], False) | Some k \<Rightarrow> (FormatInt k, True))"
    by (cases "bitwise_sem operator i j") (simp_all add: dec_bits.accepts dec_bits.undefined_at)
  have one: "SubtractSignedDecimal (FormatInt k) ''1'' = (FormatInt (k - 1), True)" for k
    by (simp add: SubtractSigned_ok)
  have pow: "FormatUint (2 ^ n) = FormatInt (2 ^ n)" for n
    using FormatInt_of_nat [of "2 ^ n"] by simp
  have mul: "MultiplySignedDecimal (FormatInt i) (FormatInt (2 ^ n)) = Some (FormatInt (i * 2 ^ n), True)" for n
    by (simp add: MultiplySigned_ok)
  have shr: "i < 0 \<Longrightarrow> rem i (2 ^ n) \<noteq> 0 \<Longrightarrow> quot i (2 ^ n) - 1 = i div 2 ^ n"
    "(i < 0 \<Longrightarrow> rem i (2 ^ n) = 0) \<Longrightarrow> quot i (2 ^ n) = i div 2 ^ n" for n
    using shift_right_floor [of "2 ^ n" i] by (auto split: if_splits)
  show ?thesis
    by (simp add: integer_op_def int_sem_def arith divide bits one mul shr pow shiftCount_ok quotient_half_def
        remainder_half_def Pow2Unsigned_eq bitwise_sem_def int_operator_def)
qed

lemma FormatInt_Number:
  "FormatInt i \<noteq> ''true''" "FormatInt i \<noteq> ''false''" "hd (FormatInt i) \<noteq> CHR 0x22"
proof -
  have "CHR ''e'' \<notin> set (FormatInt i)" by (rule plain_marks) simp
  moreover have "CHR ''e'' \<in> set ''true''" "CHR ''e'' \<in> set ''false''" by simp_all
  ultimately show "FormatInt i \<noteq> ''true''" "FormatInt i \<noteq> ''false''" by metis+
  have "CHR 0x22 \<notin> set (FormatInt i)" by (rule plain_not_in) (simp_all add: is_digit_def)
  then show "hd (FormatInt i) \<noteq> CHR 0x22" by (metis FormatInt_nonempty hd_in_set)
qed

lemma kind_of_Number [simp]:
  "Imag v = [] \<Longrightarrow> Text v = FormatInt i \<Longrightarrow> kind_of v = Number"
  by (simp add: kind_of_def FormatInt_Number)

section \<open>Well-formed values\<close>

text \<open>
  The values the compiler builds: a boolean, a canonical rational, a quoted string, or a complex
  number with canonical parts and no text.
\<close>

definition wf_value :: "(string \<Rightarrow> string) \<Rightarrow> Value \<Rightarrow> bool" where
  "wf_value quote v =
     (if Imag v = []
      then Text v = ''true'' \<or> Text v = ''false'' \<or> (\<exists>x. Text v = Rational_String (RationalOf x))
        \<or> (\<exists>s. Text v = quote s)
      else Text v = [] \<and> (\<exists>x y. Real v = Rational_String (RationalOf x) \<and> Imag v = Rational_String (RationalOf y)))"

text \<open>An operation that returns, and returns a well-formed value when it succeeds.\<close>

definition wf_result :: "(string \<Rightarrow> string) \<Rightarrow> (Value \<times> bool) option \<Rightarrow> bool" where
  "wf_result quote out = (\<exists>v ok. out = Some (v, ok) \<and> (ok \<longrightarrow> wf_value quote v))"

lemma wf_result_Some [simp]: "wf_result quote (Some (v, ok)) \<longleftrightarrow> (ok \<longrightarrow> wf_value quote v)"
  by (simp add: wf_result_def)

lemma Rational_String_int: "FormatInt i = Rational_String (RationalOf (of_int i))"
  by (simp add: Rational_String_def FormatInt_def [of 1])

lemma wf_int_text: "Imag v = [] \<Longrightarrow> Text v = FormatInt i \<Longrightarrow> wf_value quote v"
  using Rational_String_int by (auto simp: wf_value_def)

lemma wf_bool_text: "Imag v = [] \<Longrightarrow> Text v = FormatBool b \<Longrightarrow> wf_value quote v"
  by (simp add: wf_value_def FormatBool_def)

lemma wf_rational_text: "Imag v = [] \<Longrightarrow> Text v = Rational_String (RationalOf x) \<Longrightarrow> wf_value quote v"
  by (auto simp: wf_value_def)

lemma Rational_String_nonempty [simp]: "Rational_String (RationalOf x) \<noteq> []"
  by (simp add: Rational_String_def)

lemma parse_total:
  obtains r ok where "ParseRationalLiteral s = Some (r, ok)" "ok \<longrightarrow> (\<exists>x. r = RationalOf x)"
  using canonical_literal [of s] by (auto simp: canonical_result_def)

lemma wf_complexBinary: "wf_result quote (complexBinary operator left right)"
proof -
  let ?l = "if Imag left = [] then left\<lparr>Real := Text left, Imag := ''0''\<rparr> else left"
  let ?r = "if Imag right = [] then right\<lparr>Real := Text right, Imag := ''0''\<rparr> else right"
  obtain a aok where a: "ParseRationalLiteral (Real ?l) = Some (a, aok)" "aok \<longrightarrow> (\<exists>x. a = RationalOf x)"
    by (rule parse_total)
  obtain b bok where b: "ParseRationalLiteral (Imag ?l) = Some (b, bok)" "bok \<longrightarrow> (\<exists>x. b = RationalOf x)"
    by (rule parse_total)
  obtain c cok where c: "ParseRationalLiteral (Real ?r) = Some (c, cok)" "cok \<longrightarrow> (\<exists>x. c = RationalOf x)"
    by (rule parse_total)
  obtain d dok where d: "ParseRationalLiteral (Imag ?r) = Some (d, dok)" "dok \<longrightarrow> (\<exists>x. d = RationalOf x)"
    by (rule parse_total)
  note parsed = a(1) b(1) c(1) d(1) and canonical = a(2) b(2) c(2) d(2)
  show ?thesis
  proof (cases "aok \<and> bok \<and> cok \<and> dok")
    case True
    then obtain w x y z where "a = RationalOf w" "b = RationalOf x" "c = RationalOf y" "d = RationalOf z"
      using canonical by blast
    with True show ?thesis
      unfolding complexBinary_def Let_def parsed
      by (auto simp: complex_parts_ok wf_value_def split: option.splits)
  next
    case False
    then show ?thesis unfolding complexBinary_def Let_def parsed by auto
  qed
qed

text \<open>A decimal operation that returns, with the text of an integer when it succeeds.\<close>

definition canonical_text :: "(string \<times> bool) option \<Rightarrow> bool" where
  "canonical_text out = (\<exists>t ok. out = Some (t, ok) \<and> (ok \<longrightarrow> (\<exists>k. t = FormatInt k)))"

lemma canonical_text_ops [simp]:
  "canonical_text (Some (AddSignedDecimal l r))" "canonical_text (Some (SubtractSignedDecimal l r))"
  "canonical_text (MultiplySignedDecimal l r)" "canonical_text (BitwiseSignedDecimal operator l r)"
  "canonical_text (map_option quotient_half (DivideSignedDecimal l r))"
  "canonical_text (map_option remainder_half (DivideSignedDecimal l r))"
  unfolding canonical_text_def
  by (rule dec_add.texts dec_sub.texts dec_mul.texts dec_bits.texts dec_quot.texts dec_rem.texts)+

lemma canonical_text_fail [simp]: "canonical_text (Some ([], False))"
  by (auto simp: canonical_text_def)

lemma canonical_text_shift [simp]:
  "canonical_text (do {
     (out, remainder, ok) \<leftarrow> DivideSignedDecimal l r;
     Some (if ok \<and> HasPrefix l ''-'' \<and> remainder \<noteq> ''0'' then SubtractSignedDecimal out ''1'' else (out, ok))
   })"
proof -
  obtain q m ok where div: "DivideSignedDecimal l r = Some (q, m, ok)" "canonical_text (Some (q, ok))"
    using canonical_text_ops(5) [of l r]
    by (cases "DivideSignedDecimal l r") (auto simp: canonical_text_def quotient_half_def)
  then show ?thesis using canonical_text_ops(2) [of q "''1''"] by simp
qed

lemma integer_op_total: "canonical_text (integer_op operator l r)"
  unfolding integer_op_def by (simp add: Pow2Unsigned_eq Let_def split: prod.split del: HasPrefix_Cons)

lemma wf_integer_binary:
  assumes "Imag left = []"
  shows "wf_result quote (integer_binary operator left right)"
proof -
  obtain out ok where "integer_op operator (Text left) (Text right) = Some (out, ok)"
      "ok \<longrightarrow> (\<exists>k. out = FormatInt k)"
    using integer_op_total [of operator "Text left" "Text right"] by (auto simp: canonical_text_def)
  with assms show ?thesis by (auto simp: integer_binary_def intro: wf_int_text)
qed

lemma wf_rational_binary:
  assumes "Imag left = []"
  shows "wf_result quote (rational_binary operator left right)"
proof -
  obtain a aok where a: "ParseRationalLiteral (Text left) = Some (a, aok)" "aok \<longrightarrow> (\<exists>x. a = RationalOf x)"
    by (rule parse_total)
  obtain b bok where b: "ParseRationalLiteral (Text right) = Some (b, bok)" "bok \<longrightarrow> (\<exists>x. b = RationalOf x)"
    by (rule parse_total)
  show ?thesis
  proof (cases "aok \<and> bok")
    case True
    then obtain x y where "a = RationalOf x" "b = RationalOf y" using a(2) b(2) by blast
    with True a(1) b(1) assms show ?thesis
      by (auto simp: rational_binary_def AddRational_ok SubtractRational_ok MultiplyRational_ok
          DivideRational_ok intro: wf_rational_text)
  next
    case False
    with a(1) b(1) show ?thesis by (auto simp: rational_binary_def)
  qed
qed

lemma compare_values_total: "\<exists>c. compare_values unquote operator left right = Some c"
proof -
  obtain a aok where a: "ParseRationalLiteral (Text left) = Some (a, aok)" "aok \<longrightarrow> (\<exists>x. a = RationalOf x)"
    by (rule parse_total)
  obtain b bok where b: "ParseRationalLiteral (Text right) = Some (b, bok)" "bok \<longrightarrow> (\<exists>x. b = RationalOf x)"
    by (rule parse_total)
  obtain v ok where v: "complexBinary ''-'' left right = Some (v, ok)"
    using wf_complexBinary [of id "''-''" left right] by (auto simp: wf_result_def)
  obtain r rok i iok where ri: "ParseRationalLiteral (Real v) = Some (r, rok)"
      "ParseRationalLiteral (Imag v) = Some (i, iok)"
    by (metis parse_total)
  have numbers: "\<exists>c. (if \<not> aok \<or> \<not> bok then Some None else do { c \<leftarrow> CompareRational a b; Some (Some c) }) = Some c"
    using a(2) b(2) CompareRational_ok by fastforce
  show ?thesis
    unfolding compare_values_def using numbers
    by (simp add: a(1) b(1) v ri)
qed

lemma wf_Binary: "wf_result quote (Binary quote unquote operator left right)"
proof -
  have bool: "wf_value quote (boolValue b)" for b by (rule wf_bool_text) (simp_all add: boolValue_def)
  have "wf_value quote (left\<lparr>Text := FormatBool b, Type := t, Untyped := u\<rparr>)" if "Imag left = []" for b t u
    using that by (intro wf_bool_text) simp_all
  then have "wf_result quote (Some (bool_binary operator left right))" if "Imag left = []"
    using that bool by (simp add: bool_binary_def Let_def)
  moreover have "wf_result quote (compare_binary unquote operator left right)"
    using compare_values_total [of unquote operator left right] bool
    by (auto simp: compare_binary_def split: option.splits)
  moreover have "wf_result quote (Some (string_binary quote unquote left right))"
    by (auto simp: string_binary_def String_value_def wf_value_def split: option.splits)
  moreover have "kind_of left = Boolean \<Longrightarrow> Imag left = []" by (auto simp: kind_of_def split: if_splits)
  ultimately show ?thesis
    by (simp add: Binary_def wf_complexBinary wf_rational_binary wf_integer_binary)
qed

lemma wf_unary_integer:
  assumes "Imag v = []"
  shows "wf_result quote (Some (unary_integer operator v))"
proof (cases "\<exists>i. denotes (Text v) i")
  case True
  then obtain i where i: "denotes (Text v) i" by blast
  have "wf_value quote (v\<lparr>Text := FormatInt k\<rparr>)" for k using assms by (intro wf_int_text) simp_all
  then show ?thesis
    by (simp add: unary_integer_def NormalizeSigned_ok [OF i] NegateSigned_ok [OF i] SubtractSigned_ok)
next
  case False
  then show ?thesis by (simp add: unary_integer_def NormalizeSigned_fail NegateSigned_fail)
qed

lemma wf_Unary:
  assumes "wf_value quote v"
  shows "wf_result quote (Unary operator v)"
proof (cases "Imag v = []")
  case True
  obtain a aok where a: "ParseRationalLiteral (Text v) = Some (a, aok)" "aok \<longrightarrow> (\<exists>x. a = RationalOf x)"
    by (rule parse_total)
  have "wf_result quote (Some (unary_integer operator v))" using True by (rule wf_unary_integer)
  moreover have "wf_value quote (v\<lparr>Text := Rational_String (RationalOf z)\<rparr>)" for z
    using True by (intro wf_rational_text) simp_all
  moreover have "wf_value quote (v\<lparr>Text := FormatBool z\<rparr>)" for z
    using True by (intro wf_bool_text) simp_all
  ultimately show ?thesis
    using True a by (auto simp: Unary_def NegateRational_ok)
next
  case False
  then obtain x y where "Real v = Rational_String (RationalOf x)" "Imag v = Rational_String (RationalOf y)" "Text v = []"
    using assms by (auto simp: wf_value_def)
  then show ?thesis
    using assms False
    by (auto simp: Unary_def unary_complex_def ParseRational_String NegateRational_ok wf_value_def)
qed

section \<open>Bounds of machine types\<close>

lemma sgn_int_bounds: "0 \<le> sgn k \<longleftrightarrow> 0 \<le> k" "sgn k \<le> 0 \<longleftrightarrow> k \<le> 0" for k :: int
  by (simp_all add: sgn_if)

lemma FormatUint_literals:
  "FormatUint 127 = ''127''" "FormatUint 128 = ''128''" "FormatUint 255 = ''255''"
  "FormatUint 32767 = ''32767''" "FormatUint 32768 = ''32768''" "FormatUint 65535 = ''65535''"
  "FormatUint 2147483647 = ''2147483647''" "FormatUint 2147483648 = ''2147483648''"
  "FormatUint 4294967295 = ''4294967295''"
  "FormatUint 9223372036854775807 = ''9223372036854775807''"
  "FormatUint 9223372036854775808 = ''9223372036854775808''"
  "FormatUint 18446744073709551615 = ''18446744073709551615''"
  by (simp_all add: FormatUint.simps digit_char_def char_of_def bit_0)

lemma SubtractUnsigned_pow: "SubtractUnsignedDecimal (FormatUint (2 ^ n)) ''1'' = (FormatUint (2 ^ n - 1), True)"
  using SubtractUnsigned_ok [of "FormatUint (2 ^ n)" "2 ^ n" "FormatUint 1" 1]
    denotes_nat_FormatUint [of "2 ^ n" "2 ^ n"] denotes_nat_FormatUint [of 1 1] by simp

lemma FormatInt_minus_pow: "CHR ''-'' # FormatUint (2 ^ n) = FormatInt (- (2 ^ n))"
  by (simp add: FormatInt_def nat_power_eq)

lemma FormatUint_pow_pred: "FormatUint (2 ^ n - 1) = FormatInt (2 ^ n - 1)"
  using FormatInt_of_nat [of "2 ^ n - 1"] by (simp add: of_nat_diff)

lemma SignedIntegerBounds_ok:
  assumes "1 \<le> bits"
  shows "SignedIntegerBounds bits =
    Some (FormatInt (- (2 ^ nat (bits - 1))), FormatInt (2 ^ nat (bits - 1) - 1))"
proof -
  consider "bits = 8" | "bits = 16" | "bits = 32" | "bits = 64" | "bits \<notin> {8, 16, 32, 64}" by blast
  then show ?thesis
  proof cases
    case 5
    then show ?thesis
      using assms SubtractUnsigned_pow [of "nat (bits - 1)"] FormatUint_pow_pred [of "nat (bits - 1)"]
      by (simp add: SignedIntegerBounds_def Pow2Unsigned_eq FormatInt_minus_pow)
  qed (simp_all add: SignedIntegerBounds_def FormatInt_def FormatUint_literals)
qed

lemma UnsignedIntegerMax_ok:
  assumes "1 \<le> bits"
  shows "UnsignedIntegerMax bits = Some (FormatUint (2 ^ nat bits - 1))"
proof -
  consider "bits = 8" | "bits = 16" | "bits = 32" | "bits = 64" | "bits \<notin> {8, 16, 32, 64}" by blast
  then show ?thesis
  proof cases
    case 5
    then show ?thesis
      using assms SubtractUnsigned_pow [of "nat bits"] by (simp add: UnsignedIntegerMax_def Pow2Unsigned_eq)
  qed (simp_all add: UnsignedIntegerMax_def FormatUint_literals)
qed

lemma Rational_Integer_RationalOf:
  "Rational_Integer (RationalOf x) = (FormatInt (fst (quotient_of x)), x \<in> \<int>)"
proof -
  have "snd (quotient_of x) = 1 \<longleftrightarrow> x \<in> \<int>"
  proof
    assume "snd (quotient_of x) = 1"
    then show "x \<in> \<int>" using quotient_Fract [of x] by (metis Fract_of_int_eq Ints_of_int)
  qed (auto elim!: Ints_cases)
  moreover have "FormatInt k = ''1'' \<longleftrightarrow> k = 1" for k
    using FormatInt_inject [of k 1] by (simp add: FormatInt_def [of 1])
  ultimately show ?thesis by (simp add: Rational_Integer_def)
qed

lemma CompareRational_abs:
  "CompareRational ((RationalOf x)\<lparr>Numerator := TrimPrefix (Numerator (RationalOf x)) ''-''\<rparr>) (RationalOf y) =
    Some (if \<bar>x\<bar> < y then -1 else if \<bar>x\<bar> = y then 0 else 1)"
proof -
  have "quotient_of \<bar>x\<bar> = (\<bar>fst (quotient_of x)\<bar>, snd (quotient_of x))"
    by (simp add: rat_abs_code split: prod.split)
  moreover have "TrimPrefix (Numerator (RationalOf x)) ''-'' = FormatInt \<bar>fst (quotient_of x)\<bar>"
    unfolding RationalOf_sel FormatInt_magnitude by (simp add: FormatInt_def)
  ultimately have "(RationalOf x)\<lparr>Numerator := TrimPrefix (Numerator (RationalOf x)) ''-''\<rparr> = RationalOf \<bar>x\<bar>"
    by (simp add: RationalOf_def del: TrimPrefix_Cons)
  then show ?thesis by (simp only: CompareRational_ok)
qed

section \<open>Properties of constant expressions\<close>

text \<open>
  C10. Integer constant expressions are exact at any size: on canonical operands of integer type
  every operator returns the canonical text of the mathematical result, shifts included, where a
  right shift is the floor; division by zero and shift counts outside 0 to 4096 fail.
\<close>

theorem integer_binary_exact:
  assumes "integerType (Type left)" "integerType (Type right)" "Imag left = []" "Imag right = []"
    "Text left = FormatInt i" "Text right = FormatInt j" "\<not> comparison_operator operator"
  shows "Binary quote unquote operator left right = Some
    (case int_sem operator i j of
       None \<Rightarrow> (noValue, False)
     | Some k \<Rightarrow>
         if operator = ''<<'' \<or> operator = ''>>'' then (left\<lparr>Text := FormatInt k\<rparr>, True)
         else (left\<lparr>Text := FormatInt k,
                    Type := (if Untyped left \<and> \<not> Untyped right then Type right else Type left),
                    Untyped := Untyped left \<and> Untyped right\<rparr>, True))"
  using assms
  by (simp add: Binary_def integer_binary_def integer_op_ok FormatInt_Number split: option.splits)

theorem integer_binary_witness:
  "Binary id Some ''>>'' (intLiteral (FormatInt (-7))) (intLiteral (FormatInt 1)) =
    Some (intLiteral (FormatInt (-4)), True)"
proof -
  have "integerType ''Int''"
    using TrimSpace_tight [of "''Int''"] by (simp add: integerType_def tight_byte_def)
  then show ?thesis
    using integer_binary_exact [of "intLiteral (FormatInt (-7))" "intLiteral (FormatInt 1)" "-7" 1 "''>>''" id Some]
    by (simp add: intLiteral_def comparison_operator_def int_sem_def)
qed

text \<open>
  C30. Comparisons of numeric constants are the order of the rationals, and the result is an
  untyped boolean.
\<close>

theorem comparison_exact:
  assumes "kind_of left = Number" "kind_of right = Number" "reads (Text left) x" "reads (Text right) y"
    "(operator, rel) \<in> {(''=='', x = y), (''!='', x \<noteq> y), (''<'', x < y), (''<='', x \<le> y),
                        (''>'', y < x), (''>='', y \<le> x)}"
  shows "Binary quote unquote operator left right = Some (boolValue rel, True)"
proof -
  have "comparison_operator operator" using assms(5) by (auto simp: comparison_operator_def)
  moreover have "compare_values unquote operator left right =
      Some (Some (if x < y then -1 else if x = y then 0 else 1))"
    using assms(1-4) by (simp add: compare_values_def reads_def CompareRational_ok)
  moreover have "holds operator (if x < y then -1 else if x = y then 0 else 1) = rel"
    using assms(5) by (auto simp: holds_def)
  ultimately show ?thesis using assms(1) by (simp add: Binary_def compare_binary_def)
qed

theorem comparison_witness:
  "Binary id Some ''<'' (intLiteral (FormatInt (-7))) (intLiteral (FormatInt 1)) = Some (boolValue True, True)"
  by (rule comparison_exact [of _ _ "-7" 1]) (simp_all add: intLiteral_def)

text \<open>
  Arithmetic with at least one operand of a type that is no integer type is rational
  arithmetic: the result prints the exact quotient, sum, difference or product.
\<close>

theorem rational_binary_exact:
  assumes "kind_of left = Number" "kind_of right = Number" "reads (Text left) x" "reads (Text right) y"
    "\<not> integerType (Type left) \<or> \<not> integerType (Type right)"
    "(operator, out) \<in> {(''+'', Some (x + y)), (''-'', Some (x - y)), (''*'', Some (x * y)),
                        (''/'', if y = 0 then None else Some (x / y))}"
  shows "Binary quote unquote operator left right = Some
    (case out of
       None \<Rightarrow> (noValue, False)
     | Some z \<Rightarrow>
         (left\<lparr>Text := Rational_String (RationalOf z),
               Type := (if integerType (Type left) then Type right else Type left),
               Untyped := Untyped left \<and> Untyped right\<rparr>, True))"
proof -
  have "Imag left = []" "Imag right = []" "\<not> HasPrefix (Text left) [CHR 0x22]"
    using assms(1,2) by (auto simp: kind_of_def split: if_splits)
  moreover have "\<not> comparison_operator operator" "operator \<in> {''+'', ''-'', ''*'', ''/''}"
    using assms(6) by (auto simp: comparison_operator_def)
  ultimately have "Binary quote unquote operator left right = rational_binary operator left right"
    using assms(1,5) by (auto simp: Binary_def)
  also have "\<dots> = Some (case out of
       None \<Rightarrow> (noValue, False)
     | Some z \<Rightarrow>
         (left\<lparr>Text := Rational_String (RationalOf z),
               Type := (if integerType (Type left) then Type right else Type left),
               Untyped := Untyped left \<and> Untyped right\<rparr>, True))"
    using assms(3-6)
    by (auto simp: rational_binary_def reads_def AddRational_ok SubtractRational_ok MultiplyRational_ok
        DivideRational_ok)
  finally show ?thesis .
qed

theorem rational_binary_witness:
  "Binary id Some ''/'' (intLiteral (FormatInt 1)\<lparr>Type := ''Float64''\<rparr>) (intLiteral (FormatInt 3)) =
    Some (intLiteral (Rational_String (RationalOf (1 / 3)))\<lparr>Type := ''Float64''\<rparr>, True)"
proof -
  have "\<not> integerType ''Float64''"
    using TrimSpace_tight [of "''Float64''"] by (simp add: integerType_def tight_byte_def)
  then show ?thesis
    using rational_binary_exact [of "intLiteral (FormatInt 1)\<lparr>Type := ''Float64''\<rparr>" "intLiteral (FormatInt 3)"
        1 3 "''/''" "Some (1 / 3)" id Some]
    by (simp add: intLiteral_def)
qed

text \<open>
  Complex constants form the field of complex rationals: the four operators return the exact
  real and imaginary parts, mixed real and complex operands included, and only a division by zero
  or an unknown operator fails.
\<close>

theorem complex_binary_exact:
  assumes "reads_complex left z" "reads_complex right w" "Imag left \<noteq> [] \<or> Imag right \<noteq> []"
    "\<not> comparison_operator operator"
  shows "Binary quote unquote operator left right = Some
    (case complex_sem operator z w of
       None \<Rightarrow> (noValue, False)
     | Some (re, im) \<Rightarrow>
         (\<lparr>Text = [],
           Type = (if Imag left = [] \<or> Untyped left \<and> \<not> Untyped right then Type right else Type left),
           Untyped = Untyped left \<and> Untyped right,
           Real = Rational_String (RationalOf re), Imag = Rational_String (RationalOf im)\<rparr>, True))"
proof -
  have "\<not> (kind_of left = Boolean \<and> kind_of right = Boolean)"
    using assms(3) by (auto simp: kind_of_def)
  then have "Binary quote unquote operator left right = complexBinary operator left right"
    using assms(3,4) by (auto simp: Binary_def)
  then show ?thesis using complexBinary_ok [OF assms(1,2)] by simp
qed

theorem complex_binary_witness:
  "\<exists>v. Binary id Some ''*'' (noValue\<lparr>Real := FormatInt 0, Imag := FormatInt 1\<rparr>)
        (noValue\<lparr>Real := FormatInt 0, Imag := FormatInt 1\<rparr>) = Some (v, True)
     \<and> Real v = Rational_String (RationalOf (-1)) \<and> Imag v = Rational_String (RationalOf 0)"
  using complex_binary_exact [of "noValue\<lparr>Real := FormatInt 0, Imag := FormatInt 1\<rparr>" "(0, 1)"
      "noValue\<lparr>Real := FormatInt 0, Imag := FormatInt 1\<rparr>" "(0, 1)" "''*''" id Some]
  by (simp add: reads_complex_def comparison_operator_def complex_sem_def)




text \<open>
  C32. A constant fits an integer type exactly when it is an integer in the range of the type, for
  every width and both signednesses, the tabulated widths included.
\<close>

theorem integer_representable_exact:
  "IntegerRepresentable (RationalOf x) bits is_signed = Some
     (1 \<le> bits \<and> (\<exists>i. x = of_int i \<and>
        (if is_signed then - (2 ^ nat (bits - 1)) \<le> i \<and> i < 2 ^ nat (bits - 1)
         else 0 \<le> i \<and> i < 2 ^ nat bits)))"
proof (cases "1 \<le> bits \<and> x \<in> \<int>")
  case False
  then show ?thesis
    by (auto simp: IntegerRepresentable_def Rational_Integer_RationalOf)
next
  case True
  then obtain i where i: "x = of_int i" by (auto elim: Ints_cases)
  show ?thesis
  proof (cases is_signed)
    case True
    with \<open>1 \<le> bits \<and> x \<in> \<int>\<close> show ?thesis
      by (auto simp: IntegerRepresentable_def Rational_Integer_RationalOf i SignedIntegerBounds_ok
          CompareSigned_ok sgn_int_bounds)
  next
    case False
    have "CompareUnsignedDecimal (FormatInt i) (FormatUint (2 ^ nat bits - 1)) = sgn (i - (2 ^ nat bits - 1))"
      if "0 \<le> i"
      using that CompareUnsigned_ok [of "FormatUint (nat i)" "nat i" "FormatUint (2 ^ nat bits - 1)" "2 ^ nat bits - 1"]
      by (simp add: FormatInt_def of_nat_diff)
    with False \<open>1 \<le> bits \<and> x \<in> \<int>\<close> show ?thesis
      by (cases "0 \<le> i")
        (auto simp: IntegerRepresentable_def Rational_Integer_RationalOf i UnsignedIntegerMax_ok sgn_int_bounds)
  qed
qed

text \<open>
  C33. A constant fits a floating-point type exactly when its magnitude is below the midpoint
  between the largest finite number and the next power of two, where rounding would overflow.
\<close>

theorem float_representable_exact:
  "FloatRepresentable (RationalOf x) bits = Some
     (if bits = 32 then \<bar>x\<bar> < 2 ^ 128 - 2 ^ 103 else bits = 64 \<and> \<bar>x\<bar> < 2 ^ 1024 - 2 ^ 970)"
proof -
  have cut: "SubtractUnsignedDecimal (FormatUint (2 ^ m)) (FormatUint (2 ^ n)) = (FormatUint (2 ^ m - 2 ^ n), True)"
    if "n \<le> m" for m n
    using SubtractUnsigned_ok [of "FormatUint (2 ^ m)" "2 ^ m" "FormatUint (2 ^ n)" "2 ^ n"]
      denotes_nat_FormatUint [of "2 ^ m" "2 ^ m"] denotes_nat_FormatUint [of "2 ^ n" "2 ^ n"]
      that by simp
  have new: "NewRational (FormatUint k) ''1'' = Some (RationalOf (of_nat k), True)" for k
    using NewRational_ok [of "FormatUint k" "int k" "''1''" 1] by (simp add: Fract_of_int_quotient)
  have small: "of_nat (2 ^ 128 - 2 ^ 103) = (2 ^ 128 - 2 ^ 103 :: rat)"
    and large: "of_nat (2 ^ 1024 - 2 ^ 970) = (2 ^ 1024 - 2 ^ 970 :: rat)"
    by (subst of_nat_diff; simp)+
  show ?thesis
    unfolding FloatRepresentable_def Pow2Unsigned_eq
    using cut [of 103 128] cut [of 970 1024] CompareRational_abs [of x] small large
    by (simp add: new del: RationalOf_sel)
qed

text \<open>
  The conversion to a 64-bit integer succeeds exactly on the integers of that range, and
  returns the integer.
\<close>

theorem int64_exact:
  "reads (Text v) x \<longrightarrow> Value_Int64 v = Some
     (if x \<in> \<int> \<and> - (2 ^ 63) \<le> x \<and> x < 2 ^ 63 then (\<lfloor>x\<rfloor>, True) else (0, False))"
proof
  assume r: "reads (Text v) x"
  show "Value_Int64 v = Some
     (if x \<in> \<int> \<and> - (2 ^ 63) \<le> x \<and> x < 2 ^ 63 then (\<lfloor>x\<rfloor>, True) else (0, False))"
  proof (cases "x \<in> \<int>")
    case False
    with r show ?thesis by (simp add: Value_Int64_def reads_def Rational_Integer_RationalOf)
  next
    case True
    then obtain i where i: "x = of_int i" by (auto elim: Ints_cases)
    have "- (2 ^ 63) \<le> x \<longleftrightarrow> - (2 ^ 63) \<le> i" "x < 2 ^ 63 \<longleftrightarrow> i < 2 ^ 63"
      unfolding i by (metis of_int_le_iff of_int_minus of_int_numeral of_int_power)
        (metis of_int_less_iff of_int_numeral of_int_power)
    with r True show ?thesis
      by (simp add: Value_Int64_def reads_def Rational_Integer_RationalOf i SignedDecimalInt64_ok)
  qed
qed

theorem int64_witness: "Value_Int64 (intLiteral (FormatInt (-5))) = Some (-5, True)"
  using int64_exact [of "intLiteral (FormatInt (-5))" "-5"] by (simp add: intLiteral_def)

text \<open>
  Concatenation of string constants concatenates the strings they quote: it needs only that
  \<^verbatim>\<open>strconv.Unquote\<close> inverts \<^verbatim>\<open>strconv.Quote\<close>, and that a quoted string starts with a quote.
\<close>

theorem string_concat_exact:
  assumes "\<And>s. unquote (quote s) = Some s" "\<And>s. HasPrefix (quote s) [CHR 0x22]"
  shows "Binary quote unquote ''+'' (String_value quote s typ untyped) (String_value quote t typ untyped) =
    Some (String_value quote (s @ t) typ untyped, True)"
proof -
  have "kind_of (String_value quote s typ untyped) = StringValue"
    using assms(2) [of s] by (cases "quote s") (auto simp: kind_of_def String_value_def)
  then show ?thesis
    using assms
    by (simp add: Binary_def string_binary_def comparison_operator_def String_value_def)
qed

theorem string_concat_witness:
  "Binary (\<lambda>s. CHR 0x22 # s) (\<lambda>s. Some (tl s)) ''+'' (String_value (\<lambda>s. CHR 0x22 # s) ''ab'' ''String'' True)
     (String_value (\<lambda>s. CHR 0x22 # s) ''c'' ''String'' True) =
    Some (String_value (\<lambda>s. CHR 0x22 # s) ''abc'' ''String'' True, True)"
  using string_concat_exact [of "\<lambda>s. Some (tl s)" "\<lambda>s. CHR 0x22 # s" "''ab''" "''String''" True "''c''"]
  by simp

end
