(* ===== verification/Wire.thy ===== *)
theory Wire
  imports Digits "HOL-Library.Word"
begin

text \<open>
  The MRPC wire primitives, \<^verbatim>\<open>rpc/wire_codec.go\<close>: the encoder appends booleans, varints, floats
  and length-delimited bytes to a payload; the decoder reads them back from an immutable payload
  at an offset, and refuses whatever the encoder could not have written.

  The encoder's methods return the bytes they append.  The decoder's methods are state
  transformers on \<open>wireDecoder\<close> with an error result; after an error no caller reads on, so the
  decoder it leaves behind is not part of the result.  A float is its IEEE bit pattern, an
  \<^verbatim>\<open>int\<close> is 64 bits wide.

  The contract between the two halves is the locale \<open>wire_codec\<close>: reading what was written
  returns it and leaves the rest, and \<open>canonical_codec\<close> adds that nothing else is accepted.
\<close>

unbundle bit_operations_syntax

section \<open>The decoder state\<close>

record wireDecoder =
  payload :: string
  offset :: nat
  limit :: int

type_synonym error = string

type_synonym 'a wire = "wireDecoder \<Rightarrow> error + 'a \<times> wireDecoder"

definition wire_return :: "'a \<Rightarrow> 'a wire" where
  "wire_return x d = Inr (x, d)"

definition wire_fail :: "error \<Rightarrow> 'a wire" where
  "wire_fail e d = Inl e"

definition wire_bind :: "'a wire \<Rightarrow> ('a \<Rightarrow> 'b wire) \<Rightarrow> 'b wire" where
  "wire_bind m f d = (case m d of Inl e \<Rightarrow> Inl e | Inr (x, d') \<Rightarrow> f x d')"

text \<open>The conversion \<^verbatim>\<open>uint64(i)\<close> of an \<^verbatim>\<open>int\<close>.\<close>

definition uint64_of_int :: "int \<Rightarrow> uint64" where
  "uint64_of_int i = nat (i mod 2 ^ 64)"

definition newWireDecoder :: "string \<Rightarrow> int \<Rightarrow> wireDecoder" where
  "newWireDecoder data lim = \<lparr>payload = data, offset = 0, limit = lim\<rparr>"

definition Remaining :: "wireDecoder \<Rightarrow> nat" where
  "Remaining d = length (payload d) - offset d"

definition wire_Done :: "unit wire" where
  "wire_Done d =
     (if Remaining d \<noteq> 0 then Inl (''MRPC payload has '' @ FormatUint (Remaining d) @ '' trailing bytes'')
      else Inr ((), d))"

section \<open>Booleans and varints\<close>

definition enc_Bool :: "bool \<Rightarrow> string" where
  "enc_Bool b = [char_of (if b then 1 else 0 :: nat)]"

text \<open>\<^verbatim>\<open>binary.AppendUvarint\<close>: seven bits a byte, least significant first.\<close>

fun AppendUvarint :: "uint64 \<Rightarrow> string" where
  "AppendUvarint x =
     (if x < 128 then [char_of x] else char_of (x mod 128 + 128) # AppendUvarint (x div 128))"

declare AppendUvarint.simps [simp del]

text \<open>
  \<^verbatim>\<open>binary.Uvarint\<close> from index \<open>i\<close> on: the value and the number of bytes read, which is zero for
  a truncated and negative for an overflowing varint.
\<close>

fun Uvarint_from :: "nat \<Rightarrow> uint64 \<Rightarrow> string \<Rightarrow> uint64 \<times> int" where
  "Uvarint_from i x [] = (0, 0)"
| "Uvarint_from i x (c # s) =
     (let b = byte_val c in
      if i = 10 then (0, - (int i + 1))
      else if b < 128
      then if i = 9 \<and> 1 < b then (0, - (int i + 1)) else (u64 (x OR push_bit (7 * i) b), int i + 1)
      else Uvarint_from (Suc i) (u64 (x OR push_bit (7 * i) (b AND 127))) s)"

definition Uvarint :: "string \<Rightarrow> uint64 \<times> int" where
  "Uvarint s = Uvarint_from 0 0 s"

definition enc_Uint :: "uint64 \<Rightarrow> string" where
  "enc_Uint v = AppendUvarint v"

text \<open>Zig-zag: \<^verbatim>\<open>uint64(value<<1) ^ uint64(value>>63)\<close> and its inverse, on 64-bit words.\<close>

definition zigzag :: "64 word \<Rightarrow> 64 word" where
  "zigzag w = push_bit 1 w XOR signed_drop_bit 63 w"

definition unzigzag :: "64 word \<Rightarrow> 64 word" where
  "unzigzag z = drop_bit 1 z XOR - (z AND 1)"

definition enc_Int :: "int \<Rightarrow> string" where
  "enc_Int v = enc_Uint (unat (zigzag (word_of_int v)))"

definition wire_byte :: "char wire" where
  "wire_byte d =
     (if length (payload d) \<le> offset d then Inl ''truncated MRPC payload''
      else Inr (payload d ! offset d, d\<lparr>offset := offset d + 1\<rparr>))"

definition wire_Bool :: "bool wire" where
  "wire_Bool = wire_bind wire_byte (\<lambda>c.
     if (1 :: nat) < byte_val c then wire_fail (''invalid MRPC bool '' @ FormatUint (byte_val c))
     else wire_return (byte_val c = (1 :: nat)))"

definition wire_Uint :: "uint64 wire" where
  "wire_Uint d =
     (if length (payload d) \<le> offset d then Inl ''truncated MRPC payload''
      else
        let (v, size) = Uvarint (drop (offset d) (payload d)) in
        if size = 0 then Inl ''truncated MRPC varint''
        else if size < 0 then Inl ''overflowing MRPC varint''
        else if int (length (AppendUvarint v)) \<noteq> size
             \<or> take (nat size) (drop (offset d) (payload d)) \<noteq> AppendUvarint v
        then Inl ''non-canonical MRPC varint''
        else Inr (v, d\<lparr>offset := offset d + nat size\<rparr>))"

definition wire_Int :: "int wire" where
  "wire_Int = wire_bind wire_Uint (\<lambda>v. wire_return (sint (unzigzag (word_of_nat v))))"

section \<open>Bytes, strings and floats\<close>

text \<open>\<^verbatim>\<open>fixed\<close>: the next \<open>n\<close> bytes.\<close>

definition wire_fixed :: "nat \<Rightarrow> string wire" where
  "wire_fixed n d =
     (if Remaining d < n then Inl ''truncated MRPC payload''
      else Inr (take n (drop (offset d) (payload d)), d\<lparr>offset := offset d + n\<rparr>))"

text \<open>Little-endian fixed-width numbers.\<close>

fun le_bytes :: "nat \<Rightarrow> nat \<Rightarrow> string" where
  "le_bytes 0 x = []"
| "le_bytes (Suc n) x = char_of (x mod 256) # le_bytes n (x div 256)"

fun le_val :: "string \<Rightarrow> nat" where
  "le_val [] = 0"
| "le_val (c # s) = byte_val c + 256 * le_val s"

type_synonym float32 = nat
type_synonym float64 = nat

definition enc_Float32 :: "float32 \<Rightarrow> string" where
  "enc_Float32 v = le_bytes 4 v"

definition enc_Float64 :: "float64 \<Rightarrow> string" where
  "enc_Float64 v = le_bytes 8 v"

definition enc_Complex64 :: "float32 \<times> float32 \<Rightarrow> string" where
  "enc_Complex64 v = enc_Float32 (fst v) @ enc_Float32 (snd v)"

definition enc_Complex128 :: "float64 \<times> float64 \<Rightarrow> string" where
  "enc_Complex128 v = enc_Float64 (fst v) @ enc_Float64 (snd v)"

definition wire_Float32 :: "float32 wire" where
  "wire_Float32 = wire_bind (wire_fixed 4) (\<lambda>s. wire_return (le_val s))"

definition wire_Float64 :: "float64 wire" where
  "wire_Float64 = wire_bind (wire_fixed 8) (\<lambda>s. wire_return (le_val s))"

definition wire_Complex64 :: "(float32 \<times> float32) wire" where
  "wire_Complex64 = wire_bind wire_Float32 (\<lambda>re. wire_bind wire_Float32 (\<lambda>im. wire_return (re, im)))"

definition wire_Complex128 :: "(float64 \<times> float64) wire" where
  "wire_Complex128 = wire_bind wire_Float64 (\<lambda>re. wire_bind wire_Float64 (\<lambda>im. wire_return (re, im)))"

definition enc_Raw :: "string \<Rightarrow> string" where
  "enc_Raw s = enc_Uint (length s) @ s"

definition enc_String :: "string \<Rightarrow> string" where
  "enc_String s = enc_Uint (length s) @ s"

definition check_length :: "uint64 \<Rightarrow> unit wire" where
  "check_length n d =
     (if uint64_of_int (limit d) < n \<or> Remaining d < n then Inl ''invalid MRPC byte length''
      else Inr ((), d))"

definition wire_rawView :: "string wire" where
  "wire_rawView = wire_bind wire_Uint (\<lambda>n.
     wire_bind (check_length n) (\<lambda>_.
       if n = 0 then wire_return [] else wire_fixed n))"

definition wire_Raw :: "string wire" where
  "wire_Raw = wire_rawView"

text \<open>\<^verbatim>\<open>utf8.Valid\<close>: the length of the well-formed encoding a text starts with, zero if none.\<close>

definition byte_in :: "nat \<Rightarrow> nat \<Rightarrow> char \<Rightarrow> bool" where
  "byte_in lo hi c = (lo \<le> byte_val c \<and> byte_val c \<le> hi)"

definition utf8_size :: "string \<Rightarrow> nat" where
  "utf8_size s =
     (let b = byte_val (hd s) :: nat in
      if b < 128 then 1
      else if 194 \<le> b \<and> b \<le> 223 then if 2 \<le> length s \<and> byte_in 128 191 (s ! 1) then 2 else 0
      else if 224 \<le> b \<and> b \<le> 239
      then if 3 \<le> length s
              \<and> byte_in (if b = 224 then 160 else 128) (if b = 237 then 159 else 191) (s ! 1)
              \<and> byte_in 128 191 (s ! 2) then 3 else 0
      else if 240 \<le> b \<and> b \<le> 244
      then if 4 \<le> length s
              \<and> byte_in (if b = 240 then 144 else 128) (if b = 244 then 143 else 191) (s ! 1)
              \<and> byte_in 128 191 (s ! 2) \<and> byte_in 128 191 (s ! 3) then 4 else 0
      else 0)"

function (sequential) utf8_Valid :: "string \<Rightarrow> bool" where
  "utf8_Valid [] = True"
| "utf8_Valid (c # s) =
     (if utf8_size (c # s) = 0 then False else utf8_Valid (drop (utf8_size (c # s)) (c # s)))"
  by pat_completeness auto
termination
  by (relation "measure length") auto

definition wire_String :: "string wire" where
  "wire_String = wire_bind wire_rawView (\<lambda>s.
     if \<not> utf8_Valid s then wire_fail ''invalid UTF-8 in MRPC string'' else wire_return s)"

section \<open>The contract of a codec\<close>

text \<open>A decoder that has read \<open>pre\<close> and still has \<open>s\<close> ahead.\<close>

definition cur :: "string \<Rightarrow> string \<Rightarrow> int \<Rightarrow> wireDecoder" where
  "cur pre s lim = \<lparr>payload = pre @ s, offset = length pre, limit = lim\<rparr>"

lemma cur_sel [simp]:
  "payload (cur pre s lim) = pre @ s" "offset (cur pre s lim) = length pre" "limit (cur pre s lim) = lim"
  "Remaining (cur pre s lim) = length s"
  by (simp_all add: cur_def Remaining_def)

lemma cur_advance: "(cur pre (s @ t) lim)\<lparr>offset := length pre + length s\<rparr> = cur (pre @ s) t lim"
  by (simp add: cur_def)

lemma cur_inject [simp]: "cur p s l = cur p t m \<longleftrightarrow> s = t \<and> l = m"
  by (simp add: cur_def)

lemma newWireDecoder_cur [codec_simps]: "newWireDecoder data lim = cur [] data lim"
  by (simp add: newWireDecoder_def cur_def)

lemma wire_return_simp [codec_simps]: "wire_return x d = Inr (x, d)"
  by (simp add: wire_return_def)

lemma wire_fail_simp [codec_simps]: "wire_fail e d = Inl e"
  by (simp add: wire_fail_def)

lemmas [codec_simps] = wire_bind_def

lemma wire_bind_iff:
  "wire_bind m f d = Inr (y, d'') \<longleftrightarrow> (\<exists>x d'. m d = Inr (x, d') \<and> f x d' = Inr (y, d''))"
  by (auto simp: wire_bind_def split: sum.splits)

lemma wire_Done_iff [codec_simps]: "wire_Done (cur pre s lim) = Inr (u, d) \<longleftrightarrow> s = [] \<and> d = cur pre s lim"
  by (auto simp: wire_Done_def)

locale wire_codec =
  fixes enc :: "'a \<Rightarrow> string" and dec :: "'a wire" and ok :: "int \<Rightarrow> 'a \<Rightarrow> bool"
  assumes reads_back: "ok lim x \<Longrightarrow> dec (cur pre (enc x @ s) lim) = Inr (x, cur (pre @ enc x) s lim)"
begin

text \<open>No encoding is a proper prefix of another: a payload has at most one reading.\<close>

lemma prefix_free:
  assumes "ok lim x" "ok lim y" "enc x @ s = enc y @ t"
  shows "x = y \<and> s = t"
  using reads_back [OF assms(1), of "[]" s] reads_back [OF assms(2), of "[]" t] assms(3) by auto

lemma injective: "ok lim x \<Longrightarrow> ok lim y \<Longrightarrow> enc x = enc y \<Longrightarrow> x = y"
  using prefix_free [of lim x y "[]" "[]"] by simp

end

locale canonical_codec = wire_codec +
  assumes accepts_only: "dec (cur pre s lim) = Inr (x, d) \<Longrightarrow>
    ok lim x \<and> (\<exists>t. s = enc x @ t \<and> d = cur (pre @ enc x) t lim)"
begin

lemma accepts_iff:
  "dec (cur pre s lim) = Inr (x, d) \<longleftrightarrow> ok lim x \<and> (\<exists>t. s = enc x @ t \<and> d = cur (pre @ enc x) t lim)"
  using accepts_only reads_back by auto

end

section \<open>Varints\<close>

lemma or_push_bit: "x < 2 ^ n \<Longrightarrow> x OR push_bit n b = x + b * 2 ^ n" for x b :: nat
proof -
  assume "x < 2 ^ n"
  then have x: "take_bit n x = x" by (simp add: take_bit_nat_eq_self_iff)
  have "\<not> bit x k \<or> \<not> bit (push_bit n b) k" for k
    using x by (metis bit_push_bit_iff_nat bit_take_bit_iff not_le)
  then have "x + push_bit n b = x OR push_bit n b" by (rule disjunctive_add)
  then show ?thesis by (simp add: push_bit_eq_mult)
qed

lemma varint_index:
  assumes "v * 2 ^ (7 * i) < (2 :: nat) ^ 64" "v \<noteq> 0"
  shows "i \<noteq> 10" "i = 9 \<Longrightarrow> v < 2" "128 \<le> v \<Longrightarrow> i \<noteq> 9"
proof -
  have "(2 :: nat) ^ (7 * i) \<le> v * 2 ^ (7 * i)" using assms(2) by simp
  then have "(2 :: nat) ^ (7 * i) < 2 ^ 64" using assms(1) by (rule le_less_trans)
  then have "7 * i < 64" by (rule power_less_imp_less_exp [rotated]) simp
  then show "i \<noteq> 10" by simp
  show "v < 2" if "i = 9" using assms(1) that by simp
  then show "i \<noteq> 9" if "128 \<le> v" using that by auto
qed

lemma and_127: "(v mod 128 + 128) AND 127 = (v mod 128 :: nat)"
proof -
  have "(127 :: nat) = mask 7" by (simp add: mask_eq_exp_minus_1)
  then have "(v mod 128 + 128) AND 127 = take_bit 7 (v mod 128 + 128)"
    by (simp only: take_bit_eq_mask)
  then show ?thesis by (simp add: take_bit_eq_mod)
qed

lemma Uvarint_from_append:
  assumes "x < 2 ^ (7 * i)" "x + v * 2 ^ (7 * i) < 2 ^ 64" "v \<noteq> 0 \<or> i = 0"
  shows "Uvarint_from i x (AppendUvarint v @ s) = (x + v * 2 ^ (7 * i), int i + int (length (AppendUvarint v)))"
  using assms
proof (induction v arbitrary: i x rule: AppendUvarint.induct)
  case (1 v)
  let ?p = "2 ^ (7 * i) :: nat"
  have "v * ?p < 2 ^ 64" using "1.prems"(2) by (rule le_less_trans [rotated]) simp
  note index = varint_index [OF this]
  show ?case
  proof (cases "v < 128")
    case True
    then have "u64 (x OR push_bit (7 * i) v) = x + v * ?p"
      using "1.prems"(1,2) by (simp add: or_push_bit u64_small)
    then show ?thesis
      using True "1.prems"(3) index by (cases "v = 0") (auto simp: AppendUvarint.simps)
  next
    case False
    let ?x = "x + v mod 128 * ?p"
    have step: "u64 (x OR push_bit (7 * i) ((v mod 128 + 128) AND 127)) = ?x"
    proof -
      have "?x \<le> x + v * ?p" by simp
      then have "?x < 2 ^ 64" using "1.prems"(2) by (rule le_less_trans)
      then show ?thesis using "1.prems"(1) by (simp add: and_127 or_push_bit u64_small)
    qed
    have pow: "2 ^ (7 * Suc i) = 128 * ?p" by (simp add: power_add)
    have val: "?x + v div 128 * 2 ^ (7 * Suc i) = x + v * ?p"
    proof -
      have "v * ?p = (v mod 128 + v div 128 * 128) * ?p" by simp
      also have "\<dots> = v mod 128 * ?p + v div 128 * (128 * ?p)"
        unfolding add_mult_distrib mult.assoc ..
      finally show ?thesis unfolding pow by simp
    qed
    have "?x < 2 ^ (7 * Suc i)"
    proof -
      have "Suc (v mod 128) * ?p \<le> 128 * ?p" by (intro mult_le_mono1) (simp add: Suc_le_eq)
      then have "?p + v mod 128 * ?p \<le> 128 * ?p" by (simp only: mult_Suc)
      then show ?thesis using "1.prems"(1) unfolding pow by linarith
    qed
    then have IH: "Uvarint_from (Suc i) ?x (AppendUvarint (v div 128) @ s) =
        (x + v * ?p, int (Suc i) + int (length (AppendUvarint (v div 128))))"
      using "1.IH" [OF False, of ?x "Suc i"] "1.prems"(2) False unfolding val by simp
    have b: "byte_val (char_of (v mod 128 + 128)) = v mod 128 + 128"
      by (simp add: of_char_of)
    have "i \<noteq> 10" using index(1) False by simp
    then show ?thesis
      using False IH step b by (simp add: AppendUvarint.simps [of v] Let_def)
  qed
qed

lemma Uvarint_append:
  "v < 2 ^ 64 \<Longrightarrow> Uvarint (AppendUvarint v @ s) = (v, int (length (AppendUvarint v)))"
  using Uvarint_from_append [of 0 0 v s] by (simp add: Uvarint_def)

lemma AppendUvarint_nonempty [simp]: "AppendUvarint v \<noteq> []"
  by (simp add: AppendUvarint.simps)

lemma wire_Uint_back:
  "v < 2 ^ 64 \<Longrightarrow> wire_Uint (cur pre (enc_Uint v @ s) lim) = Inr (v, cur (pre @ enc_Uint v) s lim)"
  by (simp add: wire_Uint_def enc_Uint_def Uvarint_append cur_def)

lemma Uvarint_from_bound:
  assumes "\<And>n. u64 n < B"
  shows "fst (Uvarint_from i x s) < B"
proof (induction i x s rule: Uvarint_from.induct)
  case (1 i x)
  show ?case using assms [of 0] by simp
next
  case (2 i x c s)
  show ?case
  proof (cases "i = 10 \<or> byte_val c < (128 :: nat)")
    case True
    have "0 < B" using assms [of 0] by simp
    then show ?thesis using True assms by (auto simp: Let_def)
  next
    case False
    then show ?thesis using "2.IH" [OF refl] by (simp only: Uvarint_from.simps Let_def) simp
  qed
qed

lemma Uvarint_bound: "Uvarint s = (v, n) \<Longrightarrow> v < 2 ^ 64"
  using Uvarint_from_bound [OF u64_bound, of 0 0 s] by (simp add: Uvarint_def)

interpretation uint_codec: canonical_codec enc_Uint wire_Uint "\<lambda>lim v. v < 2 ^ 64"
proof unfold_locales
  fix lim v pre s
  show "v < 2 ^ 64 \<Longrightarrow> wire_Uint (cur pre (enc_Uint v @ s) lim) = Inr (v, cur (pre @ enc_Uint v) s lim)"
    by (rule wire_Uint_back)
next
  fix pre s lim v d
  assume read: "wire_Uint (cur pre s lim) = Inr (v, d)"
  obtain w n where w: "Uvarint s = (w, n)" by fastforce
  with read have v: "w = v" "n = int (length (AppendUvarint v))" "take (nat n) s = AppendUvarint v"
    "d = (cur pre s lim)\<lparr>offset := length pre + nat n\<rparr>"
    by (auto simp: wire_Uint_def split: if_splits)
  then have "s = AppendUvarint v @ drop (nat n) s" by (metis append_take_drop_id)
  moreover from this have "d = cur (pre @ AppendUvarint v) (drop (nat n) s) lim"
    using v cur_advance [of pre "AppendUvarint v" "drop (nat n) s" lim] by simp
  ultimately show "v < 2 ^ 64 \<and> (\<exists>t. s = enc_Uint v @ t \<and> d = cur (pre @ enc_Uint v) t lim)"
    using Uvarint_bound [OF w] v(1) by (auto simp: enc_Uint_def)
qed

section \<open>Zig-zag\<close>

lemma zigzag_bit:
  "bit (zigzag w) 0 \<longleftrightarrow> bit w 63" "Suc n < 64 \<Longrightarrow> bit (zigzag w) (Suc n) \<longleftrightarrow> (bit w n \<noteq> bit w 63)"
  unfolding zigzag_def bit_xor_iff bit_push_bit_iff bit_signed_drop_bit_iff by simp_all

lemma unzigzag_bit:
  assumes "n < 64"
  shows "bit (unzigzag z) n \<longleftrightarrow> ((Suc n < 64 \<and> bit z (Suc n)) \<noteq> bit z 0)"
proof -
  have "z AND 1 = (if bit z 0 then 1 else 0)" by (simp add: and_one_eq bit_0 mod_2_eq_odd)
  then have "bit (- (z AND 1)) n \<longleftrightarrow> bit z 0" using assms by (simp add: bit_minus_1_iff)
  then show ?thesis
    using bit_imp_le_length [of z "Suc n"] by (auto simp: unzigzag_def bit_xor_iff bit_drop_bit_eq)
qed

lemma unzigzag_zigzag [simp]: "unzigzag (zigzag w) = w"
proof (rule bit_word_eqI)
  fix n :: nat
  assume "n < LENGTH(64)"
  then have "n < 64" by simp
  then show "bit (unzigzag (zigzag w)) n = bit w n"
    by (cases "n = 63") (auto simp: unzigzag_bit zigzag_bit)
qed

lemma zigzag_unzigzag [simp]: "zigzag (unzigzag z) = z"
proof (rule bit_word_eqI)
  fix n :: nat
  assume "n < LENGTH(64)"
  then have "n < 64" by simp
  then show "bit (zigzag (unzigzag z)) n = bit z n"
    by (cases n) (auto simp: unzigzag_bit zigzag_bit)
qed

definition int64_ok :: "int \<Rightarrow> int \<Rightarrow> bool" where
  "int64_ok lim v = (- (2 ^ 63) \<le> v \<and> v < 2 ^ 63)"

lemma sint_word_of_int64: "int64_ok lim v \<Longrightarrow> sint (word_of_int v :: 64 word) = v"
  using signed_take_bit_int_eq_self [of 63 v] by (simp add: int64_ok_def signed_of_int)

interpretation int_codec: canonical_codec enc_Int wire_Int int64_ok
proof unfold_locales
  fix lim v pre s
  assume v: "int64_ok lim v"
  have "unat (zigzag (word_of_int v)) < 2 ^ 64" using unsigned_less [of "zigzag (word_of_int v)", where 'a = nat] by simp
  then show "wire_Int (cur pre (enc_Int v @ s) lim) = Inr (v, cur (pre @ enc_Int v) s lim)"
    by (simp add: wire_Int_def enc_Int_def wire_bind_def uint_codec.reads_back wire_return_def
        sint_word_of_int64 [OF v])
next
  fix pre s lim v d
  assume "wire_Int (cur pre s lim) = Inr (v, d)"
  then obtain u t where u: "u < 2 ^ 64" "s = enc_Uint u @ t" "d = cur (pre @ enc_Uint u) t lim"
      "v = sint (unzigzag (word_of_nat u :: 64 word))"
    by (auto simp: wire_Int_def wire_bind_iff wire_return_def uint_codec.accepts_iff)
  have "enc_Int v = enc_Uint u" using u(1,4) by (simp add: enc_Int_def unat_of_nat take_bit_nat_eq_self)
  moreover have "int64_ok lim v"
    using sint_ge [of "unzigzag (word_of_nat u :: 64 word)"] sint_lt [of "unzigzag (word_of_nat u :: 64 word)"]
    by (simp add: int64_ok_def u(4))
  ultimately show "int64_ok lim v \<and> (\<exists>t. s = enc_Int v @ t \<and> d = cur (pre @ enc_Int v) t lim)"
    using u by auto
qed

section \<open>Booleans, bytes, strings and floats\<close>

lemma wire_byte_Cons [codec_simps]: "wire_byte (cur pre (c # s) lim) = Inr (c, cur (pre @ [c]) s lim)"
  by (simp add: wire_byte_def cur_def nth_append)

lemma wire_byte_iff:
  "wire_byte (cur pre s lim) = Inr (c, d) \<longleftrightarrow> (\<exists>t. s = c # t \<and> d = cur (pre @ [c]) t lim)"
  by (cases s) (auto simp: wire_byte_Cons wire_byte_def)

interpretation bool_codec: canonical_codec enc_Bool wire_Bool "\<lambda>lim b. True"
proof unfold_locales
  fix lim b pre s
  show "wire_Bool (cur pre (enc_Bool b @ s) lim) = Inr (b, cur (pre @ enc_Bool b) s lim)"
    by (simp add: wire_Bool_def enc_Bool_def codec_simps)
next
  fix pre s lim b d
  assume "wire_Bool (cur pre s lim) = Inr (b, d)"
  then obtain c t where c: "s = c # t" "byte_val c \<le> (1 :: nat)" "b = (byte_val c = (1 :: nat))" "d = cur (pre @ [c]) t lim"
    by (auto simp: wire_Bool_def wire_bind_iff wire_byte_iff wire_fail_def wire_return_def split: if_splits)
  have "byte_val c = (if b then 1 else 0 :: nat)" using c(2,3) by auto
  then have "c = char_of (if b then 1 else 0 :: nat)" by (metis char_of_char)
  then show "True \<and> (\<exists>t. s = enc_Bool b @ t \<and> d = cur (pre @ enc_Bool b) t lim)"
    using c by (auto simp: enc_Bool_def)
qed

lemma fixed_back: "length x = n \<Longrightarrow> wire_fixed n (cur pre (x @ s) lim) = Inr (x, cur (pre @ x) s lim)"
  by (simp add: wire_fixed_def cur_def Remaining_def)

interpretation fixed_codec: canonical_codec "\<lambda>s. s" "wire_fixed n" "\<lambda>lim s. length s = n" for n
proof unfold_locales
  fix lim pre s and x :: string
  show "length x = n \<Longrightarrow> wire_fixed n (cur pre (x @ s) lim) = Inr (x, cur (pre @ x) s lim)"
    by (rule fixed_back)
next
  fix pre s lim d and x :: string
  assume "wire_fixed n (cur pre s lim) = Inr (x, d)"
  then have x: "x = take n s" "n \<le> length s" "d = (cur pre s lim)\<lparr>offset := length pre + n\<rparr>"
    by (auto simp: wire_fixed_def split: if_splits)
  have "d = cur (pre @ x) (drop n s) lim"
    using x cur_advance [of pre "take n s" "drop n s" lim] by simp
  then show "length x = n \<and> (\<exists>t. s = x @ t \<and> d = cur (pre @ x) t lim)"
    using x by (auto intro!: exI [of _ "drop n s"])
qed

lemma le_bytes_length [simp]: "length (le_bytes n x) = n"
  by (induction n arbitrary: x) simp_all

lemma le_val_bytes: "le_val (le_bytes n x) = x mod 256 ^ n"
proof (induction n arbitrary: x)
  case 0
  show ?case by simp
next
  case (Suc n)
  have "x mod 256 + 256 * (x div 256 mod 256 ^ n) = x mod (256 * 256 ^ n)"
    by (metis add.commute mod_mult2_eq)
  then show ?case by (simp add: Suc)
qed

lemma le_bytes_val: "le_bytes (length s) (le_val s) = s"
  by (induction s) simp_all

lemma le_val_bound: "le_val s < 256 ^ length s"
  by (metis le_bytes_val le_val_bytes mod_less_divisor zero_less_numeral zero_less_power)

interpretation float64_codec: canonical_codec enc_Float64 wire_Float64 "\<lambda>lim v. v < 256 ^ 8"
proof unfold_locales
  fix lim v pre s
  show "v < 256 ^ 8 \<Longrightarrow> wire_Float64 (cur pre (enc_Float64 v @ s) lim) = Inr (v, cur (pre @ enc_Float64 v) s lim)"
    by (simp add: wire_Float64_def enc_Float64_def codec_simps fixed_codec.reads_back le_val_bytes del: le_bytes.simps)
next
  fix pre s lim v d
  assume "wire_Float64 (cur pre s lim) = Inr (v, d)"
  then obtain x t where "length x = 8" "s = x @ t" "d = cur (pre @ x) t lim" "v = le_val x"
    by (auto simp: wire_Float64_def wire_bind_iff wire_return_def fixed_codec.accepts_iff)
  then show "v < 256 ^ 8 \<and> (\<exists>t. s = enc_Float64 v @ t \<and> d = cur (pre @ enc_Float64 v) t lim)"
    using le_bytes_val [of x] le_val_bound [of x] by (auto simp: enc_Float64_def)
qed

interpretation float32_codec: canonical_codec enc_Float32 wire_Float32 "\<lambda>lim v. v < 256 ^ 4"
proof unfold_locales
  fix lim v pre s
  show "v < 256 ^ 4 \<Longrightarrow> wire_Float32 (cur pre (enc_Float32 v @ s) lim) = Inr (v, cur (pre @ enc_Float32 v) s lim)"
    by (simp add: wire_Float32_def enc_Float32_def codec_simps fixed_codec.reads_back le_val_bytes del: le_bytes.simps)
next
  fix pre s lim v d
  assume "wire_Float32 (cur pre s lim) = Inr (v, d)"
  then obtain x t where "length x = 4" "s = x @ t" "d = cur (pre @ x) t lim" "v = le_val x"
    by (auto simp: wire_Float32_def wire_bind_iff wire_return_def fixed_codec.accepts_iff)
  then show "v < 256 ^ 4 \<and> (\<exists>t. s = enc_Float32 v @ t \<and> d = cur (pre @ enc_Float32 v) t lim)"
    using le_bytes_val [of x] le_val_bound [of x] by (auto simp: enc_Float32_def)
qed

text \<open>Reading two parts in a row is a codec for pairs.\<close>

lemma canonical_pair:
  assumes "canonical_codec e1 d1 o1" "canonical_codec e2 d2 o2"
  shows "canonical_codec (\<lambda>v. e1 (fst v) @ e2 (snd v))
    (wire_bind d1 (\<lambda>x. wire_bind d2 (\<lambda>y. wire_return (x, y)))) (\<lambda>lim v. o1 lim (fst v) \<and> o2 lim (snd v))"
proof -
  note again = wire_codec.reads_back [OF canonical_codec.axioms(1)]
  show ?thesis
    by unfold_locales
      (auto simp: wire_bind_def wire_return_def again [OF assms(1)] again [OF assms(2)]
        canonical_codec.accepts_iff [OF assms(1)] canonical_codec.accepts_iff [OF assms(2)] split: sum.splits)
qed

interpretation complex128_codec: canonical_codec enc_Complex128 wire_Complex128
  "\<lambda>lim v. fst v < 256 ^ 8 \<and> snd v < 256 ^ 8"
  using canonical_pair [OF float64_codec.canonical_codec_axioms float64_codec.canonical_codec_axioms]
  by (simp add: enc_Complex128_def [abs_def] wire_Complex128_def)

interpretation complex64_codec: canonical_codec enc_Complex64 wire_Complex64
  "\<lambda>lim v. fst v < 256 ^ 4 \<and> snd v < 256 ^ 4"
  using canonical_pair [OF float32_codec.canonical_codec_axioms float32_codec.canonical_codec_axioms]
  by (simp add: enc_Complex64_def [abs_def] wire_Complex64_def)

definition raw_ok :: "int \<Rightarrow> string \<Rightarrow> bool" where
  "raw_ok lim s = (length s \<le> uint64_of_int lim)"

lemma uint64_of_int_bound: "uint64_of_int i < 2 ^ 64"
  by (simp add: uint64_of_int_def nat_less_iff)

lemma check_length_iff:
  "check_length n (cur pre s lim) = Inr (u, d) \<longleftrightarrow>
    n \<le> uint64_of_int lim \<and> n \<le> length s \<and> d = cur pre s lim"
  by (auto simp: check_length_def)

interpretation raw_codec: canonical_codec enc_Raw wire_rawView raw_ok
proof unfold_locales
  fix lim x pre s
  assume ok: "raw_ok lim x"
  then have "length x < 2 ^ 64" using uint64_of_int_bound [of lim] by (simp add: raw_ok_def)
  then show "wire_rawView (cur pre (enc_Raw x @ s) lim) = Inr (x, cur (pre @ enc_Raw x) s lim)"
    using ok fixed_back [of x "length x" "pre @ enc_Uint (length x)" s lim]
    by (simp add: wire_rawView_def enc_Raw_def codec_simps uint_codec.reads_back check_length_def raw_ok_def)
next
  fix pre s lim x d
  assume "wire_rawView (cur pre s lim) = Inr (x, d)"
  then obtain t where "length x \<le> uint64_of_int lim" "s = enc_Uint (length x) @ x @ t"
      "d = cur (pre @ enc_Uint (length x) @ x) t lim"
    by (auto simp: wire_rawView_def wire_bind_iff uint_codec.accepts_iff check_length_iff wire_return_def
        fixed_codec.accepts_iff split: if_splits)
  then show "raw_ok lim x \<and> (\<exists>t. s = enc_Raw x @ t \<and> d = cur (pre @ enc_Raw x) t lim)"
    by (auto simp: raw_ok_def enc_Raw_def)
qed

definition string_ok :: "int \<Rightarrow> string \<Rightarrow> bool" where
  "string_ok lim s = (raw_ok lim s \<and> utf8_Valid s)"

interpretation string_codec: canonical_codec enc_String wire_String string_ok
proof unfold_locales
  have enc: "enc_String = enc_Raw" by (simp add: enc_String_def [abs_def] enc_Raw_def [abs_def])
  show "string_ok lim x \<Longrightarrow> wire_String (cur pre (enc_String x @ s) lim) = Inr (x, cur (pre @ enc_String x) s lim)"
    for lim x pre s
    by (simp add: wire_String_def enc codec_simps raw_codec.reads_back string_ok_def)
  show "wire_String (cur pre s lim) = Inr (x, d) \<Longrightarrow>
    string_ok lim x \<and> (\<exists>t. s = enc_String x @ t \<and> d = cur (pre @ enc_String x) t lim)" for pre s lim x d
    by (auto simp: wire_String_def enc wire_bind_iff raw_codec.accepts_iff wire_return_def wire_fail_def
        string_ok_def split: if_splits)
qed

lemmas primitives_back [codec_simps] =
  uint_codec.reads_back int_codec.reads_back bool_codec.reads_back fixed_codec.reads_back
  float64_codec.reads_back complex128_codec.reads_back raw_codec.reads_back string_codec.reads_back

lemmas primitives_accept =
  uint_codec.accepts_iff int_codec.accepts_iff bool_codec.accepts_iff fixed_codec.accepts_iff
  float64_codec.accepts_iff complex128_codec.accepts_iff raw_codec.accepts_iff string_codec.accepts_iff

lemma utf8_Valid_ascii: "list_all (\<lambda>c. byte_val c < (128 :: nat)) s \<Longrightarrow> utf8_Valid s"
  by (induction s) (simp_all add: utf8_size_def)

section \<open>Properties of the wire primitives\<close>

text \<open>
  The decoder reads an unsigned, a signed integer or a string exactly from the bytes the
  encoder writes for it: every accepted payload starts with the one encoding of the value, so
  truncated, overlong and overflowing varints and invalid UTF-8 are refused.
\<close>

theorem wire_canonical:
  "(wire_Uint (newWireDecoder data lim) = Inr (u, d) \<longleftrightarrow>
     u < 2 ^ 64 \<and> (\<exists>t. data = enc_Uint u @ t \<and> d = cur (enc_Uint u) t lim))
   \<and> (wire_Int (newWireDecoder data lim) = Inr (i, d) \<longleftrightarrow>
     - (2 ^ 63) \<le> i \<and> i < 2 ^ 63 \<and> (\<exists>t. data = enc_Int i @ t \<and> d = cur (enc_Int i) t lim))
   \<and> (wire_String (newWireDecoder data lim) = Inr (s, d) \<longleftrightarrow>
     length s \<le> uint64_of_int lim \<and> utf8_Valid s \<and> (\<exists>t. data = enc_String s @ t \<and> d = cur (enc_String s) t lim))"
  unfolding newWireDecoder_cur uint_codec.accepts_iff int_codec.accepts_iff string_codec.accepts_iff
  by (simp add: int64_ok_def string_ok_def raw_ok_def)

end
