(* ===== verification/Rpc_Contract.thy ===== *)
theory Rpc_Contract
  imports Wire "HOL-Library.Multiset"
begin

text \<open>
  Methods, contracts, resource references and limits of the MRPC protocol: the types and checks of
  \<^verbatim>\<open>rpc/contract.go\<close>, \<^verbatim>\<open>rpc/resource.go\<close> and \<^verbatim>\<open>rpc/limits.go\<close>, and their encodings in
  \<^verbatim>\<open>rpc/wire_codec.go\<close> and \<^verbatim>\<open>rpc/endpoint_codec.go\<close>.  A pointer is an \<open>option\<close>; a Go map from
  strings to strings is an association list with distinct keys.
\<close>

section \<open>Types\<close>

record Method =
  method_ID :: string
  method_Service :: string
  method_Name :: string
  method_ContractHash :: string
  method_ResourceTypeHash :: string

record Contract =
  contract_Protocol :: string
  contract_Methods :: "Method list"

record ResourceRef =
  ref_Epoch :: uint64
  ref_ObjectID :: uint64
  ref_TypeHash :: string

record Limits =
  MaxFrameBytes :: int
  MaxMessageBytes :: int
  MaxInFlightBytes :: int
  MaxBindings :: int
  MaxPendingCalls :: int
  MaxPendingResults :: int
  MaxPendingControls :: int
  MaxResources :: int
  MaxMethods :: int
  MaxValueDepth :: int
  MaxValueElements :: int

record StatusError =
  status_Code :: string
  status_Message :: string

definition status :: "string \<Rightarrow> string \<Rightarrow> StatusError" where
  "status code message = \<lparr>status_Code = code, status_Message = message\<rparr>"

text \<open>The error text of a \<^verbatim>\<open>StatusError\<close>.\<close>

definition StatusError_Error :: "StatusError \<Rightarrow> string" where
  "StatusError_Error e =
     (if status_Message e = [] then status_Code e else status_Code e @ '': '' @ status_Message e)"

definition CodeProtocol :: string where "CodeProtocol = ''protocol''"
definition CodeInvalidArgument :: string where "CodeInvalidArgument = ''invalid_argument''"
definition CodeResourceExhausted :: string where "CodeResourceExhausted = ''resource_exhausted''"
definition CodeFailedPrecondition :: string where "CodeFailedPrecondition = ''failed_precondition''"
definition CodeUnimplemented :: string where "CodeUnimplemented = ''unimplemented''"

section \<open>Limits\<close>

definition default_limit :: "int \<Rightarrow> int \<Rightarrow> int" where
  "default_limit fallback v = (if v = 0 then fallback else v)"

definition normalizeLimits :: "Limits \<Rightarrow> Limits" where
  "normalizeLimits l =
     l\<lparr>MaxFrameBytes := default_limit (2 ^ 20) (MaxFrameBytes l),
       MaxMessageBytes := default_limit (64 * 2 ^ 20) (MaxMessageBytes l),
       MaxInFlightBytes := default_limit (128 * 2 ^ 20) (MaxInFlightBytes l),
       MaxBindings := default_limit 4096 (MaxBindings l),
       MaxPendingCalls := default_limit 65536 (MaxPendingCalls l),
       MaxPendingResults := default_limit 65536 (MaxPendingResults l),
       MaxPendingControls := default_limit 4096 (MaxPendingControls l),
       MaxResources := default_limit 65536 (MaxResources l),
       MaxMethods := default_limit 4096 (MaxMethods l),
       MaxValueDepth := default_limit 128 (MaxValueDepth l),
       MaxValueElements := default_limit 1000000 (MaxValueElements l)\<rparr>"

section \<open>Contracts\<close>

definition ContractProtocol :: string where
  "ContractProtocol = ''minigo.rpc.contract.v2''"

text \<open>\<^verbatim>\<open>fmt\<close>'s \<^verbatim>\<open>%q\<close> in the messages is an argument, as in the constant package.\<close>

definition validateMethod :: "(string \<Rightarrow> string) \<Rightarrow> Method \<Rightarrow> error option" where
  "validateMethod quote m =
     (if method_ID m = [] \<or> method_Service m = [] \<or> method_Name m = []
         \<or> length (method_ContractHash m) \<noteq> 64
         \<or> method_ID m \<noteq> method_Service m @ ''.'' @ method_Name m
      then Some (''invalid rpc method '' @ quote (method_ID m))
      else if method_ResourceTypeHash m \<noteq> [] \<and> length (method_ResourceTypeHash m) \<noteq> 64
      then Some (''invalid rpc resource method '' @ quote (method_ID m))
      else None)"

text \<open>The loop of \<^verbatim>\<open>normalizeContract\<close>: the methods seen so far, in order.\<close>

fun collect_methods :: "(string \<Rightarrow> string) \<Rightarrow> Method list \<Rightarrow> Method list \<Rightarrow> StatusError + Method list" where
  "collect_methods quote seen [] = Inr seen"
| "collect_methods quote seen (m # ms) =
     (case validateMethod quote m of
        Some e \<Rightarrow> Inl (status CodeInvalidArgument e)
      | None \<Rightarrow>
          if m \<in> set seen then Inl (status CodeInvalidArgument (''duplicate RPC method: '' @ method_ID m))
          else collect_methods quote (seen @ [m]) ms)"

text \<open>The comparison of the sort: by ID, then by contract hash.\<close>

definition method_less :: "Method \<Rightarrow> Method \<Rightarrow> bool" where
  "method_less a b =
     (if method_ID a \<noteq> method_ID b then method_ID a < method_ID b
      else method_ContractHash a < method_ContractHash b)"

fun insert_method :: "Method \<Rightarrow> Method list \<Rightarrow> Method list" where
  "insert_method m [] = [m]"
| "insert_method m (x # xs) = (if method_less x m then x # insert_method m xs else m # x # xs)"

text \<open>
  \<^verbatim>\<open>sort.Slice\<close> leaves the order of equal elements open; the model sorts by insertion.  The
  properties of the sort hold of every sorted permutation.
\<close>

definition sort_methods :: "Method list \<Rightarrow> Method list" where
  "sort_methods ms = foldr insert_method ms []"

definition normalizeContract :: "(string \<Rightarrow> string) \<Rightarrow> Contract \<Rightarrow> int \<Rightarrow> StatusError + Contract" where
  "normalizeContract quote c lim =
     (if contract_Protocol c \<noteq> ContractProtocol
      then Inl (status CodeProtocol ''unsupported RPC contract protocol'')
      else if contract_Methods c = [] then Inl (status CodeInvalidArgument ''RPC contract is empty'')
      else if lim < int (length (contract_Methods c))
      then Inl (status CodeResourceExhausted ''RPC contract limit exceeded'')
      else
        case collect_methods quote [] (contract_Methods c) of
          Inl e \<Rightarrow> Inl e
        | Inr ms \<Rightarrow> Inr \<lparr>contract_Protocol = ContractProtocol, contract_Methods = sort_methods ms\<rparr>)"

definition NormalizeContract :: "(string \<Rightarrow> string) \<Rightarrow> Contract \<Rightarrow> Limits \<Rightarrow> StatusError + Contract" where
  "NormalizeContract quote c l = normalizeContract quote c (MaxMethods (normalizeLimits l))"

text \<open>The loop of \<^verbatim>\<open>CheckMethodSupport\<close>: the first missing method is kept, a mismatch returns at once.\<close>

fun check_required :: "Method list \<Rightarrow> StatusError option \<Rightarrow> Method list \<Rightarrow> StatusError option" where
  "check_required available missing [] = missing"
| "check_required available missing (m # ms) =
     (if m \<in> set available then check_required available missing ms
      else if method_ID m \<in> method_ID ` set available
      then Some (status CodeFailedPrecondition (''RPC method contract does not match: '' @ method_ID m))
      else check_required available
             (if missing = None
              then Some (status CodeUnimplemented (''RPC method is not implemented: '' @ method_ID m))
              else missing) ms)"

definition CheckMethodSupport :: "Method list \<Rightarrow> Method list \<Rightarrow> StatusError option" where
  "CheckMethodSupport available required =
     (if required = [] then None else check_required available None required)"

definition validateResourceRef :: "ResourceRef \<Rightarrow> error option" where
  "validateResourceRef ref =
     (if ref_Epoch ref = 0 \<or> ref_ObjectID ref = 0 \<or> length (ref_TypeHash ref) \<noteq> 64
      then Some ''invalid rpc resource reference'' else None)"

section \<open>Encodings\<close>

text \<open>A repeated element: the loop of a counted list.\<close>

fun wire_repeat :: "nat \<Rightarrow> 'a wire \<Rightarrow> 'a list wire" where
  "wire_repeat 0 m = wire_return []"
| "wire_repeat (Suc n) m = wire_bind m (\<lambda>x. wire_bind (wire_repeat n m) (\<lambda>xs. wire_return (x # xs)))"

text \<open>A pointer: a presence flag and the value.\<close>

definition enc_option :: "('a \<Rightarrow> string) \<Rightarrow> 'a option \<Rightarrow> string" where
  "enc_option enc v = enc_Bool (v \<noteq> None) @ (case v of None \<Rightarrow> [] | Some x \<Rightarrow> enc x)"

definition wire_option :: "'a wire \<Rightarrow> 'a option wire" where
  "wire_option dec = wire_bind wire_Bool (\<lambda>present.
     if \<not> present then wire_return None else wire_bind dec (\<lambda>x. wire_return (Some x)))"

definition encodeWireMethod :: "Method \<Rightarrow> string" where
  "encodeWireMethod m =
     enc_String (method_ID m) @ enc_String (method_Service m) @ enc_String (method_Name m)
       @ enc_String (method_ContractHash m) @ enc_String (method_ResourceTypeHash m)"

definition decodeWireMethod :: "Method wire" where
  "decodeWireMethod =
     wire_bind wire_String (\<lambda>i. wire_bind wire_String (\<lambda>s. wire_bind wire_String (\<lambda>n.
     wire_bind wire_String (\<lambda>c. wire_bind wire_String (\<lambda>r.
       wire_return \<lparr>method_ID = i, method_Service = s, method_Name = n, method_ContractHash = c,
                    method_ResourceTypeHash = r\<rparr>)))))"

definition encode_ref :: "ResourceRef \<Rightarrow> string" where
  "encode_ref r = enc_Uint (ref_Epoch r) @ enc_Uint (ref_ObjectID r) @ enc_String (ref_TypeHash r)"

definition decode_ref :: "ResourceRef wire" where
  "decode_ref =
     wire_bind wire_Uint (\<lambda>e. wire_bind wire_Uint (\<lambda>i. wire_bind wire_String (\<lambda>t.
       wire_return \<lparr>ref_Epoch = e, ref_ObjectID = i, ref_TypeHash = t\<rparr>)))"

definition encodeWireResource :: "ResourceRef option \<Rightarrow> string" where
  "encodeWireResource ref = enc_option encode_ref ref"

definition decodeWireResource :: "ResourceRef option wire" where
  "decodeWireResource = wire_option decode_ref"

definition encode_contract :: "Contract \<Rightarrow> string" where
  "encode_contract c =
     enc_String (contract_Protocol c) @ enc_Uint (length (contract_Methods c))
       @ concat (map encodeWireMethod (contract_Methods c))"

definition decode_contract :: "int \<Rightarrow> Contract wire" where
  "decode_contract maxMethods =
     wire_bind wire_String (\<lambda>p. wire_bind wire_Uint (\<lambda>count.
       if uint64_of_int maxMethods < count then wire_fail ''rpc contract method limit exceeded''
       else wire_bind (wire_repeat count decodeWireMethod) (\<lambda>ms.
              wire_return \<lparr>contract_Protocol = p, contract_Methods = ms\<rparr>)))"

definition encodeWireContract :: "Contract option \<Rightarrow> string" where
  "encodeWireContract c = enc_option encode_contract c"

definition decodeWireContract :: "int \<Rightarrow> Contract option wire" where
  "decodeWireContract maxMethods = wire_option (decode_contract maxMethods)"

type_synonym labels = "(string \<times> string) list"

text \<open>Labels are written in the order of their keys.\<close>

definition encode_label :: "string \<times> string \<Rightarrow> string" where
  "encode_label kv = enc_String (fst kv) @ enc_String (snd kv)"

definition encodeWireLabels :: "labels \<Rightarrow> string" where
  "encodeWireLabels ls = enc_Uint (length ls) @ concat (map encode_label (sort_key fst ls))"

text \<open>The loop of \<^verbatim>\<open>decodeWireLabels\<close>: the labels read so far.\<close>

fun decode_labels :: "nat \<Rightarrow> labels \<Rightarrow> labels wire" where
  "decode_labels 0 seen = wire_return seen"
| "decode_labels (Suc n) seen =
     wire_bind wire_String (\<lambda>k. wire_bind wire_String (\<lambda>v.
       if k = [] then wire_fail ''rpc label has empty key''
       else if k \<in> fst ` set seen then wire_fail ''rpc label is duplicated''
       else decode_labels n (seen @ [(k, v)])))"

definition decodeWireLabels :: "int \<Rightarrow> labels wire" where
  "decodeWireLabels lim = wire_bind wire_Uint (\<lambda>count.
     if uint64_of_int lim < count then wire_fail ''rpc label limit exceeded''
     else if count = 0 then wire_return []
     else decode_labels count [])"

section \<open>Codecs of compound values\<close>

lemma canonical_option:
  assumes "canonical_codec enc dec ok"
  shows "canonical_codec (enc_option enc) (wire_option dec) (\<lambda>lim v. \<forall>x. v = Some x \<longrightarrow> ok lim x)"
proof
  fix lim v pre s
  assume ok: "\<forall>x. v = Some x \<longrightarrow> ok lim x"
  show "wire_option dec (cur pre (enc_option enc v @ s) lim) = Inr (v, cur (pre @ enc_option enc v) s lim)"
    using ok wire_codec.reads_back [OF canonical_codec.axioms(1) [OF assms]]
    by (cases v) (simp_all add: wire_option_def enc_option_def codec_simps)
next
  fix pre s lim v d
  assume "wire_option dec (cur pre s lim) = Inr (v, d)"
  then show "(\<forall>x. v = Some x \<longrightarrow> ok lim x)
      \<and> (\<exists>t. s = enc_option enc v @ t \<and> d = cur (pre @ enc_option enc v) t lim)"
    by (auto simp: wire_option_def enc_option_def wire_bind_iff wire_return_def bool_codec.accepts_iff
        canonical_codec.accepts_iff [OF assms] split: if_splits)
qed

lemma canonical_repeat:
  assumes "canonical_codec enc dec ok"
  shows "canonical_codec (\<lambda>xs. concat (map enc xs)) (wire_repeat n dec) (\<lambda>lim xs. length xs = n \<and> list_all (ok lim) xs)"
proof
  fix lim xs pre s
  show "length xs = n \<and> list_all (ok lim) xs \<Longrightarrow>
      wire_repeat n dec (cur pre (concat (map enc xs) @ s) lim) = Inr (xs, cur (pre @ concat (map enc xs)) s lim)"
    using wire_codec.reads_back [OF canonical_codec.axioms(1) [OF assms]]
    by (induction n arbitrary: xs pre) (auto simp: length_Suc_conv codec_simps)
next
  fix pre s lim xs d
  show "wire_repeat n dec (cur pre s lim) = Inr (xs, d) \<Longrightarrow> (length xs = n \<and> list_all (ok lim) xs)
      \<and> (\<exists>t. s = concat (map enc xs) @ t \<and> d = cur (pre @ concat (map enc xs)) t lim)"
  proof (induction n arbitrary: pre s xs d)
    case 0
    then show ?case by (simp add: wire_return_def)
  next
    case (Suc n)
    then show ?case
      by (fastforce simp: wire_bind_iff wire_return_def canonical_codec.accepts_iff [OF assms])
  qed
qed

definition method_ok :: "int \<Rightarrow> Method \<Rightarrow> bool" where
  "method_ok lim m =
     (string_ok lim (method_ID m) \<and> string_ok lim (method_Service m) \<and> string_ok lim (method_Name m)
      \<and> string_ok lim (method_ContractHash m) \<and> string_ok lim (method_ResourceTypeHash m))"

interpretation method_codec: canonical_codec encodeWireMethod decodeWireMethod method_ok
proof
  fix lim m pre s
  show "method_ok lim m \<Longrightarrow>
      decodeWireMethod (cur pre (encodeWireMethod m @ s) lim) = Inr (m, cur (pre @ encodeWireMethod m) s lim)"
    by (simp add: decodeWireMethod_def encodeWireMethod_def method_ok_def codec_simps)
next
  fix pre s lim m d
  assume "decodeWireMethod (cur pre s lim) = Inr (m, d)"
  then show "method_ok lim m \<and> (\<exists>t. s = encodeWireMethod m @ t \<and> d = cur (pre @ encodeWireMethod m) t lim)"
    by (auto simp: decodeWireMethod_def encodeWireMethod_def method_ok_def wire_bind_iff wire_return_def
        string_codec.accepts_iff)
qed

definition ref_ok :: "int \<Rightarrow> ResourceRef \<Rightarrow> bool" where
  "ref_ok lim r = (ref_Epoch r < 2 ^ 64 \<and> ref_ObjectID r < 2 ^ 64 \<and> string_ok lim (ref_TypeHash r))"

interpretation ref_codec: canonical_codec encode_ref decode_ref ref_ok
proof
  fix lim r pre s
  show "ref_ok lim r \<Longrightarrow> decode_ref (cur pre (encode_ref r @ s) lim) = Inr (r, cur (pre @ encode_ref r) s lim)"
    by (simp add: decode_ref_def encode_ref_def ref_ok_def codec_simps)
next
  fix pre s lim r d
  assume "decode_ref (cur pre s lim) = Inr (r, d)"
  then show "ref_ok lim r \<and> (\<exists>t. s = encode_ref r @ t \<and> d = cur (pre @ encode_ref r) t lim)"
    by (auto simp: decode_ref_def encode_ref_def ref_ok_def wire_bind_iff wire_return_def
        string_codec.accepts_iff uint_codec.accepts_iff)
qed

interpretation resource_codec: canonical_codec encodeWireResource decodeWireResource
  "\<lambda>lim v. \<forall>r. v = Some r \<longrightarrow> ref_ok lim r"
  using canonical_option [OF ref_codec.canonical_codec_axioms]
  by (simp add: encodeWireResource_def [abs_def] decodeWireResource_def)

definition contract_ok :: "int \<Rightarrow> int \<Rightarrow> Contract \<Rightarrow> bool" where
  "contract_ok maxMethods lim c =
     (string_ok lim (contract_Protocol c) \<and> length (contract_Methods c) \<le> uint64_of_int maxMethods
      \<and> list_all (method_ok lim) (contract_Methods c))"

interpretation methods_codec: canonical_codec "\<lambda>ms. concat (map encodeWireMethod ms)"
  "wire_repeat n decodeWireMethod" "\<lambda>lim ms. length ms = n \<and> list_all (method_ok lim) ms" for n
  by (rule canonical_repeat [OF method_codec.canonical_codec_axioms])

lemma contract_canonical: "canonical_codec encode_contract (decode_contract maxMethods) (contract_ok maxMethods)"
proof
  fix lim c pre s
  assume ok: "contract_ok maxMethods lim c"
  then have "length (contract_Methods c) < 2 ^ 64"
    using uint64_of_int_bound [of maxMethods] by (simp add: contract_ok_def)
  with ok show "decode_contract maxMethods (cur pre (encode_contract c @ s) lim) =
      Inr (c, cur (pre @ encode_contract c) s lim)"
    by (simp add: decode_contract_def encode_contract_def contract_ok_def codec_simps methods_codec.reads_back)
next
  fix pre s lim c d
  assume "decode_contract maxMethods (cur pre s lim) = Inr (c, d)"
  then show "contract_ok maxMethods lim c
      \<and> (\<exists>t. s = encode_contract c @ t \<and> d = cur (pre @ encode_contract c) t lim)"
    by (auto simp: decode_contract_def encode_contract_def contract_ok_def wire_bind_iff wire_return_def
        wire_fail_def string_codec.accepts_iff uint_codec.accepts_iff methods_codec.accepts_iff split: if_splits)
qed

interpretation contract_codec: canonical_codec encodeWireContract "decodeWireContract maxMethods"
  "\<lambda>lim v. \<forall>c. v = Some c \<longrightarrow> contract_ok maxMethods lim c" for maxMethods
  using canonical_option [OF contract_canonical]
  by (simp add: encodeWireContract_def [abs_def] decodeWireContract_def)

lemmas compound_back [codec_simps] =
  method_codec.reads_back resource_codec.reads_back contract_codec.reads_back

section \<open>Labels\<close>

definition labels_ok :: "int \<Rightarrow> int \<Rightarrow> labels \<Rightarrow> bool" where
  "labels_ok maxLabels lim ls =
     (length ls \<le> uint64_of_int maxLabels \<and> distinct (map fst ls) \<and> [] \<notin> fst ` set ls
      \<and> list_all (\<lambda>kv. string_ok lim (fst kv) \<and> string_ok lim (snd kv)) ls)"

lemma encode_label_pair: "encode_label (k, v) = enc_String k @ enc_String v"
  by (simp add: encode_label_def)

lemma decode_labels_back:
  assumes "distinct (map fst (seen @ ls))" "[] \<notin> fst ` set ls"
    "list_all (\<lambda>kv. string_ok lim (fst kv) \<and> string_ok lim (snd kv)) ls"
  shows "decode_labels (length ls) seen (cur pre (concat (map encode_label ls) @ s) lim) =
    Inr (seen @ ls, cur (pre @ concat (map encode_label ls)) s lim)"
  using assms
proof (induction ls arbitrary: seen pre)
  case Nil
  show ?case by (simp add: codec_simps)
next
  case (Cons kv ls)
  obtain k v where kv: "kv = (k, v)" by fastforce
  have "decode_labels (length ls) (seen @ [kv])
      (cur (pre @ encode_label kv) (concat (map encode_label ls) @ s) lim) =
      Inr ((seen @ [kv]) @ ls, cur ((pre @ encode_label kv) @ concat (map encode_label ls)) s lim)"
    using Cons.prems by (intro Cons.IH) auto
  then show ?case
    using Cons.prems by (auto simp: kv encode_label_pair codec_simps)
qed

lemma labels_ok_sort: "labels_ok maxLabels lim (sort_key fst ls) = labels_ok maxLabels lim ls"
proof -
  have "mset (map fst (sort_key fst ls)) = mset (map fst ls)" by simp
  then have "distinct (map fst (sort_key fst ls)) = distinct (map fst ls)"
    by (rule mset_eq_imp_distinct_iff)
  then show ?thesis by (simp add: labels_ok_def list_all_iff)
qed

text \<open>Labels come back in the order of their keys: the same map.\<close>

lemma labels_back [codec_simps]:
  assumes "labels_ok maxLabels lim ls"
  shows "decodeWireLabels maxLabels (cur pre (encodeWireLabels ls @ s) lim) =
    Inr (sort_key fst ls, cur (pre @ encodeWireLabels ls) s lim)"
proof -
  have ok: "labels_ok maxLabels lim (sort_key fst ls)" using assms by (simp add: labels_ok_sort)
  have "length ls < 2 ^ 64" using assms uint64_of_int_bound [of maxLabels] by (simp add: labels_ok_def)
  moreover have "decode_labels (length (sort_key fst ls)) []
      (cur (pre @ enc_Uint (length ls)) (concat (map encode_label (sort_key fst ls)) @ s) lim) =
      Inr ([] @ sort_key fst ls,
        cur ((pre @ enc_Uint (length ls)) @ concat (map encode_label (sort_key fst ls))) s lim)"
    using ok by (intro decode_labels_back) (simp_all add: labels_ok_def)
  ultimately show ?thesis
    using assms by (auto simp: decodeWireLabels_def encodeWireLabels_def labels_ok_def codec_simps)
qed

lemma decode_labels_result:
  assumes "decode_labels n seen (cur pre s lim) = Inr (ls, d)" "distinct (map fst seen)"
  shows "\<exists>new t. ls = seen @ new \<and> length new = n \<and> distinct (map fst ls) \<and> [] \<notin> fst ` set new
    \<and> list_all (\<lambda>kv. string_ok lim (fst kv) \<and> string_ok lim (snd kv)) new
    \<and> s = concat (map encode_label new) @ t \<and> d = cur (pre @ concat (map encode_label new)) t lim"
  using assms
proof (induction n arbitrary: seen pre s)
  case 0
  then show ?case by (simp add: wire_return_def)
next
  case (Suc n)
  then obtain k v t where kv: "string_ok lim k" "string_ok lim v" "s = enc_String k @ enc_String v @ t"
      "k \<noteq> []" "k \<notin> fst ` set seen"
      "decode_labels n (seen @ [(k, v)]) (cur (pre @ enc_String k @ enc_String v) t lim) = Inr (ls, d)"
    by (auto simp: wire_bind_iff string_codec.accepts_iff wire_fail_def split: if_splits)
  then obtain new u where "ls = (seen @ [(k, v)]) @ new" "length new = n" "distinct (map fst ls)"
      "[] \<notin> fst ` set new" "list_all (\<lambda>kv. string_ok lim (fst kv) \<and> string_ok lim (snd kv)) new"
      "t = concat (map encode_label new) @ u"
      "d = cur ((pre @ enc_String k @ enc_String v) @ concat (map encode_label new)) u lim"
    using Suc.IH [OF kv(6)] Suc.prems(2) by auto
  with kv show ?case
    by (intro exI [of _ "(k, v) # new"] exI [of _ u]) (auto simp: encode_label_pair)
qed

text \<open>The bytes of labels in a given order; the encoder's order is that of the keys.\<close>

definition label_bytes :: "labels \<Rightarrow> string" where
  "label_bytes ls = enc_Uint (length ls) @ concat (map encode_label ls)"

lemma encodeWireLabels_bytes: "encodeWireLabels ls = label_bytes (sort_key fst ls)"
  by (simp add: encodeWireLabels_def label_bytes_def)

lemma labels_result:
  assumes "decodeWireLabels maxLabels (cur pre s lim) = Inr (ls, d)"
  shows "labels_ok maxLabels lim ls \<and> (\<exists>t. s = label_bytes ls @ t \<and> d = cur (pre @ label_bytes ls) t lim)"
proof -
  obtain count t where count: "count < 2 ^ 64" "s = enc_Uint count @ t"
      and loop: "(if uint64_of_int maxLabels < count then wire_fail ''rpc label limit exceeded''
        else if count = 0 then wire_return [] else decode_labels count [])
          (cur (pre @ enc_Uint count) t lim) = Inr (ls, d)"
    using assms unfolding decodeWireLabels_def wire_bind_iff uint_codec.accepts_iff by blast
  have bound: "count \<le> uint64_of_int maxLabels" using loop by (auto simp: wire_fail_def split: if_splits)
  have "decode_labels count [] (cur (pre @ enc_Uint count) t lim) = Inr (ls, d)"
    using loop bound by (cases "count = 0") simp_all
  from decode_labels_result [OF this] obtain u where "length ls = count" "distinct (map fst ls)"
      "[] \<notin> fst ` set ls" "list_all (\<lambda>kv. string_ok lim (fst kv) \<and> string_ok lim (snd kv)) ls"
      "t = concat (map encode_label ls) @ u" "d = cur ((pre @ enc_Uint count) @ concat (map encode_label ls)) u lim"
    by auto
  with count bound show ?thesis by (auto simp: labels_ok_def label_bytes_def)
qed

section \<open>Contracts in normal form\<close>

lemma collect_methods_iff:
  "collect_methods quote seen ms = Inr out \<longleftrightarrow>
    out = seen @ ms \<and> (\<forall>m \<in> set ms. validateMethod quote m = None) \<and> distinct ms \<and> set seen \<inter> set ms = {}"
  by (induction ms arbitrary: seen) (auto split: option.splits)

lemma method_less_irrefl [simp]: "\<not> method_less m m"
  by (simp add: method_less_def)

lemma method_less_trans: "method_less a b \<Longrightarrow> method_less b c \<Longrightarrow> method_less a c"
  by (auto simp: method_less_def split: if_splits)

lemma method_le_trans: "\<not> method_less b a \<Longrightarrow> \<not> method_less c b \<Longrightarrow> \<not> method_less c a"
  by (auto simp: method_less_def split: if_splits)

lemma mset_insert_method [simp]: "mset (insert_method m ms) = add_mset m (mset ms)"
  by (induction ms) auto

lemma set_insert_method [simp]: "set (insert_method m ms) = insert m (set ms)"
  by (induction ms) auto

abbreviation methods_sorted :: "Method list \<Rightarrow> bool" where
  "methods_sorted ms \<equiv> sorted_wrt (\<lambda>a b. \<not> method_less b a) ms"

lemma sorted_insert_method: "methods_sorted ms \<Longrightarrow> methods_sorted (insert_method m ms)"
proof (induction ms)
  case Nil
  show ?case by simp
next
  case (Cons x xs)
  have "\<not> method_less y m" if "\<not> method_less x m" "y \<in> set xs" for y
    using Cons.prems that method_le_trans [of x m y] by auto
  moreover have "\<not> method_less m x" if "method_less x m" using that method_less_trans [of x m x] by auto
  ultimately show ?case using Cons by auto
qed

lemma sort_methods_props:
  "mset (sort_methods ms) = mset ms" "methods_sorted (sort_methods ms)" "set (sort_methods ms) = set ms"
  unfolding sort_methods_def by (induction ms) (auto simp: sorted_insert_method)

lemma insert_method_head: "methods_sorted (m # ms) \<Longrightarrow> insert_method m ms = m # ms"
  by (cases ms) auto

lemma sort_methods_sorted: "methods_sorted ms \<Longrightarrow> sort_methods ms = ms"
  unfolding sort_methods_def by (induction ms) (simp_all add: insert_method_head)

lemma sort_methods_unique:
  assumes "methods_sorted a" "methods_sorted b" "mset a = mset b"
    "\<forall>x \<in> set a. \<forall>y \<in> set a. \<not> method_less x y \<longrightarrow> \<not> method_less y x \<longrightarrow> x = y"
  shows "a = b"
  using assms
proof (induction a arbitrary: b)
  case Nil
  then show ?case by simp
next
  case (Cons x a)
  then obtain y b' where b: "b = y # b'" by (cases b) auto
  have sets: "set (x # a) = set (y # b')" using Cons.prems(3) b by (metis set_mset_mset)
  have "\<not> method_less y x"
    using Cons.prems(1) sets by (metis list.set_intros(1) method_less_irrefl set_ConsD sorted_wrt.simps(2))
  moreover have "\<not> method_less x y"
    using Cons.prems(2) sets b by (metis list.set_intros(1) method_less_irrefl set_ConsD sorted_wrt.simps(2))
  ultimately have "x = y"
    using Cons.prems(4) sets by (metis list.set_intros(1))
  then show ?case using Cons b by auto
qed

lemma normalizeContract_iff:
  "normalizeContract quote c lim = Inr out \<longleftrightarrow>
    contract_Protocol c = ContractProtocol \<and> contract_Methods c \<noteq> [] \<and> int (length (contract_Methods c)) \<le> lim
    \<and> (\<forall>m \<in> set (contract_Methods c). validateMethod quote m = None) \<and> distinct (contract_Methods c)
    \<and> out = \<lparr>contract_Protocol = ContractProtocol, contract_Methods = sort_methods (contract_Methods c)\<rparr>"
proof -
  let ?ms = "contract_Methods c"
  let ?ok = "(\<forall>m \<in> set ?ms. validateMethod quote m = None) \<and> distinct ?ms"
  have ok: "collect_methods quote [] ?ms = Inr ?ms" if ?ok
    using that collect_methods_iff [of quote "[]" ?ms ?ms] by simp
  have bad: "\<exists>e. collect_methods quote [] ?ms = Inl e" if "\<not> ?ok"
  proof (cases "collect_methods quote [] ?ms")
    case (Inr ms)
    then show ?thesis using that unfolding collect_methods_iff by blast
  qed blast
  show ?thesis
  proof (cases ?ok)
    case True
    with ok [OF True] show ?thesis by (auto simp: normalizeContract_def)
  next
    case False
    from bad [OF False] obtain e where "collect_methods quote [] ?ms = Inl e" by blast
    then have "normalizeContract quote c lim \<noteq> Inr out" by (simp add: normalizeContract_def)
    with False show ?thesis by blast
  qed
qed

section \<open>Properties of contracts\<close>


definition sample_method :: Method where
  "sample_method = \<lparr>method_ID = ''s.m'', method_Service = ''s'', method_Name = ''m'',
     method_ContractHash = replicate 64 CHR ''a'', method_ResourceTypeHash = []\<rparr>"


lemma check_required_None: "check_required av missing ms = None \<longleftrightarrow> missing = None \<and> set ms \<subseteq> set av"
  by (induction ms arbitrary: missing) auto

lemma check_required_mismatch:
  assumes "\<exists>m \<in> set ms. m \<notin> set av \<and> method_ID m \<in> method_ID ` set av"
  shows "\<exists>m \<in> set ms. check_required av missing ms =
    Some (status CodeFailedPrecondition (''RPC method contract does not match: '' @ method_ID m))"
  using assms by (induction ms arbitrary: missing) auto

lemma check_required_missing:
  assumes "\<forall>m \<in> set ms. m \<in> set av \<or> method_ID m \<notin> method_ID ` set av"
  shows "check_required av missing ms =
    (case missing of Some e \<Rightarrow> Some e
     | None \<Rightarrow> map_option (\<lambda>m. status CodeUnimplemented (''RPC method is not implemented: '' @ method_ID m))
                (find (\<lambda>m. m \<notin> set av) ms))"
  using assms by (induction ms arbitrary: missing) (auto split: option.splits)

text \<open>
  C35. The support check passes exactly when every required method is available as it is; it
  reports a mismatch exactly when some required method is available only under another contract,
  and otherwise that the first missing method is not implemented.
\<close>

theorem check_method_support_spec:
  "(CheckMethodSupport available required = None \<longleftrightarrow> set required \<subseteq> set available)
   \<and> (if \<exists>m \<in> set required. m \<notin> set available \<and> method_ID m \<in> method_ID ` set available
      then \<exists>m \<in> set required. CheckMethodSupport available required =
        Some (status CodeFailedPrecondition (''RPC method contract does not match: '' @ method_ID m))
      else CheckMethodSupport available required =
        map_option (\<lambda>m. status CodeUnimplemented (''RPC method is not implemented: '' @ method_ID m))
          (find (\<lambda>m. m \<notin> set available) required))"
proof -
  have "CheckMethodSupport available required = check_required available None required"
    by (simp add: CheckMethodSupport_def)
  moreover have "check_required available None required = None \<longleftrightarrow> set required \<subseteq> set available"
    by (simp add: check_required_None)
  moreover note check_required_mismatch [of required available None] check_required_missing [of required available None]
  ultimately show ?thesis by (auto simp del: ex_simps)
qed

theorem check_method_support_witness:
  "CheckMethodSupport [sample_method] [sample_method] = None"
  using check_method_support_spec [of "[sample_method]" "[sample_method]"] by simp

end
