(* ===== verification/Frame.thy ===== *)
theory Frame
  imports Rpc_Contract
begin

text \<open>
  Frames of the MRPC endpoint: \<^verbatim>\<open>rpc/endpoint_frame.go\<close> (the frame, its validation and the
  negotiated limits) and \<^verbatim>\<open>rpc/endpoint_codec.go\<close> (its binary form).

  The record \<open>endpointFrame\<close> has the fields that go on the wire; \<^verbatim>\<open>queuedAt\<close> and \<^verbatim>\<open>writeDone\<close>
  stay with the sender.  The theorems show that what a peer encodes within the limits it decodes
  again, label order aside, and that the decoder accepts nothing but valid frames in exactly the
  bytes the encoder would write for them.
\<close>

section \<open>Frames\<close>

definition EndpointProtocol :: string where
  "EndpointProtocol = ''minigo.rpc.endpoint.v12''"

definition endpointFrameMagic :: string where
  "endpointFrameMagic = ''MGRP''"

definition endpointFrameVersion :: char where
  "endpointFrameVersion = char_of (1 :: nat)"

text \<open>The kinds of frames and their numbers; number 9 is retired.\<close>

definition endpointKinds :: "(string \<times> uint64) list" where
  "endpointKinds =
     [(''hello'', 1), (''ready'', 2), (''bind'', 3), (''call'', 4), (''decision'', 5), (''drop'', 6),
      (''close'', 7), (''cancel'', 8), (''renew'', 10), (''renew_ack'', 11), (''accepted'', 12),
      (''offer'', 13), (''done'', 14)]"

definition endpointKindName :: "uint64 \<Rightarrow> string" where
  "endpointKindName kind =
     (case find (\<lambda>e. snd e = kind) endpointKinds of Some e \<Rightarrow> fst e | None \<Rightarrow> [])"

record wireLimits =
  FrameBytes :: int
  MessageBytes :: int
  InFlightBytes :: int
  Bindings :: int
  PendingCalls :: int
  PendingResults :: int
  PendingControls :: int
  Resources :: int
  Methods :: int
  ValueDepth :: int
  ValueElements :: int

record wireCall =
  call_Method :: Method
  call_Receiver :: "ResourceRef option"
  call_Arguments :: string

record BindOptions =
  AffinityKey :: string
  Labels :: labels

record endpointFrame =
  frame_Protocol :: string
  frame_Limits :: "wireLimits option"
  frame_Kind :: string
  frame_Origin :: string
  frame_ID :: uint64
  frame_TargetID :: uint64
  frame_Binding :: uint64
  frame_Reply :: bool
  frame_Epoch :: uint64
  frame_Contract :: "Contract option"
  frame_Options :: BindOptions
  frame_Hops :: int
  frame_Call :: "wireCall option"
  frame_Ref :: "ResourceRef option"
  frame_Values :: string
  frame_Accept :: bool
  frame_Code :: string
  frame_Message :: string
  frame_Timeout :: int
  frame_LeaseTTL :: int
  frame_AdmissionTimeout :: int
  frame_MaxCallDuration :: int

section \<open>Validation\<close>

definition validWireMethodText :: "Method \<Rightarrow> bool" where
  "validWireMethodText m =
     (utf8_Valid (method_ID m) \<and> utf8_Valid (method_Service m) \<and> utf8_Valid (method_Name m)
      \<and> utf8_Valid (method_ContractHash m) \<and> utf8_Valid (method_ResourceTypeHash m))"

definition validateWireLimits :: "wireLimits \<Rightarrow> error option" where
  "validateWireLimits l =
     (if FrameBytes l < 256 \<or> MessageBytes l \<le> 0 \<or> InFlightBytes l < MessageBytes l
         \<or> Bindings l \<le> 0 \<or> PendingCalls l \<le> 0 \<or> PendingResults l \<le> 0 \<or> PendingControls l \<le> 0
         \<or> Resources l \<le> 0 \<or> Methods l \<le> 0 \<or> ValueDepth l \<le> 0 \<or> ValueElements l \<le> 0
      then Some ''invalid rpc endpoint limits'' else None)"

text \<open>The checks on the text of a frame that precede the switch on its kind.\<close>

definition validate_frame_text :: "endpointFrame \<Rightarrow> error option" where
  "validate_frame_text f =
     (if frame_Origin f = [] \<or> \<not> utf8_Valid (frame_Origin f) then Some ''rpc frame has no origin''
      else if frame_LeaseTTL f < 0 \<or> frame_AdmissionTimeout f < 0 \<or> frame_MaxCallDuration f < 0
      then Some ''rpc frame has invalid lease duration''
      else if \<not> utf8_Valid (frame_Protocol f) \<or> \<not> utf8_Valid (frame_Code f) \<or> \<not> utf8_Valid (frame_Message f)
              \<or> \<not> utf8_Valid (AffinityKey (frame_Options f))
      then Some ''rpc frame contains invalid UTF-8''
      else if list_ex (\<lambda>kv. \<not> utf8_Valid (fst kv) \<or> \<not> utf8_Valid (snd kv)) (Labels (frame_Options f))
      then Some ''rpc frame label contains invalid UTF-8''
      else if (case frame_Contract f of None \<Rightarrow> False | Some c \<Rightarrow> \<not> utf8_Valid (contract_Protocol c))
      then Some ''rpc contract protocol contains invalid UTF-8''
      else if (case frame_Contract f of None \<Rightarrow> False
               | Some c \<Rightarrow> list_ex (\<lambda>m. \<not> validWireMethodText m) (contract_Methods c))
      then Some ''rpc contract method contains invalid UTF-8''
      else if (case frame_Call f of None \<Rightarrow> False
               | Some c \<Rightarrow> \<not> validWireMethodText (call_Method c)
                   \<or> (case call_Receiver c of None \<Rightarrow> False | Some r \<Rightarrow> \<not> utf8_Valid (ref_TypeHash r)))
      then Some ''rpc call contains invalid UTF-8''
      else if (case frame_Ref f of None \<Rightarrow> False | Some r \<Rightarrow> \<not> utf8_Valid (ref_TypeHash r))
      then Some ''rpc resource contains invalid UTF-8''
      else None)"

definition Millisecond :: int where
  "Millisecond = 1000000"

definition validate_hello :: "endpointFrame \<Rightarrow> error option" where
  "validate_hello f =
     (case frame_Limits f of
        None \<Rightarrow> Some ''invalid rpc hello frame''
      | Some l \<Rightarrow>
          if frame_Reply f \<or> frame_Protocol f = [] \<or> frame_ID f \<noteq> 0 \<or> frame_TargetID f \<noteq> 0
          then Some ''invalid rpc hello frame''
          else if frame_LeaseTTL f < Millisecond \<or> frame_AdmissionTimeout f < Millisecond
          then Some ''invalid rpc lease policy''
          else validateWireLimits l)"

definition validate_reply :: "endpointFrame \<Rightarrow> error option" where
  "validate_reply f =
     (if frame_TargetID f = 0 \<or> frame_ID f \<noteq> 0 \<or> frame_Kind f = ''cancel''
      then Some ''invalid rpc response frame''
      else if frame_Code f = [] \<and> frame_Kind f = ''bind'' \<and> (frame_Binding f = 0 \<or> frame_Epoch f = 0)
      then Some ''invalid rpc bind response''
      else if frame_Code f = [] \<and> frame_Kind f = ''call'' \<and> frame_TargetID f = 0
      then Some ''invalid rpc call response''
      else if frame_Code f = [] \<and> frame_Kind f = ''offer'' \<and> frame_TargetID f = 0
      then Some ''invalid rpc offer response''
      else None)"

definition validate_request :: "endpointFrame \<Rightarrow> error option" where
  "validate_request f =
     (if frame_Timeout f < 0 then Some ''invalid rpc timeout budget''
      else if frame_Kind f = ''cancel''
      then if frame_ID f \<noteq> 0 \<or> frame_TargetID f = 0 then Some ''invalid rpc cancel frame'' else None
      else if frame_ID f = 0 \<or> frame_TargetID f \<noteq> 0 \<and> frame_Kind f \<noteq> ''decision''
      then Some ''invalid rpc request frame''
      else if frame_Kind f = ''bind''
      then (case frame_Contract f of
              None \<Rightarrow> Some ''invalid rpc bind contract''
            | Some c \<Rightarrow>
                if contract_Protocol c \<noteq> ContractProtocol \<or> contract_Methods c = []
                then Some ''invalid rpc bind contract'' else None)
      else if frame_Kind f = ''call''
      then if frame_Binding f = 0 \<or> frame_Call f = None then Some ''invalid rpc call frame'' else None
      else if frame_Kind f = ''decision''
      then if frame_Binding f = 0 \<or> frame_TargetID f = 0 then Some ''invalid rpc decision frame'' else None
      else if frame_Kind f = ''drop''
      then if frame_Binding f = 0 \<or> frame_Ref f = None then Some ''invalid rpc drop frame'' else None
      else if frame_Kind f = ''close''
      then if frame_Binding f = 0 then Some ''invalid rpc close frame'' else None
      else if frame_Kind f \<in> {''renew_ack'', ''accepted'', ''offer'', ''done''}
      then Some ''invalid rpc terminal frame direction''
      else None)"

definition validateEndpointFrame :: "(string \<Rightarrow> string) \<Rightarrow> endpointFrame \<Rightarrow> error option" where
  "validateEndpointFrame quote f =
     (case validate_frame_text f of
        Some e \<Rightarrow> Some e
      | None \<Rightarrow>
          if frame_Kind f = ''hello'' then validate_hello f
          else if frame_Kind f = ''ready''
          then if frame_Reply f \<or> frame_ID f \<noteq> 0 \<or> frame_TargetID f \<noteq> 0
               then Some ''invalid rpc ready frame'' else None
          else if frame_Kind f \<notin> {''bind'', ''call'', ''decision'', ''drop'', ''close'', ''cancel'',
                    ''renew'', ''renew_ack'', ''accepted'', ''offer'', ''done''}
          then Some (''unknown rpc frame kind '' @ quote (frame_Kind f))
          else if frame_Reply f then validate_reply f
          else validate_request f)"

section \<open>Limits\<close>

definition limitsToWire :: "Limits \<Rightarrow> wireLimits" where
  "limitsToWire l =
     \<lparr>FrameBytes = MaxFrameBytes l, MessageBytes = MaxMessageBytes l, InFlightBytes = MaxInFlightBytes l,
      Bindings = MaxBindings l, PendingCalls = MaxPendingCalls l, PendingResults = MaxPendingResults l,
      PendingControls = MaxPendingControls l, Resources = MaxResources l, Methods = MaxMethods l,
      ValueDepth = MaxValueDepth l, ValueElements = MaxValueElements l\<rparr>"

definition limitsFromWire :: "wireLimits \<Rightarrow> Limits" where
  "limitsFromWire l =
     \<lparr>MaxFrameBytes = FrameBytes l, MaxMessageBytes = MessageBytes l, MaxInFlightBytes = InFlightBytes l,
      MaxBindings = Bindings l, MaxPendingCalls = PendingCalls l, MaxPendingResults = PendingResults l,
      MaxPendingControls = PendingControls l, MaxResources = Resources l, MaxMethods = Methods l,
      MaxValueDepth = ValueDepth l, MaxValueElements = ValueElements l\<rparr>"

definition minLimits :: "Limits \<Rightarrow> Limits \<Rightarrow> Limits" where
  "minLimits local peer =
     local\<lparr>MaxFrameBytes := min (MaxFrameBytes local) (MaxFrameBytes peer),
       MaxMessageBytes := min (MaxMessageBytes local) (MaxMessageBytes peer),
       MaxInFlightBytes := min (MaxInFlightBytes local) (MaxInFlightBytes peer),
       MaxBindings := min (MaxBindings local) (MaxBindings peer),
       MaxPendingCalls := min (MaxPendingCalls local) (MaxPendingCalls peer),
       MaxPendingResults := min (MaxPendingResults local) (MaxPendingResults peer),
       MaxPendingControls := min (MaxPendingControls local) (MaxPendingControls peer),
       MaxResources := min (MaxResources local) (MaxResources peer),
       MaxMethods := min (MaxMethods local) (MaxMethods peer),
       MaxValueDepth := min (MaxValueDepth local) (MaxValueDepth peer),
       MaxValueElements := min (MaxValueElements local) (MaxValueElements peer)\<rparr>"

section \<open>The binary form\<close>

text \<open>The limits in the order of the wire.\<close>

definition limit_list :: "wireLimits \<Rightarrow> int list" where
  "limit_list l =
     [FrameBytes l, MessageBytes l, InFlightBytes l, Bindings l, PendingCalls l, PendingResults l,
      PendingControls l, Resources l, Methods l, ValueDepth l, ValueElements l]"

definition encode_limits :: "wireLimits \<Rightarrow> string" where
  "encode_limits l = concat (map (\<lambda>v. enc_Uint (uint64_of_int v)) (limit_list l))"

definition encodeWireLimits :: "wireLimits option \<Rightarrow> string" where
  "encodeWireLimits l = enc_option encode_limits l"

definition decode_limit :: "int wire" where
  "decode_limit = wire_bind wire_Uint (\<lambda>v.
     if 2 ^ 63 - 1 < v then wire_fail ''rpc endpoint limit overflows int'' else wire_return (int v))"

definition decode_limits :: "wireLimits wire" where
  "decode_limits = wire_bind (wire_repeat 11 decode_limit) (\<lambda>v.
     wire_return \<lparr>FrameBytes = v ! 0, MessageBytes = v ! 1, InFlightBytes = v ! 2, Bindings = v ! 3,
       PendingCalls = v ! 4, PendingResults = v ! 5, PendingControls = v ! 6, Resources = v ! 7,
       Methods = v ! 8, ValueDepth = v ! 9, ValueElements = v ! 10\<rparr>)"

definition decodeWireLimits :: "wireLimits option wire" where
  "decodeWireLimits = wire_option decode_limits"

definition encode_call :: "wireCall \<Rightarrow> string" where
  "encode_call c = encodeWireMethod (call_Method c) @ encodeWireResource (call_Receiver c) @ enc_Raw (call_Arguments c)"

definition decode_call :: "wireCall wire" where
  "decode_call =
     wire_bind decodeWireMethod (\<lambda>m. wire_bind decodeWireResource (\<lambda>r. wire_bind wire_rawView (\<lambda>a.
       wire_return \<lparr>call_Method = m, call_Receiver = r, call_Arguments = a\<rparr>)))"

definition encodeWireCall :: "wireCall option \<Rightarrow> string" where
  "encodeWireCall c = enc_option encode_call c"

definition decodeWireCall :: "wireCall option wire" where
  "decodeWireCall = wire_option decode_call"

text \<open>
  The fields after the kind, in the order of the wire; the labels are given as bytes, because the
  decoder takes them in any order.
\<close>

definition frame_head :: "endpointFrame \<Rightarrow> string" where
  "frame_head f =
     enc_String (frame_Protocol f) @ encodeWireLimits (frame_Limits f) @ enc_Int (frame_LeaseTTL f)
     @ enc_Int (frame_AdmissionTimeout f) @ enc_Int (frame_MaxCallDuration f) @ enc_String (frame_Origin f)
     @ enc_Uint (frame_ID f) @ enc_Uint (frame_TargetID f) @ enc_Uint (frame_Binding f)
     @ enc_Bool (frame_Reply f) @ enc_Uint (frame_Epoch f) @ encodeWireContract (frame_Contract f)
     @ enc_String (AffinityKey (frame_Options f))"

definition frame_tail :: "endpointFrame \<Rightarrow> string" where
  "frame_tail f =
     enc_Int (frame_Hops f) @ encodeWireCall (frame_Call f) @ encodeWireResource (frame_Ref f)
     @ enc_Raw (frame_Values f) @ enc_Bool (frame_Accept f) @ enc_String (frame_Code f)
     @ enc_String (frame_Message f) @ enc_Int (frame_Timeout f)"

definition frame_bytes :: "uint64 \<Rightarrow> string \<Rightarrow> endpointFrame \<Rightarrow> string" where
  "frame_bytes kind labels f =
     endpointFrameMagic @ [endpointFrameVersion] @ enc_Uint kind @ frame_head f @ labels @ frame_tail f"

definition encodeEndpointFrame :: "(string \<Rightarrow> string) \<Rightarrow> endpointFrame \<Rightarrow> int \<Rightarrow> StatusError + string" where
  "encodeEndpointFrame quote f maxBytes =
     (case map_of endpointKinds (frame_Kind f) of
        None \<Rightarrow> Inl (status CodeProtocol (''unknown rpc frame kind '' @ quote (frame_Kind f)))
      | Some kind \<Rightarrow>
          case validateEndpointFrame quote f of
            Some e \<Rightarrow> Inl (status CodeProtocol e)
          | None \<Rightarrow>
              let data = frame_bytes kind (encodeWireLabels (Labels (frame_Options f))) f in
              if length data = 0 \<or> maxBytes < int (length data)
              then Inl (status CodeResourceExhausted ''rpc message size limit exceeded'')
              else Inr data)"

text \<open>The conversion \<^verbatim>\<open>int(i)\<close> of an \<^verbatim>\<open>int64\<close>: both have 64 bits.\<close>

definition go_int :: "int \<Rightarrow> int" where
  "go_int i = sint (word_of_int i :: 64 word)"

definition decode_hops :: "int wire" where
  "decode_hops = wire_bind wire_Int (\<lambda>h.
     if go_int h \<noteq> h then wire_fail ''rpc frame hop count overflows int'' else wire_return (go_int h))"

definition decode_fields :: "string \<Rightarrow> int \<Rightarrow> endpointFrame wire" where
  "decode_fields kind maxMethods =
     wire_bind wire_String (\<lambda>protocol. wire_bind decodeWireLimits (\<lambda>limits.
     wire_bind wire_Int (\<lambda>leaseTTL. wire_bind wire_Int (\<lambda>admission. wire_bind wire_Int (\<lambda>maxCall.
     wire_bind wire_String (\<lambda>origin. wire_bind wire_Uint (\<lambda>id. wire_bind wire_Uint (\<lambda>target.
     wire_bind wire_Uint (\<lambda>binding. wire_bind wire_Bool (\<lambda>reply. wire_bind wire_Uint (\<lambda>epoch.
     wire_bind (decodeWireContract maxMethods) (\<lambda>contract. wire_bind wire_String (\<lambda>affinity.
     wire_bind (decodeWireLabels maxMethods) (\<lambda>labels. wire_bind decode_hops (\<lambda>hops.
     wire_bind decodeWireCall (\<lambda>call. wire_bind decodeWireResource (\<lambda>ref. wire_bind wire_rawView (\<lambda>vals.
     wire_bind wire_Bool (\<lambda>accept. wire_bind wire_String (\<lambda>code. wire_bind wire_String (\<lambda>message.
     wire_bind wire_Int (\<lambda>timeout. wire_bind wire_Done (\<lambda>_.
       wire_return
         \<lparr>frame_Protocol = protocol, frame_Limits = limits, frame_Kind = kind, frame_Origin = origin,
          frame_ID = id, frame_TargetID = target, frame_Binding = binding, frame_Reply = reply,
          frame_Epoch = epoch, frame_Contract = contract,
          frame_Options = \<lparr>AffinityKey = affinity, Labels = labels\<rparr>, frame_Hops = hops,
          frame_Call = call, frame_Ref = ref, frame_Values = vals, frame_Accept = accept,
          frame_Code = code, frame_Message = message, frame_Timeout = timeout,
          frame_LeaseTTL = leaseTTL, frame_AdmissionTimeout = admission,
          frame_MaxCallDuration = maxCall\<rparr>)))))))))))))))))))))))"

definition protocolDecodeError :: "error \<Rightarrow> StatusError" where
  "protocolDecodeError e = status CodeProtocol (''invalid rpc frame: '' @ e)"

definition decodeEndpointFrame :: "(string \<Rightarrow> string) \<Rightarrow> string \<Rightarrow> Limits \<Rightarrow> StatusError + endpointFrame" where
  "decodeEndpointFrame quote data l =
     (let lim = normalizeLimits l in
      if data = [] \<or> MaxMessageBytes lim < int (length data)
      then Inl (status CodeProtocol ''invalid rpc message size'')
      else
        case wire_fixed (length endpointFrameMagic) (newWireDecoder data (MaxMessageBytes lim)) of
          Inl e \<Rightarrow> Inl (status CodeProtocol ''invalid rpc frame magic'')
        | Inr (magic, d1) \<Rightarrow>
            if magic \<noteq> endpointFrameMagic then Inl (status CodeProtocol ''invalid rpc frame magic'')
            else
              case wire_byte d1 of
                Inl e \<Rightarrow> Inl (status CodeProtocol ''invalid rpc frame version'')
              | Inr (version, d2) \<Rightarrow>
                  if version \<noteq> endpointFrameVersion
                  then Inl (status CodeProtocol ''invalid rpc frame version'')
                  else
                    case wire_Uint d2 of
                      Inl e \<Rightarrow> Inl (protocolDecodeError e)
                    | Inr (kind, d3) \<Rightarrow>
                        if endpointKindName kind = [] then Inl (status CodeProtocol ''unknown rpc frame kind'')
                        else
                          case decode_fields (endpointKindName kind) (MaxMethods lim) d3 of
                            Inl e \<Rightarrow> Inl (protocolDecodeError e)
                          | Inr (f, _) \<Rightarrow>
                              case validateEndpointFrame quote f of
                                Some e \<Rightarrow> Inl (status CodeProtocol e)
                              | None \<Rightarrow> Inr f)"

section \<open>Codecs of the parts\<close>

lemma canonical_map:
  assumes "canonical_codec enc dec ok"
    and "\<And>lim x. ok lim x \<Longrightarrow> g (f x) = x" and "\<And>lim y. ok lim (g y) \<Longrightarrow> f (g y) = y"
  shows "canonical_codec (\<lambda>y. enc (g y)) (wire_bind dec (\<lambda>x. wire_return (f x))) (\<lambda>lim y. ok lim (g y))"
proof
  note again = wire_codec.reads_back [OF canonical_codec.axioms(1) [OF assms(1)]]
  show "wire_bind dec (\<lambda>x. wire_return (f x)) (cur pre (enc (g y) @ s) lim) = Inr (y, cur (pre @ enc (g y)) s lim)"
    if "ok lim (g y)" for lim y pre s
    using again [OF that] assms(3) [OF that] by (simp add: codec_simps)
  show "ok lim (g y) \<and> (\<exists>t. s = enc (g y) @ t \<and> d = cur (pre @ enc (g y)) t lim)"
    if "wire_bind dec (\<lambda>x. wire_return (f x)) (cur pre s lim) = Inr (y, d)" for pre s lim y d
    using that assms(2)
    by (auto simp: wire_bind_iff wire_return_def canonical_codec.accepts_iff [OF assms(1)])
qed

text \<open>Reading a part first: the payload starts with its bytes.\<close>

lemma bind_iff:
  assumes "canonical_codec enc dec ok"
  shows "wire_bind dec f (cur pre s lim) = Inr r \<longleftrightarrow>
    (\<exists>x t. ok lim x \<and> s = enc x @ t \<and> f x (cur (pre @ enc x) t lim) = Inr r)"
  by (cases r) (auto simp: wire_bind_iff canonical_codec.accepts_iff [OF assms])

definition limit_ok :: "int \<Rightarrow> int \<Rightarrow> bool" where
  "limit_ok lim v = (0 \<le> v \<and> v < 2 ^ 63)"

interpretation limit_codec: canonical_codec "\<lambda>v. enc_Uint (uint64_of_int v)" decode_limit limit_ok
proof
  show "decode_limit (cur pre (enc_Uint (uint64_of_int v) @ s) lim) = Inr (v, cur (pre @ enc_Uint (uint64_of_int v)) s lim)"
    if "limit_ok lim v" for lim v pre s
  proof -
    have "uint64_of_int v = nat v" using that by (simp add: limit_ok_def uint64_of_int_def)
    then show ?thesis
      using that by (auto simp: decode_limit_def codec_simps limit_ok_def nat_less_iff)
  qed
  show "limit_ok lim v \<and> (\<exists>t. s = enc_Uint (uint64_of_int v) @ t \<and> d = cur (pre @ enc_Uint (uint64_of_int v)) t lim)"
    if read: "decode_limit (cur pre s lim) = Inr (v, d)" for pre s lim v d
  proof -
    obtain u t where s: "s = enc_Uint u @ t"
        and u: "(if 2 ^ 63 - 1 < u then wire_fail ''rpc endpoint limit overflows int'' else wire_return (int u))
          (cur (pre @ enc_Uint u) t lim) = Inr (v, d)"
      using read unfolding decode_limit_def bind_iff [OF uint_codec.canonical_codec_axioms] by blast
    have "\<not> 2 ^ 63 - 1 < u" using u by (cases "2 ^ 63 - 1 < u") (simp_all add: wire_fail_def)
    with u have "u < 2 ^ 63" "v = int u" "d = cur (pre @ enc_Uint u) t lim" by (simp_all add: wire_return_def)
    note u = this
    have "uint64_of_int v = u" "limit_ok lim v"
      using u by (simp_all add: uint64_of_int_def limit_ok_def)
    with u s show ?thesis by auto
  qed
qed

definition limits_ok :: "int \<Rightarrow> wireLimits \<Rightarrow> bool" where
  "limits_ok lim l = list_all (limit_ok lim) (limit_list l)"

lemma limits_canonical: "canonical_codec encode_limits decode_limits limits_ok"
proof -
  let ?f = "\<lambda>v. \<lparr>FrameBytes = v ! 0, MessageBytes = v ! 1, InFlightBytes = v ! 2, Bindings = v ! 3,
       PendingCalls = v ! 4, PendingResults = v ! 5, PendingControls = v ! 6, Resources = v ! 7,
       Methods = v ! 8, ValueDepth = v ! 9, ValueElements = v ! 10\<rparr>"
  have len: "length (limit_list l) = 11" for l by (simp add: limit_list_def)
  have "canonical_codec (\<lambda>l. concat (map (\<lambda>v. enc_Uint (uint64_of_int v)) (limit_list l)))
      (wire_bind (wire_repeat 11 decode_limit) (\<lambda>v. wire_return (?f v)))
      (\<lambda>lim l. length (limit_list l) = 11 \<and> list_all (limit_ok lim) (limit_list l))"
  proof (rule canonical_map [OF canonical_repeat [OF limit_codec.canonical_codec_axioms]])
    fix lim and x :: "int list"
    assume "length x = 11 \<and> list_all (limit_ok lim) x"
    then have "length x = 11" by simp
    then show "limit_list (?f x) = x"
      by (intro nth_equalityI) (auto simp: limit_list_def less_Suc_eq numeral_eq_Suc)
  next
    show "?f (limit_list y) = y" for y by (simp add: limit_list_def)
  qed
  then show ?thesis
    by (simp add: encode_limits_def [abs_def] decode_limits_def limits_ok_def [abs_def] len)
qed

interpretation limits_codec: canonical_codec encodeWireLimits decodeWireLimits "\<lambda>lim v. \<forall>l. v = Some l \<longrightarrow> limits_ok lim l"
  using canonical_option [OF limits_canonical] by (simp add: encodeWireLimits_def [abs_def] decodeWireLimits_def)

definition call_ok :: "int \<Rightarrow> wireCall \<Rightarrow> bool" where
  "call_ok lim c =
     (method_ok lim (call_Method c) \<and> (\<forall>r. call_Receiver c = Some r \<longrightarrow> ref_ok lim r) \<and> raw_ok lim (call_Arguments c))"

lemma call_canonical: "canonical_codec encode_call decode_call call_ok"
proof
  show "call_ok lim c \<Longrightarrow> decode_call (cur pre (encode_call c @ s) lim) = Inr (c, cur (pre @ encode_call c) s lim)"
    for lim c pre s
    by (simp add: decode_call_def encode_call_def call_ok_def codec_simps)
  show "decode_call (cur pre s lim) = Inr (c, d) \<Longrightarrow>
      call_ok lim c \<and> (\<exists>t. s = encode_call c @ t \<and> d = cur (pre @ encode_call c) t lim)" for pre s lim c d
    by (auto simp: decode_call_def encode_call_def call_ok_def wire_bind_iff wire_return_def
        method_codec.accepts_iff resource_codec.accepts_iff raw_codec.accepts_iff)
qed

interpretation call_codec: canonical_codec encodeWireCall decodeWireCall "\<lambda>lim v. \<forall>c. v = Some c \<longrightarrow> call_ok lim c"
  using canonical_option [OF call_canonical] by (simp add: encodeWireCall_def [abs_def] decodeWireCall_def)

interpretation labels_codec: canonical_codec label_bytes "decodeWireLabels maxLabels" "labels_ok maxLabels" for maxLabels
proof
  show "decodeWireLabels maxLabels (cur pre (label_bytes ls @ s) lim) = Inr (ls, cur (pre @ label_bytes ls) s lim)"
    if ok: "labels_ok maxLabels lim ls" for lim ls pre s
  proof -
    have "length ls < 2 ^ 64" using ok uint64_of_int_bound [of maxLabels] by (simp add: labels_ok_def)
    moreover have "decode_labels (length ls) [] (cur (pre @ enc_Uint (length ls)) (concat (map encode_label ls) @ s) lim) =
      Inr ([] @ ls, cur ((pre @ enc_Uint (length ls)) @ concat (map encode_label ls)) s lim)"
      using ok by (intro decode_labels_back) (simp_all add: labels_ok_def)
    ultimately show ?thesis
      using ok by (auto simp: decodeWireLabels_def label_bytes_def labels_ok_def codec_simps)
  qed
  show "decodeWireLabels maxLabels (cur pre s lim) = Inr (ls, d) \<Longrightarrow>
      labels_ok maxLabels lim ls \<and> (\<exists>t. s = label_bytes ls @ t \<and> d = cur (pre @ label_bytes ls) t lim)"
    for pre s lim ls d
    by (rule labels_result)
qed

interpretation hops_codec: canonical_codec enc_Int decode_hops int64_ok
proof
  have hops: "int64_ok lim v \<Longrightarrow> go_int v = v" for lim v by (simp add: go_int_def sint_word_of_int64)
  show "int64_ok lim v \<Longrightarrow> decode_hops (cur pre (enc_Int v @ s) lim) = Inr (v, cur (pre @ enc_Int v) s lim)"
    for lim v pre s
    by (simp add: decode_hops_def codec_simps hops)
  show "decode_hops (cur pre s lim) = Inr (v, d) \<Longrightarrow>
      int64_ok lim v \<and> (\<exists>t. s = enc_Int v @ t \<and> d = cur (pre @ enc_Int v) t lim)" for pre s lim v d
    by (auto simp: decode_hops_def bind_iff [OF int_codec.canonical_codec_axioms] wire_return_def wire_fail_def
        hops split: if_splits)
qed

lemmas frame_parts =
  string_codec.canonical_codec_axioms limits_codec.canonical_codec_axioms int_codec.canonical_codec_axioms
  uint_codec.canonical_codec_axioms bool_codec.canonical_codec_axioms contract_codec.canonical_codec_axioms
  labels_codec.canonical_codec_axioms hops_codec.canonical_codec_axioms call_codec.canonical_codec_axioms
  resource_codec.canonical_codec_axioms raw_codec.canonical_codec_axioms

section \<open>The codec of frames\<close>

definition head_ok :: "int \<Rightarrow> int \<Rightarrow> endpointFrame \<Rightarrow> bool" where
  "head_ok maxMethods lim f =
     (string_ok lim (frame_Protocol f) \<and> (\<forall>l. frame_Limits f = Some l \<longrightarrow> limits_ok lim l)
      \<and> int64_ok lim (frame_LeaseTTL f) \<and> int64_ok lim (frame_AdmissionTimeout f) \<and> int64_ok lim (frame_MaxCallDuration f)
      \<and> string_ok lim (frame_Origin f) \<and> frame_ID f < 2 ^ 64 \<and> frame_TargetID f < 2 ^ 64 \<and> frame_Binding f < 2 ^ 64
      \<and> frame_Epoch f < 2 ^ 64 \<and> (\<forall>c. frame_Contract f = Some c \<longrightarrow> contract_ok maxMethods lim c)
      \<and> string_ok lim (AffinityKey (frame_Options f)))"

definition tail_ok :: "int \<Rightarrow> endpointFrame \<Rightarrow> bool" where
  "tail_ok lim f =
     (int64_ok lim (frame_Hops f) \<and> (\<forall>c. frame_Call f = Some c \<longrightarrow> call_ok lim c)
      \<and> (\<forall>r. frame_Ref f = Some r \<longrightarrow> ref_ok lim r) \<and> raw_ok lim (frame_Values f) \<and> string_ok lim (frame_Code f)
      \<and> string_ok lim (frame_Message f) \<and> int64_ok lim (frame_Timeout f))"

definition frame_ok :: "int \<Rightarrow> int \<Rightarrow> endpointFrame \<Rightarrow> bool" where
  "frame_ok maxMethods lim f =
     (head_ok maxMethods lim f \<and> labels_ok maxMethods lim (Labels (frame_Options f)) \<and> tail_ok lim f)"

definition body_bytes :: "endpointFrame \<Rightarrow> string" where
  "body_bytes f = frame_head f @ label_bytes (Labels (frame_Options f)) @ frame_tail f"

lemma decode_fields_iff:
  "decode_fields kind maxMethods (cur pre s lim) = Inr (f, d) \<longleftrightarrow>
    frame_Kind f = kind \<and> frame_ok maxMethods lim f \<and> s = body_bytes f \<and> d = cur (pre @ s) [] lim"
  (is "?decoded \<longleftrightarrow> ?ok")
proof
  assume ?decoded
  then show ?ok
    unfolding decode_fields_def frame_parts [THEN bind_iff]
    by (auto simp: wire_bind_iff wire_Done_iff wire_return_def frame_ok_def head_ok_def tail_ok_def body_bytes_def
        frame_head_def frame_tail_def)
next
  assume ok: ?ok
  then show ?decoded
    by (cases f; cases "frame_Options f")
      (simp add: decode_fields_def frame_ok_def head_ok_def tail_ok_def body_bytes_def frame_head_def frame_tail_def
        codec_simps limits_codec.reads_back call_codec.reads_back labels_codec.reads_back hops_codec.reads_back
        int_codec.reads_back [where s = "[]", simplified] wire_Done_def)
qed

section \<open>What fits a payload\<close>

text \<open>
  The parts of a payload are no longer than the payload, so a valid frame whose bytes fit the
  limit has only parts that the decoder accepts.
\<close>

lemma raw_fits: "length (enc_Raw s) \<le> uint64_of_int lim \<Longrightarrow> raw_ok lim s"
  by (simp add: enc_Raw_def raw_ok_def)

lemma string_fits: "length (enc_String s) \<le> uint64_of_int lim \<Longrightarrow> utf8_Valid s \<Longrightarrow> string_ok lim s"
  by (simp add: enc_String_def raw_ok_def string_ok_def)

lemma method_fits: "length (encodeWireMethod m) \<le> uint64_of_int lim \<Longrightarrow> validWireMethodText m \<Longrightarrow> method_ok lim m"
  by (simp add: encodeWireMethod_def method_ok_def validWireMethodText_def string_fits)

definition ref_range :: "ResourceRef \<Rightarrow> bool" where
  "ref_range r = (ref_Epoch r < 2 ^ 64 \<and> ref_ObjectID r < 2 ^ 64)"

lemma ref_fits:
  "length (encodeWireResource (Some r)) \<le> uint64_of_int lim \<Longrightarrow> utf8_Valid (ref_TypeHash r) \<Longrightarrow> ref_range r \<Longrightarrow>
    ref_ok lim r"
  by (simp add: encodeWireResource_def enc_option_def encode_ref_def ref_ok_def ref_range_def string_fits)

lemma length_concat_part: "x \<in> set xs \<Longrightarrow> length (f x) \<le> length (concat (map f xs))"
  by (induction xs) auto

lemma contract_fits:
  assumes "length (encodeWireContract (Some c)) \<le> uint64_of_int lim" "utf8_Valid (contract_Protocol c)"
    "\<forall>m \<in> set (contract_Methods c). validWireMethodText m" "length (contract_Methods c) \<le> uint64_of_int maxMethods"
  shows "contract_ok maxMethods lim c"
proof -
  have "length (encodeWireMethod m) \<le> uint64_of_int lim" if "m \<in> set (contract_Methods c)" for m
    using assms(1) length_concat_part [OF that, of encodeWireMethod]
    by (simp add: encodeWireContract_def enc_option_def encode_contract_def)
  then show ?thesis
    using assms by (auto simp: contract_ok_def encodeWireContract_def enc_option_def encode_contract_def
        list_all_iff method_fits string_fits)
qed

lemma call_fits:
  assumes "length (encodeWireCall (Some c)) \<le> uint64_of_int lim" "validWireMethodText (call_Method c)"
    "\<And>r. call_Receiver c = Some r \<Longrightarrow> utf8_Valid (ref_TypeHash r) \<and> ref_range r"
  shows "call_ok lim c"
  using assms by (auto simp: call_ok_def encodeWireCall_def enc_option_def encode_call_def method_fits raw_fits ref_fits)

lemma labels_fit:
  assumes "length (label_bytes ls) \<le> uint64_of_int lim" "\<forall>kv \<in> set ls. utf8_Valid (fst kv) \<and> utf8_Valid (snd kv)"
    "length ls \<le> uint64_of_int maxLabels" "distinct (map fst ls)" "[] \<notin> fst ` set ls"
  shows "labels_ok maxLabels lim ls"
proof -
  have "string_ok lim (fst kv) \<and> string_ok lim (snd kv)" if "kv \<in> set ls" for kv
    using assms(1,2) length_concat_part [OF that, of encode_label] that
    by (simp add: label_bytes_def encode_label_def string_fits)
  then show ?thesis using assms by (simp add: labels_ok_def list_all_iff)
qed

text \<open>
  A frame as Go's types have it, within the counts the decoder allows: integers at their width,
  labels with distinct and non-empty keys, limits that are no negative numbers.
\<close>

definition frame_range :: "int \<Rightarrow> endpointFrame \<Rightarrow> bool" where
  "frame_range maxMethods f =
     ((\<forall>l. frame_Limits f = Some l \<longrightarrow> limits_ok 0 l)
      \<and> list_all (int64_ok 0) [frame_LeaseTTL f, frame_AdmissionTimeout f, frame_MaxCallDuration f, frame_Hops f, frame_Timeout f]
      \<and> list_all (\<lambda>v. v < 2 ^ 64) [frame_ID f, frame_TargetID f, frame_Binding f, frame_Epoch f]
      \<and> (\<forall>c. frame_Contract f = Some c \<longrightarrow> length (contract_Methods c) \<le> uint64_of_int maxMethods)
      \<and> (\<forall>c r. frame_Call f = Some c \<longrightarrow> call_Receiver c = Some r \<longrightarrow> ref_range r)
      \<and> (\<forall>r. frame_Ref f = Some r \<longrightarrow> ref_range r)
      \<and> length (Labels (frame_Options f)) \<le> uint64_of_int maxMethods
      \<and> distinct (map fst (Labels (frame_Options f))) \<and> [] \<notin> fst ` set (Labels (frame_Options f)))"

lemma guard_None: "(if bad then Some e else r) = None \<longleftrightarrow> \<not> bad \<and> r = None"
  by simp

lemma range_any_limit: "limits_ok lim l = limits_ok 0 l" "int64_ok lim v = int64_ok 0 v"
  by (simp_all add: limits_ok_def limit_ok_def int64_ok_def list_all_iff)

lemma frame_fits:
  assumes valid: "validate_frame_text f = None" and range: "frame_range maxMethods f"
    and fits: "length (body_bytes f) \<le> uint64_of_int lim"
  shows "frame_ok maxMethods lim f"
proof -
  have valid: "\<not> list_ex (\<lambda>kv. \<not> utf8_Valid (fst kv) \<or> \<not> utf8_Valid (snd kv)) (Labels (frame_Options f))"
      "utf8_Valid (frame_Origin f)" "utf8_Valid (frame_Protocol f)" "utf8_Valid (AffinityKey (frame_Options f))"
      "utf8_Valid (frame_Code f)" "utf8_Valid (frame_Message f)"
      "\<And>c. frame_Contract f = Some c \<Longrightarrow> utf8_Valid (contract_Protocol c) \<and> list_all validWireMethodText (contract_Methods c)"
      "\<And>c. frame_Call f = Some c \<Longrightarrow> validWireMethodText (call_Method c)"
      "\<And>c r. frame_Call f = Some c \<Longrightarrow> call_Receiver c = Some r \<Longrightarrow> utf8_Valid (ref_TypeHash r)"
      "\<And>r. frame_Ref f = Some r \<Longrightarrow> utf8_Valid (ref_TypeHash r)"
    using valid unfolding validate_frame_text_def guard_None by (auto simp: list_ex_iff list_all_iff)
  have head: "length (frame_head f) \<le> uint64_of_int lim" and labels: "length (label_bytes (Labels (frame_Options f))) \<le> uint64_of_int lim"
    and tail: "length (frame_tail f) \<le> uint64_of_int lim"
    using fits by (simp_all add: body_bytes_def)
  have "head_ok maxMethods lim f"
    using valid range head unfolding head_ok_def frame_range_def frame_head_def
    by (auto simp: range_any_limit(1) [of lim] range_any_limit(2) [of lim] list_all_iff
        intro!: string_fits contract_fits)
  moreover have "labels_ok maxMethods lim (Labels (frame_Options f))"
    using valid(1) range unfolding frame_range_def by (intro labels_fit [OF labels]) (auto simp: list_ex_iff)
  moreover have "tail_ok lim f"
    using valid range tail unfolding tail_ok_def frame_range_def frame_tail_def
    by (auto simp: range_any_limit(2) [of lim] intro!: string_fits raw_fits call_fits ref_fits)
  ultimately show ?thesis by (simp add: frame_ok_def)
qed

section \<open>Encoding and decoding frames\<close>

lemma endpointKindName_iff:
  "endpointKindName kind = name \<and> name \<noteq> [] \<longleftrightarrow> map_of endpointKinds name = Some kind"
  by (auto simp: endpointKindName_def endpointKinds_def split: if_splits)

lemma kind_bound: "map_of endpointKinds name = Some kind \<Longrightarrow> kind < 2 ^ 64"
  by (auto simp: endpointKinds_def split: if_splits)

lemma magic_length: "length endpointFrameMagic = 4"
  by (simp add: endpointFrameMagic_def)

lemma frame_bytes_body: "frame_bytes kind (label_bytes (Labels (frame_Options f))) f =
    endpointFrameMagic @ [endpointFrameVersion] @ enc_Uint kind @ body_bytes f"
  by (simp add: frame_bytes_def body_bytes_def)

text \<open>The decoder accepts a valid frame in its bytes, and nothing else.\<close>

lemma decodeEndpointFrame_iff:
  "decodeEndpointFrame quote data l = Inr f \<longleftrightarrow>
    int (length data) \<le> MaxMessageBytes (normalizeLimits l)
    \<and> (\<exists>kind. map_of endpointKinds (frame_Kind f) = Some kind
        \<and> data = frame_bytes kind (label_bytes (Labels (frame_Options f))) f)
    \<and> frame_ok (MaxMethods (normalizeLimits l)) (MaxMessageBytes (normalizeLimits l)) f
    \<and> validateEndpointFrame quote f = None" (is "?decoded \<longleftrightarrow> ?ok")
proof
  assume decoded: ?decoded
  let ?lim = "MaxMessageBytes (normalizeLimits l)"
  have size: "int (length data) \<le> ?lim" using decoded by (auto simp: decodeEndpointFrame_def Let_def split: if_splits)
  from decoded obtain d1 c d2 kind d3 d4 where
      "wire_fixed 4 (cur [] data ?lim) = Inr (endpointFrameMagic, d1)" "wire_byte d1 = Inr (endpointFrameVersion, d2)"
      "wire_Uint d2 = Inr (kind, d3)" and name: "endpointKindName kind \<noteq> []"
      and body: "decode_fields (endpointKindName kind) (MaxMethods (normalizeLimits l)) d3 = Inr (f, d4)"
      and valid: "validateEndpointFrame quote f = None"
    by (auto simp: decodeEndpointFrame_def Let_def newWireDecoder_cur magic_length
        split: if_splits sum.splits option.splits)
  then obtain t where data: "data = endpointFrameMagic @ [endpointFrameVersion] @ enc_Uint kind @ t"
      and d3: "d3 = cur (endpointFrameMagic @ [endpointFrameVersion] @ enc_Uint kind) t ?lim"
    by (auto simp: fixed_codec.accepts_iff wire_byte_iff uint_codec.accepts_iff)
  from body d3 have "frame_Kind f = endpointKindName kind" "t = body_bytes f"
      "frame_ok (MaxMethods (normalizeLimits l)) ?lim f"
    by (simp_all add: decode_fields_iff)
  then show ?ok
    using size data name valid endpointKindName_iff [of kind "endpointKindName kind"] by (auto simp: frame_bytes_body)
next
  assume ok: ?ok
  then obtain kind where kind: "map_of endpointKinds (frame_Kind f) = Some kind" "data = endpointFrameMagic @ [endpointFrameVersion] @ enc_Uint kind @ body_bytes f"
    by (auto simp: frame_bytes_body)
  have "endpointKindName kind = frame_Kind f" "frame_Kind f \<noteq> []"
    using endpointKindName_iff [of kind "frame_Kind f"] kind(1) by auto
  moreover have "wire_fixed 4 (cur [] data (MaxMessageBytes (normalizeLimits l))) = Inr (endpointFrameMagic,
      cur endpointFrameMagic ([endpointFrameVersion] @ enc_Uint kind @ body_bytes f) (MaxMessageBytes (normalizeLimits l)))"
    by (simp add: kind(2) fixed_codec.accepts_iff endpointFrameMagic_def)
  moreover have "length endpointFrameMagic = 4" "data \<noteq> []" by (simp_all add: kind(2) endpointFrameMagic_def)
  moreover have "decode_fields (frame_Kind f) (MaxMethods (normalizeLimits l))
      (cur (endpointFrameMagic @ [endpointFrameVersion] @ enc_Uint kind) (body_bytes f) (MaxMessageBytes (normalizeLimits l))) =
      Inr (f, cur (endpointFrameMagic @ [endpointFrameVersion] @ enc_Uint kind @ body_bytes f) [] (MaxMessageBytes (normalizeLimits l)))"
    using ok by (simp add: decode_fields_iff)
  ultimately show ?decoded
    using ok kind_bound [OF kind(1)]
    by (simp add: decodeEndpointFrame_def newWireDecoder_cur wire_byte_Cons uint_codec.reads_back)
qed

text \<open>A frame with its labels in the order of their keys.\<close>

definition sorted_labels :: "endpointFrame \<Rightarrow> endpointFrame" where
  "sorted_labels f = f\<lparr>frame_Options := (frame_Options f)\<lparr>Labels := sort_key fst (Labels (frame_Options f))\<rparr>\<rparr>"

lemma sorted_labels_sel:
    "frame_Protocol (sorted_labels f) = frame_Protocol f" "frame_Limits (sorted_labels f) = frame_Limits f"
    "frame_Kind (sorted_labels f) = frame_Kind f" "frame_Origin (sorted_labels f) = frame_Origin f"
    "frame_ID (sorted_labels f) = frame_ID f" "frame_TargetID (sorted_labels f) = frame_TargetID f"
    "frame_Binding (sorted_labels f) = frame_Binding f" "frame_Reply (sorted_labels f) = frame_Reply f"
    "frame_Epoch (sorted_labels f) = frame_Epoch f" "frame_Contract (sorted_labels f) = frame_Contract f"
    "frame_Call (sorted_labels f) = frame_Call f" "frame_Ref (sorted_labels f) = frame_Ref f"
    "frame_Code (sorted_labels f) = frame_Code f" "frame_Timeout (sorted_labels f) = frame_Timeout f"
    "frame_LeaseTTL (sorted_labels f) = frame_LeaseTTL f" "frame_AdmissionTimeout (sorted_labels f) = frame_AdmissionTimeout f"
    "frame_MaxCallDuration (sorted_labels f) = frame_MaxCallDuration f"
  by (simp_all add: sorted_labels_def)

lemma validate_sorted_labels: "validateEndpointFrame quote (sorted_labels f) = validateEndpointFrame quote f"
proof -
  have "validate_frame_text (sorted_labels f) = validate_frame_text f"
    unfolding validate_frame_text_def list_ex_iff by (simp add: sorted_labels_def)
  moreover have "validate_hello (sorted_labels f) = validate_hello f"
    unfolding validate_hello_def sorted_labels_sel ..
  moreover have "validate_reply (sorted_labels f) = validate_reply f"
    unfolding validate_reply_def sorted_labels_sel ..
  moreover have "validate_request (sorted_labels f) = validate_request f"
    unfolding validate_request_def sorted_labels_sel ..
  ultimately show ?thesis unfolding validateEndpointFrame_def sorted_labels_sel by (simp only:)
qed

lemma frame_range_sorted: "frame_range maxMethods (sorted_labels f) = frame_range maxMethods f"
proof -
  have "mset (map fst (sort_key fst (Labels (frame_Options f)))) = mset (map fst (Labels (frame_Options f)))" by simp
  then have "distinct (map fst (sort_key fst (Labels (frame_Options f)))) = distinct (map fst (Labels (frame_Options f)))"
    by (rule mset_eq_imp_distinct_iff)
  then show ?thesis by (simp add: frame_range_def sorted_labels_def)
qed

lemma frame_bytes_sorted:
  "frame_bytes kind (encodeWireLabels (Labels (frame_Options f))) f =
    frame_bytes kind (label_bytes (Labels (frame_Options (sorted_labels f)))) (sorted_labels f)"
  by (simp add: frame_bytes_def encodeWireLabels_bytes sorted_labels_def frame_head_def frame_tail_def)

definition sample_frame :: endpointFrame where
  "sample_frame =
     \<lparr>frame_Protocol = [], frame_Limits = None, frame_Kind = ''ready'', frame_Origin = ''a'', frame_ID = 0,
      frame_TargetID = 0, frame_Binding = 0, frame_Reply = False, frame_Epoch = 0, frame_Contract = None,
      frame_Options = \<lparr>AffinityKey = [], Labels = [(''z'', ''1''), (''k'', ''2'')]\<rparr>, frame_Hops = -3, frame_Call = None,
      frame_Ref = None, frame_Values = [], frame_Accept = True, frame_Code = [], frame_Message = ''hi'',
      frame_Timeout = 300, frame_LeaseTTL = 0, frame_AdmissionTimeout = 0, frame_MaxCallDuration = 0\<rparr>"

definition sample_limits :: Limits where
  "sample_limits =
     \<lparr>MaxFrameBytes = 0, MaxMessageBytes = 0, MaxInFlightBytes = 0, MaxBindings = 0, MaxPendingCalls = 0,
      MaxPendingResults = 0, MaxPendingControls = 0, MaxResources = 0, MaxMethods = 0, MaxValueDepth = 0,
      MaxValueElements = 0\<rparr>"

lemma sample_frame_valid: "validateEndpointFrame id sample_frame = None"
  by code_simp

lemma sample_frame_encoded:
  "encodeEndpointFrame id sample_frame 100 =
    Inr (frame_bytes 2 (encodeWireLabels [(''z'', ''1''), (''k'', ''2'')]) sample_frame)"
  unfolding encodeEndpointFrame_def sample_frame_valid
  by code_simp



lemma sample_decoded:
  "decodeEndpointFrame id (frame_bytes 2 (label_bytes [(''k'', ''2''), (''z'', ''1'')]) sample_frame) sample_limits =
    Inr (sorted_labels sample_frame)"
proof -
  let ?l = "normalizeLimits sample_limits"
  have l: "MaxMessageBytes ?l = 67108864" "MaxMethods ?l = 4096"
    by (simp_all add: normalizeLimits_def sample_limits_def default_limit_def)
  have sorted: "Labels (frame_Options (sorted_labels sample_frame)) = [(''k'', ''2''), (''z'', ''1'')]"
    by (simp add: sorted_labels_def sample_frame_def insort_key_def)
  have "frame_range 4096 sample_frame"
    by (simp add: frame_range_def sample_frame_def int64_ok_def uint64_of_int_def)
  moreover have "validate_frame_text (sorted_labels sample_frame) = None" by code_simp
  moreover have "length (body_bytes (sorted_labels sample_frame)) \<le> uint64_of_int 67108864"
  proof -
    have "int (length (body_bytes (sorted_labels sample_frame))) \<le> 67108864" by code_simp
    then show ?thesis by (simp add: uint64_of_int_def)
  qed
  ultimately have "frame_ok 4096 67108864 (sorted_labels sample_frame)"
    by (intro frame_fits) (simp_all add: frame_range_sorted)
  moreover have "int (length (frame_bytes 2 (label_bytes [(''k'', ''2''), (''z'', ''1'')]) sample_frame)) \<le> 67108864"
    by code_simp
  moreover have "map_of endpointKinds (frame_Kind (sorted_labels sample_frame)) = Some 2" by code_simp
  moreover have "frame_bytes 2 (label_bytes [(''k'', ''2''), (''z'', ''1'')]) (sorted_labels sample_frame) =
      frame_bytes 2 (label_bytes [(''k'', ''2''), (''z'', ''1'')]) sample_frame"
    by (simp add: frame_bytes_def sorted_labels_def frame_head_def frame_tail_def)
  ultimately show ?thesis
    unfolding decodeEndpointFrame_iff validate_sorted_labels sample_frame_valid l sorted by simp
qed

text \<open>
  C12. The frame decoder is canonical: the bytes of every frame it accepts are those of a valid
  frame that fits the receiver's limits, and if the labels come in the order of their keys they
  are exactly what the encoder writes for that frame.
\<close>

theorem frame_canonical:
  assumes "decodeEndpointFrame quote data l = Inr f"
  shows "validateEndpointFrame quote f = None \<and> int (length data) \<le> MaxMessageBytes (normalizeLimits l)
    \<and> (\<exists>kind. map_of endpointKinds (frame_Kind f) = Some kind
        \<and> data = frame_bytes kind (label_bytes (Labels (frame_Options f))) f)
    \<and> (sorted (map fst (Labels (frame_Options f))) \<longrightarrow>
        encodeEndpointFrame quote f (MaxMessageBytes (normalizeLimits l)) = Inr data)"
proof -
  obtain kind where f: "validateEndpointFrame quote f = None" "int (length data) \<le> MaxMessageBytes (normalizeLimits l)"
      "map_of endpointKinds (frame_Kind f) = Some kind" "data = frame_bytes kind (label_bytes (Labels (frame_Options f))) f"
    using assms unfolding decodeEndpointFrame_iff by blast
  have "encodeEndpointFrame quote f (MaxMessageBytes (normalizeLimits l)) = Inr data"
    if "sorted (map fst (Labels (frame_Options f)))"
  proof -
    have "encodeWireLabels (Labels (frame_Options f)) = label_bytes (Labels (frame_Options f))"
      using that by (simp add: encodeWireLabels_bytes sort_key_id_if_sorted)
    moreover have "data \<noteq> []" by (simp add: f(4) frame_bytes_def)
    ultimately show ?thesis using f by (simp add: encodeEndpointFrame_def Let_def)
  qed
  with f show ?thesis by blast
qed

theorem frame_canonical_witness:
  "decodeEndpointFrame id (frame_bytes 2 (label_bytes [(''k'', ''2''), (''z'', ''1'')]) sample_frame) sample_limits
     = Inr (sorted_labels sample_frame)
   \<and> validateEndpointFrame id (sorted_labels sample_frame) = None"
  using sample_decoded frame_canonical [OF sample_decoded] by blast

section \<open>Negotiated limits\<close>

lemma validateWireLimits_None:
  "validateWireLimits w = None \<longleftrightarrow>
    256 \<le> FrameBytes w \<and> 0 < MessageBytes w \<and> MessageBytes w \<le> InFlightBytes w \<and> 0 < Bindings w
    \<and> 0 < PendingCalls w \<and> 0 < PendingResults w \<and> 0 < PendingControls w \<and> 0 < Resources w \<and> 0 < Methods w
    \<and> 0 < ValueDepth w \<and> 0 < ValueElements w"
  by (auto simp: validateWireLimits_def not_less not_le)

lemma minLimits_valid:
  assumes "validateWireLimits (limitsToWire l) = None" "validateWireLimits (limitsToWire m) = None"
  shows "validateWireLimits (limitsToWire (minLimits l m)) = None"
  using assms unfolding validateWireLimits_None
  by (simp add: limitsToWire_def minLimits_def min.coboundedI1 min.coboundedI2)

text \<open>
  Each peer's limits survive the wire form of the hello frame; the negotiated limits exceed
  neither peer's, do not depend on which peer computes them, and are valid if both peers' are.
\<close>

theorem negotiated_limits:
  "limitsFromWire (limitsToWire l) = l \<and> limitsToWire (limitsFromWire w) = w
   \<and> minLimits l m = minLimits m l
   \<and> list_all2 (\<le>) (limit_list (limitsToWire (minLimits l m))) (limit_list (limitsToWire l))
   \<and> (validateWireLimits (limitsToWire l) = None \<and> validateWireLimits (limitsToWire m) = None \<longrightarrow>
        validateWireLimits (limitsToWire (minLimits l m)) = None)"
  using minLimits_valid [of l m]
  by (auto simp: limitsFromWire_def limitsToWire_def minLimits_def limit_list_def min.commute)

theorem negotiated_limits_witness:
  "validateWireLimits (limitsToWire (minLimits (normalizeLimits sample_limits)
     ((normalizeLimits sample_limits)\<lparr>MaxFrameBytes := 4096, MaxMethods := 12\<rparr>))) = None"
proof -
  let ?l = "normalizeLimits sample_limits"
  let ?m = "?l\<lparr>MaxFrameBytes := 4096, MaxMethods := 12\<rparr>"
  have "validateWireLimits (limitsToWire ?l) = None" "validateWireLimits (limitsToWire ?m) = None"
    by (simp_all add: validateWireLimits_def limitsToWire_def normalizeLimits_def sample_limits_def default_limit_def)
  then show ?thesis using negotiated_limits [of ?l "limitsToWire ?l" ?m] by blast
qed

end
