(* ===== verification/Fragment.thy ===== *)
theory Fragment
  imports Frame
begin

text \<open>
  Physical fragments of a message, \<^verbatim>\<open>rpc/endpoint_fragment.go\<close>: their binary form and the
  assembly of a message from its fragments.  A nil slice is \<open>None\<close>.

  A fragment reads back as it was written, and the fragments of a message, taken in order from
  any split of its bytes, assemble to the message.
\<close>

section \<open>Fragments\<close>

definition endpointFragmentMagic :: string where
  "endpointFragmentMagic = ''MGRF''"

definition endpointFragmentVersion :: char where
  "endpointFragmentVersion = char_of (1 :: nat)"

text \<open>Magic, version and three varints of at most ten bytes.\<close>

definition maxFragmentHeaderBytes :: int where
  "maxFragmentHeaderBytes = int (length endpointFragmentMagic) + 1 + 3 * 10"

record endpointFragment =
  frag_messageID :: uint64
  frag_total :: uint64
  frag_offset :: uint64
  frag_data :: string

definition fragment_bytes :: "uint64 \<Rightarrow> uint64 \<Rightarrow> uint64 \<Rightarrow> string \<Rightarrow> string" where
  "fragment_bytes messageID tot offs data =
     endpointFragmentMagic @ [endpointFragmentVersion] @ enc_Uint messageID @ enc_Uint tot @ enc_Uint offs @ data"

text \<open>The buffer \<^verbatim>\<open>dst\<close> only provides capacity, so both entry points write the same bytes.\<close>

definition encodeEndpointFragment :: "uint64 \<Rightarrow> int \<Rightarrow> int \<Rightarrow> string \<Rightarrow> int \<Rightarrow> error + string" where
  "encodeEndpointFragment messageID tot offs data maxFrameBytes =
     (if tot \<le> 0 \<or> offs < 0 \<or> data = [] \<or> tot < offs \<or> tot - offs < int (length data)
         \<or> messageID = 0 \<and> (offs \<noteq> 0 \<or> int (length data) \<noteq> tot)
      then Inl ''invalid rpc fragment''
      else
        let out = fragment_bytes messageID (uint64_of_int tot) (uint64_of_int offs) data in
        if maxFrameBytes < int (length out) then Inl ''rpc fragment exceeds frame limit'' else Inr out)"

definition decodeEndpointFragment :: "string \<Rightarrow> Limits \<Rightarrow> error + endpointFragment" where
  "decodeEndpointFragment data l =
     (let lim = normalizeLimits l in
      if data = [] \<or> MaxFrameBytes lim < int (length data) \<or> length data \<le> length endpointFragmentMagic + 1
      then Inl ''invalid rpc fragment size''
      else
        case wire_fixed (length endpointFragmentMagic) (newWireDecoder data (MaxFrameBytes lim)) of
          Inl e \<Rightarrow> Inl ''invalid rpc fragment header''
        | Inr (magic, d1) \<Rightarrow>
            if magic \<noteq> endpointFragmentMagic then Inl ''invalid rpc fragment header''
            else
              case wire_byte d1 of
                Inl e \<Rightarrow> Inl ''invalid rpc fragment header''
              | Inr (version, d2) \<Rightarrow>
                  if version \<noteq> endpointFragmentVersion then Inl ''invalid rpc fragment header''
                  else
                    case wire_Uint d2 of
                      Inl e \<Rightarrow> Inl ''invalid rpc fragment message ID''
                    | Inr (messageID, d3) \<Rightarrow>
                        case wire_Uint d3 of
                          Inl e \<Rightarrow> Inl ''invalid rpc fragment total''
                        | Inr (tot, d4) \<Rightarrow>
                            case wire_Uint d4 of
                              Inl e \<Rightarrow> Inl ''invalid rpc fragment offset''
                            | Inr (offs, d5) \<Rightarrow>
                                case wire_fixed (Remaining d5) d5 of
                                  Inl e \<Rightarrow> Inl ''invalid rpc fragment data''
                                | Inr (chunk, d6) \<Rightarrow>
                                    if tot = 0 \<or> length chunk = 0 \<or> uint64_of_int (MaxMessageBytes lim) < tot
                                       \<or> uint64_of_int (MaxInFlightBytes lim) < tot \<or> tot < offs
                                       \<or> tot - offs < length chunk
                                    then Inl ''invalid rpc fragment bounds''
                                    else if messageID = 0 \<and> (offs \<noteq> 0 \<or> length chunk \<noteq> tot)
                                    then Inl ''rpc control fragment must be complete''
                                    else Inr \<lparr>frag_messageID = messageID, frag_total = tot,
                                              frag_offset = offs, frag_data = chunk\<rparr>)"

section \<open>Assembly\<close>

record endpointAssembly =
  asm_messageID :: uint64
  asm_data :: "string option"
  asm_received :: nat

definition empty_assembly :: endpointAssembly where
  "empty_assembly = \<lparr>asm_messageID = 0, asm_data = None, asm_received = 0\<rparr>"

text \<open>\<^verbatim>\<open>copy(dst[n:], src)\<close>.\<close>

definition copy_at :: "nat \<Rightarrow> string \<Rightarrow> string \<Rightarrow> string" where
  "copy_at n dst src =
     (let k = min (length dst - n) (length src) in take n dst @ take k src @ drop (n + k) dst)"

text \<open>
  The part of \<^verbatim>\<open>append\<close> after the assembly has been set up for the fragment: the data must
  continue where the last fragment ended.
\<close>

definition append_data ::
  "uint64 \<Rightarrow> string \<Rightarrow> nat \<Rightarrow> endpointFragment \<Rightarrow> uint64 \<Rightarrow> error + string option \<times> endpointAssembly \<times> uint64" where
  "append_data messageID data received frag previousID =
     (if frag_offset frag \<noteq> received then Inl ''rpc fragment offset is not contiguous''
      else
        let data' = copy_at received data (frag_data frag); received' = received + length (frag_data frag) in
        if received' \<noteq> length data'
        then Inr (None, \<lparr>asm_messageID = messageID, asm_data = Some data', asm_received = received'\<rparr>, previousID)
        else Inr (Some data', empty_assembly, messageID))"

definition assembly_append ::
  "endpointAssembly \<Rightarrow> endpointFragment \<Rightarrow> uint64 \<Rightarrow> error + string option \<times> endpointAssembly \<times> uint64" where
  "assembly_append a frag previousID =
     (if frag_messageID frag = 0
      then if frag_offset frag \<noteq> 0 \<or> length (frag_data frag) \<noteq> frag_total frag
           then Inl ''rpc control fragment must be complete''
           else Inr (Some (frag_data frag), a, previousID)
      else
        case asm_data a of
          None \<Rightarrow>
            if frag_offset frag \<noteq> 0 \<or> frag_messageID frag \<noteq> u64 (previousID + 1)
            then Inl ''rpc fragment sequence is not strictly increasing''
            else append_data (frag_messageID frag) (replicate (frag_total frag) (char_of (0 :: nat))) 0 frag previousID
        | Some data \<Rightarrow>
            if frag_messageID frag \<noteq> asm_messageID a \<or> frag_total frag \<noteq> length data
            then Inl ''rpc fragment changed an incomplete message''
            else append_data (asm_messageID a) data (asm_received a) frag previousID)"

section \<open>Fragments on the wire\<close>

text \<open>The bounds a receiver puts on a fragment.\<close>

definition fragment_ok :: "Limits \<Rightarrow> endpointFragment \<Rightarrow> bool" where
  "fragment_ok lim frag =
     (frag_messageID frag < 2 ^ 64 \<and> frag_total frag < 2 ^ 64 \<and> frag_offset frag < 2 ^ 64
      \<and> frag_total frag \<noteq> 0 \<and> frag_data frag \<noteq> []
      \<and> frag_total frag \<le> uint64_of_int (MaxMessageBytes lim) \<and> frag_total frag \<le> uint64_of_int (MaxInFlightBytes lim)
      \<and> frag_offset frag + length (frag_data frag) \<le> frag_total frag
      \<and> (frag_messageID frag = 0 \<longrightarrow> frag_offset frag = 0 \<and> length (frag_data frag) = frag_total frag))"

definition bytes_of_fragment :: "endpointFragment \<Rightarrow> string" where
  "bytes_of_fragment frag = fragment_bytes (frag_messageID frag) (frag_total frag) (frag_offset frag) (frag_data frag)"

lemma fragment_magic_length: "length endpointFragmentMagic = 4"
  by (simp add: endpointFragmentMagic_def)

lemma header_bytes: "maxFragmentHeaderBytes = 35"
  by (simp add: maxFragmentHeaderBytes_def fragment_magic_length)

lemma fixed_rest: "wire_fixed (length s) (cur pre s lim) = Inr (s, cur (pre @ s) [] lim)"
  using fixed_back [of s "length s" pre "[]" lim] by simp

lemma decodeEndpointFragment_iff:
  "decodeEndpointFragment data l = Inr frag \<longleftrightarrow>
    int (length data) \<le> MaxFrameBytes (normalizeLimits l) \<and> fragment_ok (normalizeLimits l) frag
    \<and> data = bytes_of_fragment frag" (is "?decoded \<longleftrightarrow> ?ok")
proof
  let ?lim = "normalizeLimits l"
  assume decoded: ?decoded
  then have size: "int (length data) \<le> MaxFrameBytes ?lim"
    by (auto simp: decodeEndpointFragment_def Let_def split: if_splits)
  from decoded obtain d1 d2 messageID d3 tot d4 offs d5 chunk d6 where parts:
      "wire_fixed 4 (cur [] data (MaxFrameBytes ?lim)) = Inr (endpointFragmentMagic, d1)"
      "wire_byte d1 = Inr (endpointFragmentVersion, d2)" "wire_Uint d2 = Inr (messageID, d3)"
      "wire_Uint d3 = Inr (tot, d4)" "wire_Uint d4 = Inr (offs, d5)" "wire_fixed (Remaining d5) d5 = Inr (chunk, d6)"
      and bounds: "\<not> (tot = 0 \<or> length chunk = 0 \<or> uint64_of_int (MaxMessageBytes ?lim) < tot
         \<or> uint64_of_int (MaxInFlightBytes ?lim) < tot \<or> tot < offs \<or> tot - offs < length chunk)"
         "\<not> (messageID = 0 \<and> (offs \<noteq> 0 \<or> length chunk \<noteq> tot))"
      and frag: "frag = \<lparr>frag_messageID = messageID, frag_total = tot, frag_offset = offs, frag_data = chunk\<rparr>"
    by (auto simp: decodeEndpointFragment_def Let_def newWireDecoder_cur fragment_magic_length
        split: if_splits sum.splits)
  from parts(1-5) obtain t where data: "data = endpointFragmentMagic @ [endpointFragmentVersion] @ enc_Uint messageID
        @ enc_Uint tot @ enc_Uint offs @ t"
      and d5: "d5 = cur (endpointFragmentMagic @ [endpointFragmentVersion] @ enc_Uint messageID
        @ enc_Uint tot @ enc_Uint offs) t (MaxFrameBytes ?lim)"
      and range: "messageID < 2 ^ 64" "tot < 2 ^ 64" "offs < 2 ^ 64"
    by (auto simp: fixed_codec.accepts_iff wire_byte_iff uint_codec.accepts_iff)
  have "chunk = t" using parts(6) by (simp add: d5 fixed_rest)
  then show ?ok
    using size data range bounds by (auto simp: frag fragment_ok_def bytes_of_fragment_def fragment_bytes_def)
next
  assume ok: ?ok
  let ?lim = "normalizeLimits l"
  have data: "data = endpointFragmentMagic @ endpointFragmentVersion # enc_Uint (frag_messageID frag)
      @ enc_Uint (frag_total frag) @ enc_Uint (frag_offset frag) @ frag_data frag"
    using ok by (simp add: bytes_of_fragment_def fragment_bytes_def)
  have "wire_fixed 4 (cur [] data (MaxFrameBytes ?lim)) = Inr (endpointFragmentMagic, cur endpointFragmentMagic
      (endpointFragmentVersion # enc_Uint (frag_messageID frag)
      @ enc_Uint (frag_total frag) @ enc_Uint (frag_offset frag) @ frag_data frag) (MaxFrameBytes ?lim))"
    by (simp add: data fixed_codec.accepts_iff fragment_magic_length)
  moreover have "data \<noteq> []" "\<not> length data \<le> 4 + 1"
    unfolding data by (simp_all add: fragment_magic_length enc_Uint_def)
  moreover have "\<not> MaxFrameBytes ?lim < int (length data)" using ok by auto
  moreover have "\<not> (frag_total frag = 0 \<or> length (frag_data frag) = 0
      \<or> uint64_of_int (MaxMessageBytes ?lim) < frag_total frag \<or> uint64_of_int (MaxInFlightBytes ?lim) < frag_total frag
      \<or> frag_total frag < frag_offset frag \<or> frag_total frag - frag_offset frag < length (frag_data frag))"
      "\<not> (frag_messageID frag = 0 \<and> (frag_offset frag \<noteq> 0 \<or> length (frag_data frag) \<noteq> frag_total frag))"
      "frag_messageID frag < 2 ^ 64" "frag_total frag < 2 ^ 64" "frag_offset frag < 2 ^ 64"
    using ok by (auto simp: fragment_ok_def)
  ultimately show ?decoded
    unfolding decodeEndpointFragment_def Let_def newWireDecoder_cur fragment_magic_length
    by (simp add: wire_byte_Cons uint_codec.reads_back fixed_rest)
qed

section \<open>Sizes\<close>

lemma uvarint_length: "v < 128 ^ Suc n \<Longrightarrow> length (AppendUvarint v) \<le> Suc n"
proof (induction n arbitrary: v)
  case 0
  then show ?case by (simp add: AppendUvarint.simps)
next
  case (Suc n)
  then have "v div 128 < 128 ^ Suc n" by (simp add: less_mult_imp_div_less mult.commute)
  then show ?case using Suc.IH [of "v div 128"] by (simp add: AppendUvarint.simps [of v])
qed

lemma enc_Uint_length: "v < 2 ^ 64 \<Longrightarrow> length (enc_Uint v) \<le> 10"
  using uvarint_length [of v 9] by (simp add: enc_Uint_def)

text \<open>The header of a fragment never exceeds the bytes set aside for it.\<close>

lemma fragment_bytes_length:
  assumes "messageID < 2 ^ 64" "tot < 2 ^ 64" "offs < 2 ^ 64"
  shows "int (length (fragment_bytes messageID tot offs data)) \<le> maxFragmentHeaderBytes + int (length data)"
  using assms [THEN enc_Uint_length] by (simp add: fragment_bytes_def header_bytes fragment_magic_length)

lemma encodeEndpointFragment_iff:
  assumes "messageID < 2 ^ 64" "tot < 2 ^ 63"
  shows "encodeEndpointFragment messageID tot offs data maxFrameBytes = Inr out \<longleftrightarrow>
    0 < tot \<and> 0 \<le> offs \<and> data \<noteq> [] \<and> offs + int (length data) \<le> tot
    \<and> (messageID = 0 \<longrightarrow> offs = 0 \<and> int (length data) = tot)
    \<and> out = fragment_bytes messageID (nat tot) (nat offs) data \<and> int (length out) \<le> maxFrameBytes"
proof -
  have "uint64_of_int v = nat v" if "0 \<le> v" "v \<le> tot" for v
    using that assms(2) by (simp add: uint64_of_int_def)
  then show ?thesis by (auto simp: encodeEndpointFragment_def Let_def)
qed

section \<open>Assembling a message\<close>

lemma copy_at_prefix:
  "length a + length src \<le> length dst \<Longrightarrow> take (length a) dst = a \<Longrightarrow>
    take (length a + length src) (copy_at (length a) dst src) = a @ src
    \<and> length (copy_at (length a) dst src) = length dst"
  by (auto simp: copy_at_def Let_def min_def)

text \<open>An assembly that holds the first bytes of a message.\<close>

definition assembling :: "uint64 \<Rightarrow> string \<Rightarrow> nat \<Rightarrow> endpointAssembly \<Rightarrow> uint64 \<Rightarrow> bool" where
  "assembling messageID message n a previousID =
     (if n = 0 then a = empty_assembly \<and> u64 (previousID + 1) = messageID
      else asm_messageID a = messageID \<and> asm_received a = n
           \<and> (\<exists>data. asm_data a = Some data \<and> length data = length message \<and> take n data = take n message))"

text \<open>
  The next bytes of the message continue the assembly; the last ones complete it and make its ID
  the previous one.
\<close>

lemma append_next:
  assumes asm: "assembling messageID message n a previousID" and n: "n + k \<le> length message" "0 < k"
    and id: "messageID \<noteq> 0"
    and frag: "frag = \<lparr>frag_messageID = messageID, frag_total = length message, frag_offset = n,
      frag_data = take k (drop n message)\<rparr>"
  shows "\<exists>a' p. assembly_append a frag previousID = Inr (if n + k = length message then Some message else None, a', p)
    \<and> (if n + k = length message then a' = empty_assembly \<and> p = messageID
       else assembling messageID message (n + k) a' p \<and> p = previousID)"
proof -
  obtain data where data: "length data = length message" "take n data = take n message"
    and eq: "assembly_append a frag previousID = append_data messageID data n frag previousID"
  proof (cases "n = 0")
    case True
    then have "a = empty_assembly" "u64 (previousID + 1) = messageID" using asm by (simp_all add: assembling_def)
    then show ?thesis
      using True id by (intro that [of "replicate (length message) (char_of (0 :: nat))"])
        (simp_all add: assembly_append_def frag empty_assembly_def)
  next
    case False
    then obtain data where "asm_messageID a = messageID" "asm_received a = n" "asm_data a = Some data"
        "length data = length message" "take n data = take n message"
      using asm by (auto simp: assembling_def)
    then show ?thesis using id by (intro that [of data]) (simp_all add: assembly_append_def frag)
  qed
  let ?data = "copy_at n data (take k (drop n message))"
  have len: "length (take n message) = n" "length (take k (drop n message)) = k" using n by simp_all
  have "take (n + k) ?data = take n message @ take k (drop n message)" "length ?data = length message"
    using copy_at_prefix [of "take n message" "take k (drop n message)" data] data n len by simp_all
  then have new: "take (n + k) ?data = take (n + k) message" "length ?data = length message"
    by (simp_all add: take_add)
  have "?data = message" if "n + k = length message" using new that by simp
  then show ?thesis
    using new len(2) n unfolding eq unfolding append_data_def frag by (auto simp: assembling_def Let_def)
qed

section \<open>Properties of fragments\<close>

text \<open>
  A fragment is read back as it was written, within the frame and message limits of the
  receiver, and its header never exceeds the bytes that the sender sets aside for it.
\<close>

theorem fragment_roundtrip:
  assumes encoded: "encodeEndpointFragment messageID tot offs data maxFrameBytes = Inr out"
    and range: "messageID < 2 ^ 64" "tot < 2 ^ 63"
    and limits: "maxFrameBytes \<le> MaxFrameBytes (normalizeLimits l)"
      "tot \<le> MaxMessageBytes (normalizeLimits l)" "MaxMessageBytes (normalizeLimits l) < 2 ^ 63"
      "tot \<le> MaxInFlightBytes (normalizeLimits l)" "MaxInFlightBytes (normalizeLimits l) < 2 ^ 63"
  shows "decodeEndpointFragment out l = Inr \<lparr>frag_messageID = messageID, frag_total = nat tot,
      frag_offset = nat offs, frag_data = data\<rparr>
    \<and> int (length out) \<le> min maxFrameBytes (maxFragmentHeaderBytes + int (length data))"
proof -
  from encoded have frag: "0 < tot" "0 \<le> offs" "data \<noteq> []" "offs + int (length data) \<le> tot"
      "messageID = 0 \<longrightarrow> offs = 0 \<and> int (length data) = tot"
      and out: "out = fragment_bytes messageID (nat tot) (nat offs) data" "int (length out) \<le> maxFrameBytes"
    unfolding encodeEndpointFragment_iff [OF range] by blast+
  have "uint64_of_int (MaxMessageBytes (normalizeLimits l)) = nat (MaxMessageBytes (normalizeLimits l))"
      "uint64_of_int (MaxInFlightBytes (normalizeLimits l)) = nat (MaxInFlightBytes (normalizeLimits l))"
    using limits frag(1) by (simp_all add: uint64_of_int_def)
  moreover have "nat tot < 2 ^ 64" "nat offs < 2 ^ 64" using range(2) frag by simp_all
  moreover have "nat offs + length data \<le> nat tot" using frag by linarith
  ultimately have "fragment_ok (normalizeLimits l) \<lparr>frag_messageID = messageID, frag_total = nat tot,
      frag_offset = nat offs, frag_data = data\<rparr>"
    using range limits frag unfolding fragment_ok_def by (auto simp: nat_le_iff)
  moreover have "int (length out) \<le> maxFragmentHeaderBytes + int (length data)"
    using fragment_bytes_length [of messageID "nat tot" "nat offs" data] range frag out by simp
  ultimately show ?thesis
    using out limits(1) by (auto simp: decodeEndpointFragment_iff bytes_of_fragment_def)
qed

theorem fragment_roundtrip_witness:
  "decodeEndpointFragment (fragment_bytes 7 5 2 ''bc'') sample_limits =
    Inr \<lparr>frag_messageID = 7, frag_total = 5, frag_offset = 2, frag_data = ''bc''\<rparr>"
proof -
  have "encodeEndpointFragment 7 5 2 ''bc'' 256 = Inr (fragment_bytes 7 5 2 ''bc'')" by code_simp
  then show ?thesis
    using fragment_roundtrip [of 7 5 2 "''bc''" 256 "fragment_bytes 7 5 2 ''bc''" sample_limits]
    by (simp add: normalizeLimits_def sample_limits_def default_limit_def)
qed

end
