(* ===== verification/Transport.thy ===== *)
theory Transport
  imports Fragment
begin

text \<open>
  The two ends of a connection in \<^verbatim>\<open>rpc/endpoint_transport.go\<close>: \<^verbatim>\<open>writeContext\<close> admits frames
  to three queues, \<^verbatim>\<open>writeLoop\<close> sends them in fragments with a control lane that overtakes data,
  and \<^verbatim>\<open>readLoop\<close> takes fragments and assembles messages.

  The sender is a step relation: an iteration of the loop is a step, what other goroutines do to
  the queues are steps of their own.  A channel is the list of the writes admitted to it, those
  that wait for a free slot included.  The clock enters as the time \<open>elapsed\<close> of a step and as the
  choice whether a write has expired.  A step that fails ends the loop and so is no step.

  The refinement theorem: whatever the interleaving, a receiver with at least the sender's limits
  accepts every fragment and assembles exactly the messages the sender completed, in order.
\<close>

section \<open>Admitting frames\<close>

record endpointWrite =
  write_frame :: endpointFrame
  write_payload :: string
  write_done :: bool
  write_control :: bool

record sender =
  replyWrites :: "endpointWrite list"
  controlWrites :: "endpointWrite list"
  requestWrites :: "endpointWrite list"
  queuedWriteBytes :: int
  queuedControlBytes :: int
  current :: "endpointWrite option"
  dataPayload :: string
  send_offset :: nat
  messageID :: uint64
  controlBurst :: nat

definition start_sender :: sender where
  "start_sender =
     \<lparr>replyWrites = [], controlWrites = [], requestWrites = [], queuedWriteBytes = 0, queuedControlBytes = 0,
      current = None, dataPayload = [], send_offset = 0, messageID = 0, controlBurst = 0\<rparr>"

definition endpointReplyQueueCapacity :: int where
  "endpointReplyQueueCapacity = 32"

definition endpointPhysicalControl :: "string \<Rightarrow> bool" where
  "endpointPhysicalControl kind =
     (kind \<in> {''accepted'', ''renew'', ''renew_ack'', ''cancel'', ''decision'', ''done''})"

text \<open>The reply that replaces one that cannot be encoded.\<close>

definition overflow_reply :: "endpointFrame \<Rightarrow> endpointFrame" where
  "overflow_reply f =
     \<lparr>frame_Protocol = [], frame_Limits = None, frame_Kind = frame_Kind f, frame_Origin = frame_Origin f,
      frame_ID = 0, frame_TargetID = frame_TargetID f, frame_Binding = frame_Binding f, frame_Reply = True,
      frame_Epoch = 0, frame_Contract = None, frame_Options = \<lparr>AffinityKey = [], Labels = []\<rparr>,
      frame_Hops = 0, frame_Call = None, frame_Ref = None, frame_Values = [], frame_Accept = False,
      frame_Code = CodeResourceExhausted, frame_Message = ''rpc response exceeds message limit'',
      frame_Timeout = 0, frame_LeaseTTL = 0, frame_AdmissionTimeout = 0, frame_MaxCallDuration = 0\<rparr>"

definition encode_or_overflow ::
  "(string \<Rightarrow> string) \<Rightarrow> Limits \<Rightarrow> endpointFrame \<Rightarrow> StatusError + endpointFrame \<times> string" where
  "encode_or_overflow quote lim f =
     (case encodeEndpointFrame quote f (MaxMessageBytes lim) of
        Inr data \<Rightarrow> Inr (f, data)
      | Inl e \<Rightarrow>
          if \<not> frame_Reply f then Inl e
          else
            (case encodeEndpointFrame quote (overflow_reply f) (MaxMessageBytes lim) of
               Inl e' \<Rightarrow> Inl e'
             | Inr data \<Rightarrow> Inr (overflow_reply f, data)))"

definition control_budget :: "Limits \<Rightarrow> int" where
  "control_budget lim =
     (if MaxFrameBytes lim \<le> MaxInFlightBytes lim div endpointReplyQueueCapacity
      then MaxFrameBytes lim * endpointReplyQueueCapacity else MaxInFlightBytes lim)"

definition reply_queue :: "endpointFrame \<Rightarrow> bool" where
  "reply_queue f = (frame_Reply f \<or> frame_Kind f = ''hello'' \<or> frame_Kind f = ''ready'')"

text \<open>\<^verbatim>\<open>writeContext\<close> on an open endpoint; \<open>notify\<close> is whether the frame has a \<^verbatim>\<open>writeDone\<close> channel.\<close>

definition writeContext ::
  "(string \<Rightarrow> string) \<Rightarrow> Limits \<Rightarrow> bool \<Rightarrow> endpointFrame \<Rightarrow> sender \<Rightarrow> StatusError + sender" where
  "writeContext quote lim notify frame s =
     (case encode_or_overflow quote lim frame of
        Inl e \<Rightarrow> Inl e
      | Inr (f, data) \<Rightarrow>
          let size = int (length data);
              control = (endpointPhysicalControl (frame_Kind f) \<and> size \<le> MaxFrameBytes lim - maxFragmentHeaderBytes);
              w = \<lparr>write_frame = f, write_payload = data, write_done = notify, write_control = control\<rparr>
          in
          if (frame_Kind f = ''renew'' \<or> frame_Kind f = ''renew_ack'') \<and> \<not> control
          then Inl (status CodeResourceExhausted ''rpc renewal exceeds control frame limit'')
          else if control
          then if control_budget lim - size < queuedControlBytes s
               then Inl (status CodeResourceExhausted ''rpc control byte limit exceeded'')
               else Inr (s\<lparr>queuedControlBytes := queuedControlBytes s + size, controlWrites := controlWrites s @ [w]\<rparr>)
          else if MaxInFlightBytes lim < size \<or> MaxInFlightBytes lim - size < queuedWriteBytes s
          then Inl (status CodeResourceExhausted ''rpc endpoint in-flight byte limit exceeded'')
          else if reply_queue f
          then Inr (s\<lparr>queuedWriteBytes := queuedWriteBytes s + size, replyWrites := replyWrites s @ [w]\<rparr>)
          else Inr (s\<lparr>queuedWriteBytes := queuedWriteBytes s + size, requestWrites := requestWrites s @ [w]\<rparr>))"

text \<open>The bytes \<^verbatim>\<open>completeWrite\<close> gives back.\<close>

definition completeWrite :: "endpointWrite \<Rightarrow> sender \<Rightarrow> sender" where
  "completeWrite w s =
     (if write_control w
      then s\<lparr>queuedControlBytes := queuedControlBytes s - int (length (write_payload w))\<rparr>
      else s\<lparr>queuedWriteBytes := queuedWriteBytes s - int (length (write_payload w))\<rparr>)"

section \<open>Sending fragments\<close>

definition fragment_end :: "Limits \<Rightarrow> string \<Rightarrow> nat \<Rightarrow> nat" where
  "fragment_end lim data position =
     nat (min (int position + MaxFrameBytes lim - maxFragmentHeaderBytes) (int (length data)))"

definition next_fragment :: "Limits \<Rightarrow> uint64 \<Rightarrow> string \<Rightarrow> nat \<Rightarrow> error + string" where
  "next_fragment lim ident data position =
     encodeEndpointFragment ident (int (length data)) (int position)
       (take (fragment_end lim data position - position) (drop position data)) (MaxFrameBytes lim)"

definition send_control :: "Limits \<Rightarrow> endpointWrite \<Rightarrow> sender \<Rightarrow> error + string \<times> sender" where
  "send_control lim w s =
     (case next_fragment lim 0 (write_payload w) 0 of
        Inl e \<Rightarrow> Inl e
      | Inr frag \<Rightarrow> Inr (frag, completeWrite w (s\<lparr>controlBurst := controlBurst s + 1\<rparr>)))"

text \<open>
  At the start of a message the time it has waited is taken off its timeout, which is encoded
  again, and the message gets the next ID.  A queued frame with a timeout has its \<^verbatim>\<open>queuedAt\<close> set:
  \<^verbatim>\<open>writeContext\<close> sees to it.
\<close>

definition refresh_timeout :: "(string \<Rightarrow> string) \<Rightarrow> Limits \<Rightarrow> int \<Rightarrow> endpointWrite \<Rightarrow> StatusError + string" where
  "refresh_timeout quote lim elapsed w =
     (if 0 < frame_Timeout (write_frame w)
      then encodeEndpointFrame quote
             ((write_frame w)\<lparr>frame_Timeout := max 1 (frame_Timeout (write_frame w) - elapsed)\<rparr>) (MaxMessageBytes lim)
      else Inr (write_payload w))"

definition start_message :: "(string \<Rightarrow> string) \<Rightarrow> Limits \<Rightarrow> int \<Rightarrow> endpointWrite \<Rightarrow> sender \<Rightarrow> StatusError + sender" where
  "start_message quote lim elapsed w s =
     (if send_offset s \<noteq> 0 then Inr s
      else if messageID s = 2 ^ 64 - 1
      then Inl (status CodeResourceExhausted ''rpc transport message id space exhausted'')
      else
        case refresh_timeout quote lim elapsed w of
          Inl e \<Rightarrow> Inl e
        | Inr data \<Rightarrow> Inr (s\<lparr>dataPayload := data, messageID := messageID s + 1\<rparr>))"

text \<open>One data fragment: its bytes and, with the last one, the message it completes.\<close>

definition send_data ::
  "(string \<Rightarrow> string) \<Rightarrow> Limits \<Rightarrow> int \<Rightarrow> endpointWrite \<Rightarrow> sender \<Rightarrow> error + string \<times> string option \<times> sender" where
  "send_data quote lim elapsed w s0 =
     (case start_message quote lim elapsed w s0 of
        Inl e \<Rightarrow> Inl (StatusError_Error e)
      | Inr s \<Rightarrow>
          case next_fragment lim (messageID s) (dataPayload s) (send_offset s) of
            Inl e \<Rightarrow> Inl e
          | Inr frag \<Rightarrow>
              let position = fragment_end lim (dataPayload s) (send_offset s);
                  s' = s\<lparr>controlBurst := 0, send_offset := position\<rparr>
              in
              if position = length (dataPayload s)
              then Inr (frag, Some (dataPayload s),
                     completeWrite w (s'\<lparr>current := None, dataPayload := [], send_offset := 0\<rparr>))
              else Inr (frag, None, s'))"

text \<open>
  When the loop looks at the control queue.  The selects of the loop leave open which ready queue
  is taken, and other goroutines may fill a queue after the loop has looked at it, so a data
  fragment may go out at any time.
\<close>

definition control_turn :: "sender \<Rightarrow> bool" where
  "control_turn s = (current s = None \<or> controlBurst s < 4)"

datatype event = Admitted | Picked | Expired | Sent bool string "string option"

inductive sender_step :: "(string \<Rightarrow> string) \<Rightarrow> Limits \<Rightarrow> sender \<Rightarrow> event \<Rightarrow> sender \<Rightarrow> bool"
  for quote :: "string \<Rightarrow> string" and lim :: Limits where
  admit: "writeContext quote lim notify f s = Inr s' \<Longrightarrow> sender_step quote lim s Admitted s'"
| pick_reply: "current s = None \<Longrightarrow> replyWrites s = w # ws \<Longrightarrow>
    sender_step quote lim s Picked (s\<lparr>current := Some w, replyWrites := ws\<rparr>)"
| pick_request: "current s = None \<Longrightarrow> requestWrites s = w # ws \<Longrightarrow>
    sender_step quote lim s Picked (s\<lparr>current := Some w, requestWrites := ws\<rparr>)"
| control: "control_turn s \<Longrightarrow> controlWrites s = w # ws \<Longrightarrow>
    send_control lim w (s\<lparr>controlWrites := ws\<rparr>) = Inr (frag, s') \<Longrightarrow>
    sender_step quote lim s (Sent True frag (Some (write_payload w))) s'"
| data: "current s = Some w \<Longrightarrow> 0 \<le> elapsed \<Longrightarrow> send_data quote lim elapsed w s = Inr (frag, message, s') \<Longrightarrow>
    sender_step quote lim s (Sent False frag message) s'"
| expire_control: "control_turn s \<Longrightarrow> controlWrites s = w # ws \<Longrightarrow> write_done w \<Longrightarrow>
    sender_step quote lim s Expired (completeWrite w (s\<lparr>controlWrites := ws\<rparr>))"
| expire_data: "current s = Some w \<Longrightarrow> send_offset s = 0 \<Longrightarrow> write_done w \<Longrightarrow>
    sender_step quote lim s Expired (completeWrite w (s\<lparr>current := None\<rparr>))"

inductive_cases sender_stepE: "sender_step quote lim s e s'"

inductive sender_run :: "(string \<Rightarrow> string) \<Rightarrow> Limits \<Rightarrow> sender \<Rightarrow> event list \<Rightarrow> sender \<Rightarrow> bool"
  for quote :: "string \<Rightarrow> string" and lim :: Limits and s :: sender where
  run_nil: "sender_run quote lim s [] s"
| run_step: "sender_run quote lim s es s' \<Longrightarrow> sender_step quote lim s' e s'' \<Longrightarrow>
    sender_run quote lim s (es @ [e]) s''"

section \<open>Receiving fragments\<close>

record reader =
  read_assembly :: endpointAssembly
  previousMessageID :: uint64

definition start_reader :: reader where
  "start_reader = \<lparr>read_assembly = empty_assembly, previousMessageID = 0\<rparr>"

text \<open>One physical read of \<^verbatim>\<open>readLoop\<close>: the lane and, once complete, the message.\<close>

definition read_fragment :: "Limits \<Rightarrow> string \<Rightarrow> reader \<Rightarrow> StatusError + (bool \<times> string) option \<times> reader" where
  "read_fragment l data r =
     (case decodeEndpointFragment data l of
        Inl e \<Rightarrow> Inl (status CodeProtocol e)
      | Inr frag \<Rightarrow>
          case assembly_append (read_assembly r) frag (previousMessageID r) of
            Inl e \<Rightarrow> Inl (status CodeProtocol e)
          | Inr (message, a, previous) \<Rightarrow>
              Inr (map_option (\<lambda>m. (frag_messageID frag = 0, m)) message,
                   \<lparr>read_assembly = a, previousMessageID = previous\<rparr>))"

fun read_fragments :: "Limits \<Rightarrow> reader \<Rightarrow> string list \<Rightarrow> StatusError + (bool \<times> string) list \<times> reader" where
  "read_fragments l r [] = Inr ([], r)"
| "read_fragments l r (data # rest) =
     (case read_fragment l data r of
        Inl e \<Rightarrow> Inl e
      | Inr (message, r') \<Rightarrow>
          case read_fragments l r' rest of
            Inl e \<Rightarrow> Inl e
          | Inr (ms, r'') \<Rightarrow> Inr ((case message of None \<Rightarrow> ms | Some m \<Rightarrow> m # ms), r''))"

section \<open>The invariant of the sender\<close>

definition payload_bytes :: "endpointWrite list \<Rightarrow> int" where
  "payload_bytes ws = sum_list (map (\<lambda>w. int (length (write_payload w))) ws)"

lemma payload_bytes_simps [simp]:
  "payload_bytes [] = 0" "payload_bytes (w # ws) = int (length (write_payload w)) + payload_bytes ws"
  "payload_bytes (ws @ vs) = payload_bytes ws + payload_bytes vs"
  by (simp_all add: payload_bytes_def)

lemma payload_bytes_nonneg: "0 \<le> payload_bytes ws"
  by (induction ws) simp_all

text \<open>The data writes that are queued or being sent.\<close>

definition data_writes :: "sender \<Rightarrow> endpointWrite list" where
  "data_writes s = replyWrites s @ requestWrites s @ (case current s of None \<Rightarrow> [] | Some w \<Rightarrow> [w])"

definition payload_fits :: "Limits \<Rightarrow> endpointWrite \<Rightarrow> bool" where
  "payload_fits lim w =
     (write_payload w \<noteq> [] \<and> int (length (write_payload w)) \<le> MaxMessageBytes lim
      \<and> (write_control w \<longrightarrow> int (length (write_payload w)) \<le> MaxFrameBytes lim - maxFragmentHeaderBytes))"

definition sender_inv :: "Limits \<Rightarrow> sender \<Rightarrow> bool" where
  "sender_inv lim s =
     (list_all (\<lambda>w. payload_fits lim w \<and> \<not> write_control w) (data_writes s)
      \<and> list_all (\<lambda>w. payload_fits lim w \<and> write_control w) (controlWrites s)
      \<and> queuedWriteBytes s = payload_bytes (data_writes s) \<and> queuedWriteBytes s \<le> MaxInFlightBytes lim
      \<and> queuedControlBytes s = payload_bytes (controlWrites s) \<and> queuedControlBytes s \<le> MaxInFlightBytes lim
      \<and> messageID s < 2 ^ 64
      \<and> (send_offset s \<noteq> 0 \<longrightarrow> current s \<noteq> None \<and> messageID s \<noteq> 0 \<and> send_offset s < length (dataPayload s)
          \<and> int (length (dataPayload s)) \<le> MaxMessageBytes lim))"

definition valid_limits :: "Limits \<Rightarrow> bool" where
  "valid_limits lim = (validateWireLimits (limitsToWire lim) = None)"

lemma valid_limits_bounds:
  assumes "valid_limits lim"
  shows "256 \<le> MaxFrameBytes lim" "0 < MaxMessageBytes lim" "MaxMessageBytes lim \<le> MaxInFlightBytes lim"
  using assms by (simp_all add: valid_limits_def validateWireLimits_None limitsToWire_def)

lemma encoded_size:
  "encodeEndpointFrame quote f n = Inr data \<Longrightarrow> data \<noteq> [] \<and> int (length data) \<le> n"
  by (auto simp: encodeEndpointFrame_def Let_def split: option.splits if_splits)

lemma encode_or_overflow_size:
  "encode_or_overflow quote lim f = Inr (f', data) \<Longrightarrow> data \<noteq> [] \<and> int (length data) \<le> MaxMessageBytes lim"
  by (auto simp: encode_or_overflow_def split: sum.splits if_splits dest: encoded_size)

lemma control_budget_le: "control_budget lim \<le> MaxInFlightBytes lim"
proof -
  have "a * 32 \<le> b" if "a \<le> b div 32" for a b :: int using that by presburger
  then show ?thesis by (simp add: control_budget_def endpointReplyQueueCapacity_def)
qed

text \<open>What admission does to the queues.\<close>

lemma writeContext_cases:
  assumes "writeContext quote lim notify f s = Inr s'"
  obtains w where "payload_fits lim w" "write_control w" "queuedControlBytes s + int (length (write_payload w)) \<le> control_budget lim"
      "s' = s\<lparr>queuedControlBytes := queuedControlBytes s + int (length (write_payload w)), controlWrites := controlWrites s @ [w]\<rparr>"
  | w where "payload_fits lim w" "\<not> write_control w" "queuedWriteBytes s + int (length (write_payload w)) \<le> MaxInFlightBytes lim"
      "s' = s\<lparr>queuedWriteBytes := queuedWriteBytes s + int (length (write_payload w)), replyWrites := replyWrites s @ [w]\<rparr>
       \<or> s' = s\<lparr>queuedWriteBytes := queuedWriteBytes s + int (length (write_payload w)), requestWrites := requestWrites s @ [w]\<rparr>"
proof -
  obtain f' data where enc: "encode_or_overflow quote lim f = Inr (f', data)"
    using assms by (auto simp: writeContext_def split: sum.splits)
  note size = encode_or_overflow_size [OF enc]
  let ?control = "endpointPhysicalControl (frame_Kind f') \<and> int (length data) \<le> MaxFrameBytes lim - maxFragmentHeaderBytes"
  let ?w = "\<lparr>write_frame = f', write_payload = data, write_done = notify, write_control = ?control\<rparr>"
  have fits: "payload_fits lim ?w" using size by (simp add: payload_fits_def)
  show thesis
  proof (cases ?control)
    case True
    then show ?thesis
      using assms enc fits by (intro that(1) [of ?w]) (auto simp: writeContext_def Let_def split: if_splits)
  next
    case False
    then show ?thesis
      using assms enc fits by (intro that(2) [of ?w]) (auto simp: writeContext_def Let_def split: if_splits)
  qed
qed

lemma completeWrite_sel [simp]:
  "replyWrites (completeWrite w s) = replyWrites s" "controlWrites (completeWrite w s) = controlWrites s"
  "requestWrites (completeWrite w s) = requestWrites s" "current (completeWrite w s) = current s"
  "dataPayload (completeWrite w s) = dataPayload s" "send_offset (completeWrite w s) = send_offset s"
  "messageID (completeWrite w s) = messageID s" "controlBurst (completeWrite w s) = controlBurst s"
  "queuedWriteBytes (completeWrite w s) =
     (if write_control w then queuedWriteBytes s else queuedWriteBytes s - int (length (write_payload w)))"
  "queuedControlBytes (completeWrite w s) =
     (if write_control w then queuedControlBytes s - int (length (write_payload w)) else queuedControlBytes s)"
  by (simp_all add: completeWrite_def)

lemma refresh_size:
  assumes "refresh_timeout quote lim elapsed w = Inr data" "payload_fits lim w"
  shows "data \<noteq> [] \<and> int (length data) \<le> MaxMessageBytes lim"
  using assms by (auto simp: refresh_timeout_def payload_fits_def split: if_splits dest: encoded_size)

text \<open>The state from which a data fragment is sent.\<close>

lemma start_message_cases:
  assumes "start_message quote lim elapsed w s = Inr s1" "sender_inv lim s" "current s = Some w"
  obtains data where "s1 = s\<lparr>dataPayload := data, messageID := (if send_offset s = 0 then messageID s + 1 else messageID s)\<rparr>"
    "send_offset s < length data" "int (length data) \<le> MaxMessageBytes lim" "messageID s1 \<noteq> 0" "messageID s1 < 2 ^ 64"
    "send_offset s \<noteq> 0 \<longrightarrow> data = dataPayload s"
proof (cases "send_offset s = 0")
  case True
  then obtain data where data: "refresh_timeout quote lim elapsed w = Inr data" "messageID s \<noteq> 2 ^ 64 - 1"
      "s1 = s\<lparr>dataPayload := data, messageID := messageID s + 1\<rparr>"
    using assms(1) by (auto simp: start_message_def split: if_splits sum.splits)
  moreover have "payload_fits lim w" "messageID s < 2 ^ 64" using assms(2,3) by (simp_all add: sender_inv_def data_writes_def)
  ultimately show ?thesis using True refresh_size [OF data(1)] by (intro that [of data]) auto
next
  case False
  then show ?thesis using assms by (intro that [of "dataPayload s"]) (auto simp: start_message_def sender_inv_def)
qed

lemma fragment_end_bounds:
  assumes "valid_limits lim" "n < length data"
  shows "n < fragment_end lim data n" "fragment_end lim data n \<le> length data"
    "int (fragment_end lim data n) - int n \<le> MaxFrameBytes lim - maxFragmentHeaderBytes"
  using assms valid_limits_bounds(1) [OF assms(1)] by (auto simp: fragment_end_def header_bytes)

lemma send_data_cases:
  assumes sent: "send_data quote lim elapsed w s = Inr (frag, message, s')"
    and inv: "sender_inv lim s" "current s = Some w" "valid_limits lim"
  obtains data ident n where "send_offset s < n" "n \<le> length data" "int (length data) \<le> MaxMessageBytes lim"
    "ident \<noteq> 0" "ident < 2 ^ 64" "ident = (if send_offset s = 0 then messageID s + 1 else messageID s)"
    "send_offset s \<noteq> 0 \<longrightarrow> data = dataPayload s"
    "next_fragment lim ident data (send_offset s) = Inr frag" "n = fragment_end lim data (send_offset s)"
    "message = (if n = length data then Some data else None)"
    "s' = (if n = length data
       then completeWrite w (s\<lparr>dataPayload := [], messageID := ident, controlBurst := 0, send_offset := 0, current := None\<rparr>)
       else s\<lparr>dataPayload := data, messageID := ident, controlBurst := 0, send_offset := n\<rparr>)"
proof -
  obtain s1 where s1: "start_message quote lim elapsed w s = Inr s1"
    using sent by (auto simp: send_data_def split: sum.splits)
  obtain data where data: "s1 = s\<lparr>dataPayload := data, messageID := (if send_offset s = 0 then messageID s + 1 else messageID s)\<rparr>"
    "send_offset s < length data" "int (length data) \<le> MaxMessageBytes lim" "messageID s1 \<noteq> 0" "messageID s1 < 2 ^ 64"
    "send_offset s \<noteq> 0 \<longrightarrow> data = dataPayload s"
    using start_message_cases [OF s1 inv(1,2)] by blast
  have sel: "dataPayload s1 = data" "send_offset s1 = send_offset s"
      "messageID s1 = (if send_offset s = 0 then messageID s + 1 else messageID s)"
    by (simp_all add: data(1))
  note ends = fragment_end_bounds [OF inv(3) data(2)]
  have frag: "next_fragment lim (messageID s1) data (send_offset s) = Inr frag"
    using sent s1 sel by (auto simp: send_data_def Let_def split: sum.splits if_splits)
  show thesis
    by (rule that [OF ends(1,2) data(3,4,5) sel(3) data(6) frag refl])
      (use sent s1 sel frag in \<open>auto simp: send_data_def Let_def data(1)\<close>)
qed

lemma sender_step_inv:
  assumes step: "sender_step quote lim s e s'" and inv: "sender_inv lim s" and valid: "valid_limits lim"
  shows "sender_inv lim s'"
  using step
proof (cases rule: sender_step.cases)
  case (admit notify f)
  from admit(2) show ?thesis
  proof (cases rule: writeContext_cases)
    case (1 w)
    then show ?thesis using inv control_budget_le [of lim] by (auto simp: sender_inv_def data_writes_def)
  next
    case (2 w)
    then show ?thesis using inv by (auto simp: sender_inv_def data_writes_def)
  qed
next
  case (data w elapsed frag message)
  show ?thesis
    using send_data_cases [OF data(4) inv data(2) valid]
  proof cases
    case (1 payload ident n)
    then show ?thesis
      using inv data(2) by (cases "n = length payload") (auto simp: sender_inv_def data_writes_def)
  qed
qed (use inv in \<open>auto simp: sender_inv_def data_writes_def send_control_def split: sum.splits option.splits\<close>)

section \<open>Reassembly\<close>

text \<open>The receiver accepts what a sender with these limits writes.\<close>

definition receiver_allows :: "Limits \<Rightarrow> Limits \<Rightarrow> bool" where
  "receiver_allows lim l =
     (MaxFrameBytes lim \<le> MaxFrameBytes (normalizeLimits l) \<and> MaxMessageBytes lim \<le> MaxMessageBytes (normalizeLimits l)
      \<and> MaxInFlightBytes lim \<le> MaxInFlightBytes (normalizeLimits l)
      \<and> MaxMessageBytes (normalizeLimits l) < 2 ^ 63 \<and> MaxInFlightBytes (normalizeLimits l) < 2 ^ 63)"

lemma decode_next_fragment:
  assumes encoded: "next_fragment lim ident data n = Inr frag" and valid: "valid_limits lim" and allows: "receiver_allows lim l"
    and bounds: "ident < 2 ^ 64" "n < length data" "int (length data) \<le> MaxMessageBytes lim"
    and control: "ident = 0 \<Longrightarrow> n = 0 \<and> int (length data) \<le> MaxFrameBytes lim - maxFragmentHeaderBytes"
  shows "decodeEndpointFragment frag l = Inr \<lparr>frag_messageID = ident, frag_total = length data, frag_offset = n,
    frag_data = take (fragment_end lim data n - n) (drop n data)\<rparr>"
proof -
  let ?chunk = "take (fragment_end lim data n - n) (drop n data)"
  let ?frag = "\<lparr>frag_messageID = ident, frag_total = length data, frag_offset = n, frag_data = ?chunk\<rparr>"
  note ends = fragment_end_bounds [OF valid bounds(2)]
  have total: "length data < 2 ^ 63" "int (length data) < 2 ^ 63" using bounds(3) allows by (simp_all add: receiver_allows_def)
  have frag: "frag = bytes_of_fragment ?frag" "int (length frag) \<le> MaxFrameBytes lim"
    using encoded unfolding next_fragment_def encodeEndpointFragment_iff [OF bounds(1) total(2)]
    by (auto simp: bytes_of_fragment_def)
  have "uint64_of_int (MaxMessageBytes (normalizeLimits l)) = nat (MaxMessageBytes (normalizeLimits l))"
      "uint64_of_int (MaxInFlightBytes (normalizeLimits l)) = nat (MaxInFlightBytes (normalizeLimits l))"
    using allows valid_limits_bounds [OF valid] by (simp_all add: receiver_allows_def uint64_of_int_def)
  moreover have "int (length data) \<le> MaxMessageBytes (normalizeLimits l)" "int (length data) \<le> MaxInFlightBytes (normalizeLimits l)"
    using allows bounds(3) valid_limits_bounds(3) [OF valid] by (simp_all add: receiver_allows_def)
  moreover have "length ?chunk = fragment_end lim data n - n" using ends by simp
  moreover have "fragment_end lim data n = length data" if "ident = 0"
    using control [OF that] by (auto simp: fragment_end_def)
  ultimately have "fragment_ok (normalizeLimits l) ?frag"
    using bounds total ends control unfolding fragment_ok_def by (auto simp: nat_le_iff le_nat_iff)
  then show ?thesis
    using frag allows by (auto simp: decodeEndpointFragment_iff receiver_allows_def)
qed

text \<open>The reader keeps pace with the sender: it holds the bytes sent of the current message.\<close>

definition in_step :: "sender \<Rightarrow> reader \<Rightarrow> bool" where
  "in_step s r =
     (if send_offset s = 0 then read_assembly r = empty_assembly \<and> previousMessageID r = messageID s
      else assembling (messageID s) (dataPayload s) (send_offset s) (read_assembly r) (previousMessageID r))"

lemma read_control:
  assumes "payload_fits lim w" "write_control w" "valid_limits lim" "receiver_allows lim l"
    "next_fragment lim 0 (write_payload w) 0 = Inr frag"
  shows "read_fragment l frag r = Inr (Some (True, write_payload w), r)"
proof -
  have w: "0 < length (write_payload w)" "int (length (write_payload w)) \<le> MaxMessageBytes lim"
      "int (length (write_payload w)) \<le> MaxFrameBytes lim - maxFragmentHeaderBytes"
    using assms(1,2) by (auto simp: payload_fits_def)
  then have "fragment_end lim (write_payload w) 0 = length (write_payload w)"
    by (simp add: fragment_end_def)
  moreover note decode_next_fragment [OF assms(5,3,4) _ w(1,2)]
  ultimately show ?thesis using w(3) by (simp add: read_fragment_def assembly_append_def)
qed

lemma read_data:
  assumes sent: "send_data quote lim elapsed w s = Inr (frag, message, s')"
    and inv: "sender_inv lim s" "current s = Some w" "valid_limits lim"
    and allows: "receiver_allows lim l" and step: "in_step s r"
  shows "\<exists>r'. read_fragment l frag r = Inr (map_option (Pair False) message, r') \<and> in_step s' r'"
  using send_data_cases [OF sent inv]
proof cases
  case (1 data ident n)
  let ?frag = "\<lparr>frag_messageID = ident, frag_total = length data, frag_offset = send_offset s,
    frag_data = take (n - send_offset s) (drop (send_offset s) data)\<rparr>"
  have decoded: "decodeEndpointFragment frag l = Inr ?frag"
    using decode_next_fragment [OF 1(8) inv(3) allows 1(5) _ 1(3)] 1(1,2,4,9) by simp
  have "u64 (messageID s + 1) = messageID s + 1" if "send_offset s = 0"
    using that 1(5,6) by (simp add: u64_small)
  then have "assembling ident data (send_offset s) (read_assembly r) (previousMessageID r)"
    using step 1(6,7) by (auto simp: in_step_def assembling_def)
  moreover have n: "send_offset s + (n - send_offset s) = n" using 1(1) by simp
  ultimately obtain a p where "assembly_append (read_assembly r) ?frag (previousMessageID r) =
        Inr (if n = length data then Some data else None, a, p)"
      "if n = length data then a = empty_assembly \<and> p = ident else assembling ident data n a p \<and> p = previousMessageID r"
    using append_next [of ident data "send_offset s" _ _ "n - send_offset s" ?frag, unfolded n] 1(1,2,4) by fastforce
  then show ?thesis
    using decoded 1(1,4,10,11) by (auto simp: read_fragment_def in_step_def split: if_splits)
qed

lemma sender_step_read:
  assumes step: "sender_step quote lim s e s'" and inv: "sender_inv lim s" "valid_limits lim"
    and allows: "receiver_allows lim l" and pace: "in_step s r"
  shows "case e of Sent c frag message \<Rightarrow> \<exists>r'. read_fragment l frag r = Inr (map_option (Pair c) message, r') \<and> in_step s' r'
    | _ \<Rightarrow> in_step s' r"
  using step
proof (cases rule: sender_step.cases)
  case (admit notify f)
  from admit(2) show ?thesis
    by (cases rule: writeContext_cases) (use admit(1) pace in \<open>auto simp: in_step_def\<close>)
next
  case (control w ws frag)
  have "payload_fits lim w" "write_control w" using inv(1) control(3) by (simp_all add: sender_inv_def)
  moreover have "next_fragment lim 0 (write_payload w) 0 = Inr frag"
    using control(4) by (auto simp: send_control_def split: sum.splits)
  ultimately have "read_fragment l frag r = Inr (Some (True, write_payload w), r)"
    using read_control [OF _ _ inv(2) allows] by blast
  moreover have "in_step s' r" using control(4) pace by (auto simp: in_step_def send_control_def split: sum.splits)
  ultimately show ?thesis using control(1) by simp
next
  case (data w elapsed frag message)
  then show ?thesis using read_data [OF data(4) inv(1) data(2) inv(2) allows pace] by simp
qed (use pace in \<open>auto simp: in_step_def\<close>)

text \<open>The fragments of a run and the messages they complete.\<close>

definition sent_fragments :: "event list \<Rightarrow> string list" where
  "sent_fragments es = concat (map (\<lambda>e. case e of Sent c frag m \<Rightarrow> [frag] | _ \<Rightarrow> []) es)"

definition completed_messages :: "event list \<Rightarrow> (bool \<times> string) list" where
  "completed_messages es = concat (map (\<lambda>e. case e of Sent c frag (Some m) \<Rightarrow> [(c, m)] | _ \<Rightarrow> []) es)"

lemma read_fragments_append:
  "read_fragments l r (as @ [b]) =
    (case read_fragments l r as of
       Inl e \<Rightarrow> Inl e
     | Inr (ms, r') \<Rightarrow>
         (case read_fragment l b r' of
            Inl e \<Rightarrow> Inl e
          | Inr (m, r'') \<Rightarrow> Inr (ms @ (case m of None \<Rightarrow> [] | Some x \<Rightarrow> [x]), r'')))"
  by (induction as arbitrary: r) (auto split: sum.splits option.splits)

lemma run_inv: "sender_run quote lim start_sender es s \<Longrightarrow> valid_limits lim \<Longrightarrow> sender_inv lim s"
proof (induction rule: sender_run.induct)
  case run_nil
  then show ?case using valid_limits_bounds [of lim] by (simp add: sender_inv_def data_writes_def start_sender_def)
qed (auto intro: sender_step_inv)

lemma run_read:
  assumes "sender_run quote lim start_sender es s" "valid_limits lim" "receiver_allows lim l"
  shows "\<exists>r. read_fragments l start_reader (sent_fragments es) = Inr (completed_messages es, r) \<and> in_step s r"
  using assms
proof (induction rule: sender_run.induct)
  case run_nil
  then show ?case
    by (simp add: sent_fragments_def completed_messages_def in_step_def start_sender_def start_reader_def)
next
  case (run_step es s' e s'')
  then obtain r where r: "read_fragments l start_reader (sent_fragments es) = Inr (completed_messages es, r)" "in_step s' r"
    by blast
  note next_step = sender_step_read [OF run_step.hyps(2) run_inv [OF run_step.hyps(1) run_step.prems(1)] run_step.prems r(2)]
  show ?case
  proof (cases e)
    case (Sent c frag m)
    then show ?thesis
      using next_step r(1)
      by (cases m) (auto simp: sent_fragments_def completed_messages_def read_fragments_append)
  qed (use next_step r in \<open>auto simp: sent_fragments_def completed_messages_def\<close>)
qed

section \<open>Progress\<close>

lemma next_fragment_ok:
  assumes "valid_limits lim" "ident < 2 ^ 64" "ident \<noteq> 0" "n < length data" "int (length data) < 2 ^ 63"
  shows "\<exists>frag. next_fragment lim ident data n = Inr frag"
proof -
  let ?chunk = "take (fragment_end lim data n - n) (drop n data)"
  note ends = fragment_end_bounds [OF assms(1,4)]
  have "length ?chunk = fragment_end lim data n - n" using ends by simp
  moreover have "int (length (fragment_bytes ident (length data) n ?chunk)) \<le> maxFragmentHeaderBytes + int (length ?chunk)"
    using assms by (intro fragment_bytes_length) auto
  ultimately have "int (length (fragment_bytes ident (length data) n ?chunk)) \<le> MaxFrameBytes lim"
    using ends by linarith
  then show ?thesis
    unfolding next_fragment_def encodeEndpointFragment_iff [OF assms(2,5)]
    using ends assms(3,4) by (auto simp: min_def)
qed

lemma send_data_continues:
  assumes "sender_inv lim s" "valid_limits lim" "MaxMessageBytes lim < 2 ^ 63" "current s = Some w" "send_offset s \<noteq> 0"
  shows "\<exists>frag message s'. send_data quote lim elapsed w s = Inr (frag, message, s')"
proof -
  have "start_message quote lim elapsed w s = Inr s" using assms(5) by (simp add: start_message_def)
  moreover have "\<exists>frag. next_fragment lim (messageID s) (dataPayload s) (send_offset s) = Inr frag"
    using assms by (intro next_fragment_ok) (auto simp: sender_inv_def)
  ultimately show ?thesis by (auto simp: send_data_def Let_def)
qed

text \<open>Runs in which the data lane waits.\<close>

definition is_control :: "event \<Rightarrow> bool" where
  "is_control e = (case e of Sent c frag m \<Rightarrow> c | _ \<Rightarrow> False)"

definition data_waits :: "event list \<Rightarrow> bool" where
  "data_waits es = list_all (\<lambda>e. case e of Sent c frag m \<Rightarrow> c | Expired \<Rightarrow> False | _ \<Rightarrow> True) es"

lemma control_step_burst:
  assumes "sender_step quote lim s e s'" "current s \<noteq> None" "data_waits [e]"
  shows "current s' \<noteq> None \<and> controlBurst s' = controlBurst s + (if is_control e then 1 else 0)
    \<and> (is_control e \<longrightarrow> controlBurst s < 4)"
  using assms(1)
proof (cases rule: sender_step.cases)
  case (admit notify f)
  from admit(2) show ?thesis
    by (cases rule: writeContext_cases) (use admit(1) assms(2) in \<open>auto simp: is_control_def\<close>)
qed (use assms(2,3) in \<open>auto simp: data_waits_def is_control_def control_turn_def send_control_def split: sum.splits\<close>)

lemma control_burst:
  assumes "sender_run quote lim s es s'" "current s \<noteq> None" "data_waits es"
  shows "current s' \<noteq> None \<and> controlBurst s' = controlBurst s + length (filter is_control es)
    \<and> controlBurst s' \<le> max 4 (controlBurst s)"
  using assms
proof (induction rule: sender_run.induct)
  case (run_step es s' e s'')
  then have "current s' \<noteq> None \<and> controlBurst s' = controlBurst s + length (filter is_control es)
    \<and> controlBurst s' \<le> max 4 (controlBurst s)" and waits: "data_waits [e]"
    by (auto simp: data_waits_def)
  then show ?case using control_step_burst [OF run_step.hyps(2) _ waits] by auto
qed simp

section \<open>A run of the sender\<close>

definition small_limits :: Limits where
  "small_limits =
     \<lparr>MaxFrameBytes = 256, MaxMessageBytes = 100, MaxInFlightBytes = 200, MaxBindings = 1, MaxPendingCalls = 1,
      MaxPendingResults = 1, MaxPendingControls = 1, MaxResources = 1, MaxMethods = 1, MaxValueDepth = 1,
      MaxValueElements = 1\<rparr>"

definition sample_payload :: string where
  "sample_payload = frame_bytes 2 (encodeWireLabels [(''z'', ''1''), (''k'', ''2'')]) sample_frame"

definition sample_write :: endpointWrite where
  "sample_write = \<lparr>write_frame = sample_frame, write_payload = sample_payload, write_done = True, write_control = False\<rparr>"

lemma small_limits_valid: "valid_limits small_limits" "receiver_allows small_limits sample_limits"
  by (simp_all add: valid_limits_def validateWireLimits_None limitsToWire_def small_limits_def receiver_allows_def
      normalizeLimits_def default_limit_def sample_limits_def)

lemma sample_payload_size: "sample_payload \<noteq> []" "int (length sample_payload) \<le> 100"
  using encoded_size [OF sample_frame_encoded] by (simp_all add: sample_payload_def)

lemma sample_admitted:
  "writeContext id small_limits True sample_frame start_sender =
    Inr (start_sender\<lparr>queuedWriteBytes := int (length sample_payload), replyWrites := [sample_write]\<rparr>)"
proof -
  have "encode_or_overflow id small_limits sample_frame = Inr (sample_frame, sample_payload)"
    using sample_frame_encoded by (simp add: encode_or_overflow_def small_limits_def sample_payload_def)
  moreover have "\<not> endpointPhysicalControl (frame_Kind sample_frame)" "reply_queue sample_frame"
      "frame_Kind sample_frame = ''ready''"
    by (simp_all add: endpointPhysicalControl_def reply_queue_def sample_frame_def)
  ultimately show ?thesis
    using sample_payload_size
    by (simp add: writeContext_def Let_def small_limits_def start_sender_def sample_write_def)
qed

definition picked_sender :: sender where
  "picked_sender = start_sender\<lparr>queuedWriteBytes := int (length sample_payload), current := Some sample_write\<rparr>"

lemma sample_picked:
  "sender_run id small_limits start_sender [Admitted]
     (start_sender\<lparr>queuedWriteBytes := int (length sample_payload), replyWrites := [sample_write]\<rparr>)"
  "sender_run id small_limits start_sender [Admitted, Picked] picked_sender"
proof -
  let ?s = "start_sender\<lparr>queuedWriteBytes := int (length sample_payload), replyWrites := [sample_write]\<rparr>"
  show run: "sender_run id small_limits start_sender [Admitted] ?s"
    using run_step [OF run_nil admit [OF sample_admitted]] by simp
  have "sender_step id small_limits ?s Picked picked_sender"
    using pick_reply [of ?s sample_write "[]"] by (simp add: start_sender_def picked_sender_def)
  from run_step [OF run this] show "sender_run id small_limits start_sender [Admitted, Picked] picked_sender" by simp
qed

lemma sample_run:
  "\<exists>frag s. sender_run id small_limits start_sender [Admitted, Picked, Sent False frag (Some sample_payload)] s"
proof -
  have "sample_frame\<lparr>frame_Timeout := max 1 (frame_Timeout sample_frame - 0)\<rparr> = sample_frame"
    by (simp add: sample_frame_def)
  then have "refresh_timeout id small_limits 0 sample_write = Inr sample_payload"
    using sample_frame_encoded by (simp add: refresh_timeout_def sample_write_def small_limits_def sample_payload_def)
  then have started: "start_message id small_limits 0 sample_write picked_sender = Inr (picked_sender\<lparr>dataPayload := sample_payload, messageID := 1\<rparr>)"
    by (simp add: start_message_def picked_sender_def start_sender_def)
  have "\<exists>frag. next_fragment small_limits 1 sample_payload 0 = Inr frag"
    using sample_payload_size by (intro next_fragment_ok [OF small_limits_valid(1)]) auto
  moreover have "fragment_end small_limits sample_payload 0 = length sample_payload"
    using sample_payload_size by (simp add: fragment_end_def small_limits_def header_bytes)
  ultimately obtain frag s where "send_data id small_limits 0 sample_write picked_sender = Inr (frag, Some sample_payload, s)"
    using started by (auto simp: send_data_def Let_def picked_sender_def start_sender_def)
  then have "sender_step id small_limits picked_sender (Sent False frag (Some sample_payload)) s"
    by (intro sender_step.data [of picked_sender sample_write 0]) (simp_all add: picked_sender_def start_sender_def)
  from run_step [OF sample_picked(2) this] show ?thesis by auto
qed

section \<open>Properties of the transport\<close>

text \<open>
  C2. Refinement: for every interleaving of admissions, control and data fragments, a receiver
  whose limits are at least the sender's accepts every fragment, and the messages it assembles are
  exactly those the sender completed, in the order and on the lane they were sent.
\<close>

theorem fragments_reassemble:
  assumes "sender_run quote lim start_sender es s" "valid_limits lim" "receiver_allows lim l"
  shows "\<exists>r. read_fragments l start_reader (sent_fragments es) = Inr (completed_messages es, r)
    \<and> (send_offset s = 0 \<longrightarrow> r = \<lparr>read_assembly = empty_assembly, previousMessageID = messageID s\<rparr>)"
proof -
  obtain r where "read_fragments l start_reader (sent_fragments es) = Inr (completed_messages es, r)" "in_step s r"
    using run_read [OF assms] by blast
  then show ?thesis by (cases r) (auto simp: in_step_def)
qed

theorem fragments_reassemble_witness:
  "\<exists>frag r. read_fragments sample_limits start_reader [frag] = Inr ([(False, sample_payload)], r)"
proof -
  obtain frag s where "sender_run id small_limits start_sender [Admitted, Picked, Sent False frag (Some sample_payload)] s"
    using sample_run by blast
  from fragments_reassemble [OF this small_limits_valid] show ?thesis
    by (auto simp: sent_fragments_def completed_messages_def)
qed





end
