(* ===== verification/Rpc_Value.thy ===== *)
theory Rpc_Value
  imports Frame
begin

text \<open>
  Values of the MRPC protocol: \<^verbatim>\<open>rpc/value.go\<close> (the value tree, its limits and the shape its type
  demands) and \<^verbatim>\<open>rpc/endpoint_value_codec.go\<close> (its binary form).

  The dynamic \<^verbatim>\<open>Data any\<close> of a value is the datatype \<open>rpc_data\<close> with one constructor per Go type
  the code switches on; \<open>DOther\<close> is any other type, by its name.  The nesting a decoder may enter
  is the natural number \<open>room\<close>, the levels left below \<^verbatim>\<open>MaxValueDepth\<close>, so the decoder recurses
  on it.  The theorems show that what is encoded is decoded again, map entries and fields in their
  canonical order, and that validation is a bound on the sums over the whole tree.
\<close>

section \<open>Values\<close>

datatype rpc_value =
  RpcValue (rv_Type: string) (rv_Data: rpc_data) (rv_Resource: "ResourceRef option")
and rpc_data =
    DNil
  | DBool bool
  | DInt int
  | DUint uint64
  | DFloat float64
  | DComplex "float64 \<times> float64"
  | DString string
  | DBytes string
  | DSlice "rpc_value list"
  | DMap "(rpc_value \<times> rpc_value) list"
  | DFields "(nat \<times> rpc_value) list"
  | DOptional rpc_value
  | DOther string

lemma rpc_induct [case_names Value Nil Bool Int Uint Float Complex String Bytes Slice Map Fields Optional Other]:
  assumes "\<And>t d r. Q d \<Longrightarrow> P (RpcValue t d r)" "Q DNil" "\<And>b. Q (DBool b)" "\<And>i. Q (DInt i)" "\<And>u. Q (DUint u)"
    "\<And>f. Q (DFloat f)" "\<And>c. Q (DComplex c)" "\<And>s. Q (DString s)" "\<And>s. Q (DBytes s)"
    "\<And>vs. (\<And>v. v \<in> set vs \<Longrightarrow> P v) \<Longrightarrow> Q (DSlice vs)"
    "\<And>es. (\<And>e. e \<in> set es \<Longrightarrow> P (fst e)) \<Longrightarrow> (\<And>e. e \<in> set es \<Longrightarrow> P (snd e)) \<Longrightarrow> Q (DMap es)"
    "\<And>fs. (\<And>f. f \<in> set fs \<Longrightarrow> P (snd f)) \<Longrightarrow> Q (DFields fs)"
    "\<And>v. P v \<Longrightarrow> Q (DOptional v)" "\<And>t. Q (DOther t)"
  shows "P v" "Q d"
  using assms by (induction v and d rule: rpc_value.induct rpc_data.induct) (auto simp: fsts.simps snds.simps)

text \<open>The name \<^verbatim>\<open>%T\<close> prints for the dynamic type.\<close>

fun type_name :: "rpc_data \<Rightarrow> string" where
  "type_name DNil = ''<nil>''"
| "type_name (DBool b) = ''bool''"
| "type_name (DInt i) = ''int64''"
| "type_name (DUint u) = ''uint64''"
| "type_name (DFloat f) = ''float64''"
| "type_name (DComplex c) = ''complex128''"
| "type_name (DString s) = ''string''"
| "type_name (DBytes s) = ''[]uint8''"
| "type_name (DSlice vs) = ''[]rpc.Value''"
| "type_name (DMap es) = ''[]rpc.MapEntry''"
| "type_name (DFields fs) = ''[]rpc.Field''"
| "type_name (DOptional v) = ''rpc.Value''"
| "type_name (DOther t) = t"

text \<open>A deep copy of a value.\<close>

fun cloneValue :: "rpc_value \<Rightarrow> rpc_value" and clone_data :: "rpc_data \<Rightarrow> rpc_data" where
  "cloneValue (RpcValue t d r) = RpcValue t (clone_data d) r"
| "clone_data (DSlice vs) = DSlice (map cloneValue vs)"
| "clone_data (DMap es) = DMap (map (\<lambda>e. (cloneValue (fst e), cloneValue (snd e))) es)"
| "clone_data (DFields fs) = DFields (map (\<lambda>f. (fst f, cloneValue (snd f))) fs)"
| "clone_data (DOptional v) = DOptional (cloneValue v)"
| "clone_data d = d"

definition cloneValues :: "rpc_value list \<Rightarrow> rpc_value list" where
  "cloneValues vs = map cloneValue vs"

section \<open>Shapes\<close>

text \<open>The loop of \<^verbatim>\<open>rpcMapTypes\<close>: the text before the bracket that closes the key type, and the rest.\<close>

fun map_types_loop :: "nat \<Rightarrow> string \<Rightarrow> string \<Rightarrow> (string \<times> string) option" where
  "map_types_loop depth acc [] = None"
| "map_types_loop depth acc (c # s) =
     (if c = CHR ''['' then map_types_loop (depth + 1) (acc @ [c]) s
      else if c = CHR '']''
      then if depth - 1 = 0 then Some (acc, s) else map_types_loop (depth - 1) (acc @ [c]) s
      else map_types_loop depth (acc @ [c]) s)"

definition rpcMapTypes :: "string \<Rightarrow> string \<times> string \<times> bool" where
  "rpcMapTypes typ =
     (case map_types_loop 1 [] (drop (length ''map['') typ) of
        None \<Rightarrow> ([], [], False)
      | Some (k, v) \<Rightarrow> (TrimSpace k, TrimSpace v, TrimSpace k \<noteq> [] \<and> TrimSpace v \<noteq> []))"

definition HasPrefix :: "string \<Rightarrow> string \<Rightarrow> bool" where
  "HasPrefix s p = (take (length p) s = p)"

definition HasSuffix :: "string \<Rightarrow> string \<Rightarrow> bool" where
  "HasSuffix s p = HasPrefix (rev s) (rev p)"

definition shape_error :: "string \<Rightarrow> rpc_data \<Rightarrow> error option" where
  "shape_error typ data = Some (''rpc value '' @ typ @ '' has data '' @ type_name data)"

text \<open>The first item of another type, by its index.\<close>

fun item_error :: "string \<Rightarrow> string \<Rightarrow> nat \<Rightarrow> rpc_value list \<Rightarrow> error option" where
  "item_error typ elem i [] = None"
| "item_error typ elem i (v # vs) =
     (if TrimSpace (rv_Type v) \<noteq> elem
      then Some (''rpc value '' @ typ @ '' item '' @ FormatUint i @ '' has type '' @ rv_Type v)
      else item_error typ elem (i + 1) vs)"

fun entry_error :: "string \<Rightarrow> string \<Rightarrow> string \<Rightarrow> nat \<Rightarrow> (rpc_value \<times> rpc_value) list \<Rightarrow> error option" where
  "entry_error typ key val i [] = None"
| "entry_error typ key val i (e # es) =
     (if TrimSpace (rv_Type (fst e)) \<noteq> key \<or> TrimSpace (rv_Type (snd e)) \<noteq> val
      then Some (''rpc value '' @ typ @ '' entry '' @ FormatUint i @ '' has types '' @ rv_Type (fst e) @ '' and ''
             @ rv_Type (snd e))
      else entry_error typ key val (i + 1) es)"

definition scalar_shape :: "string \<Rightarrow> rpc_data \<Rightarrow> bool" where
  "scalar_shape typ data =
     (if typ = ''bool'' then (case data of DBool b \<Rightarrow> True | _ \<Rightarrow> False)
      else if typ = ''string'' then (case data of DString s \<Rightarrow> True | _ \<Rightarrow> False)
      else if typ \<in> {''uint8'', ''uint16'', ''uint32'', ''uint64''}
      then (case data of DUint u \<Rightarrow> True | _ \<Rightarrow> False)
      else if typ \<in> {''int8'', ''int16'', ''int32'', ''int64''}
      then (case data of DInt i \<Rightarrow> True | _ \<Rightarrow> False)
      else if typ \<in> {''float32'', ''float64''} then (case data of DFloat f \<Rightarrow> True | _ \<Rightarrow> False)
      else if typ \<in> {''complex64'', ''complex128''} then (case data of DComplex c \<Rightarrow> True | _ \<Rightarrow> False)
      else (case data of DFields fs \<Rightarrow> True
            | DInt i \<Rightarrow> CHR ''.'' \<in> set typ \<and> - (2 ^ 31) \<le> i \<and> i \<le> 2 ^ 31 - 1
            | _ \<Rightarrow> False))"

definition validateValueShape :: "string \<Rightarrow> rpc_data \<Rightarrow> error option" where
  "validateValueShape t data =
     (let typ = TrimSpace t in
      if data = DNil then None
      else if HasPrefix typ ''optional['' \<and> HasSuffix typ '']''
      then (case data of
              DOptional v \<Rightarrow>
                if TrimSpace (rv_Type v) \<noteq> TrimSpace (butlast (drop (length ''optional['') typ))
                then shape_error typ data else None
            | _ \<Rightarrow> shape_error typ data)
      else if HasPrefix typ ''[]''
      then if typ = ''[]uint8''
           then (case data of DBytes s \<Rightarrow> None | _ \<Rightarrow> shape_error typ data)
           else (case data of DSlice vs \<Rightarrow> item_error typ (TrimSpace (drop 2 typ)) 0 vs | _ \<Rightarrow> shape_error typ data)
      else if HasPrefix typ ''map[''
      then (case rpcMapTypes typ of (key, val, ok) \<Rightarrow>
              (case data of
                 DMap es \<Rightarrow> if ok then entry_error typ key val 0 es else shape_error typ data
               | _ \<Rightarrow> shape_error typ data))
      else if \<not> scalar_shape typ data then shape_error typ data
      else None)"

section \<open>Validation\<close>

definition errValueLimit :: error where
  "errValueLimit = ''rpc value limit exceeded''"

definition over_limit :: "Limits \<Rightarrow> int \<times> int \<Rightarrow> bool" where
  "over_limit lim st = (MaxMessageBytes lim < fst st \<or> MaxValueElements lim < snd st)"

definition check_size :: "Limits \<Rightarrow> int \<times> int \<Rightarrow> error + int \<times> int" where
  "check_size lim st = (if over_limit lim st then Inl (errValueLimit @ '': size'') else Inr st)"

text \<open>A loop that threads a state and stops at the first error.\<close>

fun chain :: "('a \<Rightarrow> 's \<Rightarrow> error + 's) \<Rightarrow> 'a list \<Rightarrow> 's \<Rightarrow> error + 's" where
  "chain f [] st = Inr st"
| "chain f (x # xs) st = (case f x st of Inl e \<Rightarrow> Inl e | Inr st' \<Rightarrow> chain f xs st')"

lemma chain_cong [fundef_cong]:
  assumes "xs = ys" "st = st'" "\<And>x st. x \<in> set ys \<Longrightarrow> f x st = g x st"
  shows "chain f xs st = chain g ys st'"
proof -
  have "chain f ys st = chain g ys st" using assms(3) by (induction ys arbitrary: st) (auto split: sum.splits)
  then show ?thesis using assms(1,2) by simp
qed

definition check_field :: "nat \<Rightarrow> nat set \<Rightarrow> error option" where
  "check_field i seen =
     (if i = 0 then Some ''rpc struct field has no ID''
      else if i \<in> seen then Some ''duplicate rpc struct field'' else None)"

text \<open>The closure \<^verbatim>\<open>validate\<close> with its captured counters \<^verbatim>\<open>bytes\<close> and \<^verbatim>\<open>elements\<close>.\<close>

fun validate_value :: "Limits \<Rightarrow> rpc_value \<Rightarrow> int \<Rightarrow> int \<times> int \<Rightarrow> error + int \<times> int"
  and validate_data :: "Limits \<Rightarrow> rpc_data \<Rightarrow> int \<Rightarrow> int \<times> int \<Rightarrow> error + int \<times> int"
where
  "validate_value lim (RpcValue t d r) depth st =
     (if t = [] then Inl ''rpc value has no type''
      else if \<not> utf8_Valid t then Inl ''rpc value type is not valid UTF-8''
      else if MaxValueDepth lim < depth then Inl (errValueLimit @ '': depth'')
      else if over_limit lim (fst st + int (length t), snd st + 1) then Inl (errValueLimit @ '': size'')
      else
        case r of
          Some ref \<Rightarrow>
            if depth \<noteq> 0 then Inl ''rpc resource must be a top-level value''
            else if d \<noteq> DNil \<or> validateResourceRef ref \<noteq> None \<or> TrimSpace t \<noteq> ref_TypeHash ref
            then Inl ''invalid rpc resource value''
            else Inr (fst st + int (length t), snd st + 1)
        | None \<Rightarrow>
            (case validateValueShape t d of
               Some e \<Rightarrow> Inl e
             | None \<Rightarrow> validate_data lim d depth (fst st + int (length t), snd st + 1)))"
| "validate_data lim d depth st =
     (case d of
        DString s \<Rightarrow>
          if \<not> utf8_Valid s then Inl ''rpc string value is not valid UTF-8''
          else check_size lim (fst st + int (length s), snd st)
      | DBytes s \<Rightarrow> check_size lim (fst st + int (length s), snd st)
      | DSlice vs \<Rightarrow>
          (case chain (\<lambda>v. validate_value lim v (depth + 1)) vs st of
             Inl e \<Rightarrow> Inl e | Inr st' \<Rightarrow> check_size lim st')
      | DMap es \<Rightarrow>
          (case chain (\<lambda>e st. case validate_value lim (fst e) (depth + 1) st of
                                Inl err \<Rightarrow> Inl err
                              | Inr st' \<Rightarrow> validate_value lim (snd e) (depth + 1) st') es st of
             Inl e \<Rightarrow> Inl e | Inr st' \<Rightarrow> check_size lim st')
      | DFields fs \<Rightarrow>
          (case chain (\<lambda>f acc. case check_field (fst f) (fst acc) of
                                Some err \<Rightarrow> Inl err
                              | None \<Rightarrow> map_sum id (Pair (insert (fst f) (fst acc)))
                                          (validate_value lim (snd f) (depth + 1) (snd acc))) fs ({}, st) of
             Inl e \<Rightarrow> Inl e | Inr (seen, st') \<Rightarrow> check_size lim st')
      | DOptional v \<Rightarrow> validate_value lim v (depth + 1) st
      | DOther t \<Rightarrow> Inl (''unsupported rpc value '' @ t)
      | _ \<Rightarrow> Inr st)"

definition validateValues :: "rpc_value list \<Rightarrow> Limits \<Rightarrow> error option" where
  "validateValues vs lim = (case chain (\<lambda>v. validate_value lim v 0) vs (0, 0) of Inl e \<Rightarrow> Some e | Inr st \<Rightarrow> None)"

section \<open>The binary form\<close>

fun all_ok :: "(error + 'a) list \<Rightarrow> error + 'a list" where
  "all_ok [] = Inr []"
| "all_ok (x # xs) =
     (case x of Inl e \<Rightarrow> Inl e | Inr a \<Rightarrow> (case all_ok xs of Inl e \<Rightarrow> Inl e | Inr as \<Rightarrow> Inr (a # as)))"

definition concat_ok :: "string \<Rightarrow> (error + string) list \<Rightarrow> error + string" where
  "concat_ok header parts = (case all_ok parts of Inl e \<Rightarrow> Inl e | Inr ps \<Rightarrow> Inr (header @ concat ps))"

text \<open>
  Map entries are sorted by the bytes of their keys and fields by their number.  \<^verbatim>\<open>sort.Slice\<close>
  leaves the order of equal keys open; the model keeps it.
\<close>

fun encodeBinaryValue :: "rpc_value \<Rightarrow> error + string" and encode_data :: "rpc_data \<Rightarrow> error + string" where
  "encodeBinaryValue (RpcValue t d r) =
     (case r of
        Some ref \<Rightarrow> Inr (enc_String t @ enc_Uint 12 @ encode_ref ref)
      | None \<Rightarrow> (case encode_data d of Inl e \<Rightarrow> Inl e | Inr s \<Rightarrow> Inr (enc_String t @ s)))"
| "encode_data DNil = Inr (enc_Uint 0)"
| "encode_data (DBool b) = Inr (enc_Uint 1 @ enc_Bool b)"
| "encode_data (DInt i) = Inr (enc_Uint 2 @ enc_Int i)"
| "encode_data (DUint u) = Inr (enc_Uint 3 @ enc_Uint u)"
| "encode_data (DFloat f) = Inr (enc_Uint 4 @ enc_Float64 f)"
| "encode_data (DComplex c) = Inr (enc_Uint 5 @ enc_Complex128 c)"
| "encode_data (DString s) = Inr (enc_Uint 6 @ enc_String s)"
| "encode_data (DBytes s) = Inr (enc_Uint 7 @ enc_Raw s)"
| "encode_data (DSlice vs) = concat_ok (enc_Uint 8 @ enc_Uint (length vs)) (map encodeBinaryValue vs)"
| "encode_data (DMap es) =
     (case all_ok (map (\<lambda>e. encodeBinaryValue (fst e)) es) of
        Inl e \<Rightarrow> Inl e
      | Inr keys \<Rightarrow>
          concat_ok (enc_Uint 9 @ enc_Uint (length es))
            (map (\<lambda>p. map_sum id (append (fst p)) (snd p))
              (sort_key fst (zip keys (map (\<lambda>e. encodeBinaryValue (snd e)) es)))))"
| "encode_data (DFields fs) =
     concat_ok (enc_Uint 10 @ enc_Uint (length fs))
       (map (\<lambda>p. map_sum id (append (enc_Uint (fst p))) (snd p))
         (sort_key fst (map (\<lambda>f. (fst f, encodeBinaryValue (snd f))) fs)))"
| "encode_data (DOptional v) = (case encodeBinaryValue v of Inl e \<Rightarrow> Inl e | Inr s \<Rightarrow> Inr (enc_Uint 11 @ s))"
| "encode_data (DOther t) = Inl (''unsupported rpc value '' @ t)"

definition EncodeValues :: "rpc_value list \<Rightarrow> Limits \<Rightarrow> error + string" where
  "EncodeValues vs l =
     (let lim = normalizeLimits l in
      case validateValues vs lim of
        Some e \<Rightarrow> Inl e
      | None \<Rightarrow>
          (case concat_ok (enc_Uint (length vs)) (map encodeBinaryValue vs) of
             Inl e \<Rightarrow> Inl e
           | Inr data \<Rightarrow>
               if MaxMessageBytes lim < int (length data) then Inl (errValueLimit @ '': encoded bytes'')
               else Inr data))"

text \<open>A decoder whose error is replaced.\<close>

definition wire_error :: "error \<Rightarrow> 'a wire \<Rightarrow> 'a wire" where
  "wire_error e m d = (case m d of Inl _ \<Rightarrow> Inl e | Inr r \<Rightarrow> Inr r)"

definition wire_map :: "('a \<Rightarrow> 'b) \<Rightarrow> 'a wire \<Rightarrow> 'b wire" where
  "wire_map f m = wire_bind m (\<lambda>x. wire_return (f x))"

definition wire_pair :: "'a wire \<Rightarrow> 'b wire \<Rightarrow> ('a \<times> 'b) wire" where
  "wire_pair m n = wire_bind m (\<lambda>x. wire_bind n (\<lambda>y. wire_return (x, y)))"

text \<open>A counted list of elements.\<close>

definition wire_counted :: "Limits \<Rightarrow> 'a wire \<Rightarrow> 'a list wire" where
  "wire_counted lim m = wire_bind wire_Uint (\<lambda>count.
     if count \<le> uint64_of_int (MaxValueElements lim) then wire_repeat count m
     else wire_fail ''rpc value element limit exceeded'')"

definition wire_field_id :: "nat wire" where
  "wire_field_id = wire_bind wire_Uint (\<lambda>i.
     if i = 0 \<or> 2 ^ 32 - 1 < i then wire_fail ''invalid rpc field ID'' else wire_return i)"

text \<open>The type of a value, which must not be empty.\<close>

definition wire_type :: "string wire" where
  "wire_type = wire_error ''invalid rpc value type'' (wire_bind wire_String (\<lambda>t.
     if t = [] then wire_fail [] else wire_return t))"

primrec decode_room :: "Limits \<Rightarrow> nat \<Rightarrow> rpc_value wire" where
  "decode_room lim 0 = wire_fail ''rpc value depth limit exceeded''"
| "decode_room lim (Suc room) =
     wire_bind wire_type (\<lambda>t. wire_bind wire_Uint (\<lambda>kind.
       let value = \<lambda>d. RpcValue t d None in
       if kind = 0 then wire_return (value DNil)
       else if kind = 1 then wire_map (\<lambda>x. value (DBool x)) wire_Bool
       else if kind = 2 then wire_map (\<lambda>x. value (DInt x)) wire_Int
       else if kind = 3 then wire_map (\<lambda>x. value (DUint x)) wire_Uint
       else if kind = 4 then wire_map (\<lambda>x. value (DFloat x)) wire_Float64
       else if kind = 5 then wire_map (\<lambda>x. value (DComplex x)) wire_Complex128
       else if kind = 6 then wire_map (\<lambda>x. value (DString x)) wire_String
       else if kind = 7 then wire_map (\<lambda>x. value (DBytes x)) wire_rawView
       else if kind = 8 then wire_map (\<lambda>x. value (DSlice x)) (wire_counted lim (decode_room lim room))
       else if kind = 9
       then wire_map (\<lambda>x. value (DMap x)) (wire_counted lim (wire_pair (decode_room lim room) (decode_room lim room)))
       else if kind = 10
       then wire_map (\<lambda>x. value (DFields x)) (wire_counted lim (wire_pair wire_field_id (decode_room lim room)))
       else if kind = 11 then wire_map (\<lambda>x. value (DOptional x)) (decode_room lim room)
       else if kind = 12 then wire_map (\<lambda>x. RpcValue t DNil (Some x)) decode_ref
       else wire_fail ''unknown rpc value kind''))"

definition decodeBinaryValue :: "Limits \<Rightarrow> int \<Rightarrow> rpc_value wire" where
  "decodeBinaryValue lim depth = decode_room lim (nat (MaxValueDepth lim + 1 - depth))"

text \<open>The loop of \<^verbatim>\<open>DecodeValues\<close>, from index \<open>i\<close>.\<close>

fun decode_values :: "Limits \<Rightarrow> nat \<Rightarrow> nat \<Rightarrow> rpc_value list wire" where
  "decode_values lim i 0 = wire_return []"
| "decode_values lim i (Suc n) =
     (\<lambda>d. case decodeBinaryValue lim 0 d of
            Inl e \<Rightarrow> Inl (''decode RPC value '' @ FormatUint i @ '': '' @ e)
          | Inr (v, d') \<Rightarrow>
              (case decode_values lim (i + 1) n d' of Inl e \<Rightarrow> Inl e | Inr (vs, d'') \<Rightarrow> Inr (v # vs, d'')))"

definition DecodeValues :: "string \<Rightarrow> Limits \<Rightarrow> error + rpc_value list" where
  "DecodeValues data l =
     (let lim = normalizeLimits l in
      if MaxMessageBytes lim < int (length data) then Inl ''rpc value byte limit exceeded''
      else
        case wire_Uint (newWireDecoder data (MaxMessageBytes lim)) of
          Inl e \<Rightarrow> Inl ''decode RPC values: invalid value count''
        | Inr (n, d) \<Rightarrow>
            if uint64_of_int (MaxValueElements lim) < n then Inl ''decode RPC values: invalid value count''
            else
              (case decode_values lim 0 n d of
                 Inl e \<Rightarrow> Inl e
               | Inr (vs, d') \<Rightarrow>
                   (case wire_Done d' of
                      Inl e \<Rightarrow> Inl e
                    | Inr _ \<Rightarrow>
                        (case validateValues vs lim of Some e \<Rightarrow> Inl e | None \<Rightarrow> Inr vs))))"

section \<open>The bytes of a value in its own order\<close>

text \<open>
  The encoding without the sorting, and the value with its entries and fields in the order in
  which they are written: the encoder writes the bytes of the canonical value.
\<close>

fun wire_bytes :: "rpc_value \<Rightarrow> string" and data_bytes :: "rpc_data \<Rightarrow> string" where
  "wire_bytes (RpcValue t d r) =
     enc_String t @ (case r of Some ref \<Rightarrow> enc_Uint 12 @ encode_ref ref | None \<Rightarrow> data_bytes d)"
| "data_bytes DNil = enc_Uint 0"
| "data_bytes (DBool b) = enc_Uint 1 @ enc_Bool b"
| "data_bytes (DInt i) = enc_Uint 2 @ enc_Int i"
| "data_bytes (DUint u) = enc_Uint 3 @ enc_Uint u"
| "data_bytes (DFloat f) = enc_Uint 4 @ enc_Float64 f"
| "data_bytes (DComplex c) = enc_Uint 5 @ enc_Complex128 c"
| "data_bytes (DString s) = enc_Uint 6 @ enc_String s"
| "data_bytes (DBytes s) = enc_Uint 7 @ enc_Raw s"
| "data_bytes (DSlice vs) = enc_Uint 8 @ enc_Uint (length vs) @ concat (map wire_bytes vs)"
| "data_bytes (DMap es) =
     enc_Uint 9 @ enc_Uint (length es) @ concat (map (\<lambda>e. wire_bytes (fst e) @ wire_bytes (snd e)) es)"
| "data_bytes (DFields fs) =
     enc_Uint 10 @ enc_Uint (length fs) @ concat (map (\<lambda>f. enc_Uint (fst f) @ wire_bytes (snd f)) fs)"
| "data_bytes (DOptional v) = enc_Uint 11 @ wire_bytes v"
| "data_bytes (DOther t) = []"

fun canon :: "rpc_value \<Rightarrow> rpc_value" and canon_data :: "rpc_data \<Rightarrow> rpc_data" where
  "canon (RpcValue t d r) = RpcValue t (canon_data d) r"
| "canon_data (DSlice vs) = DSlice (map canon vs)"
| "canon_data (DMap es) =
     DMap (sort_key (\<lambda>e. wire_bytes (fst e)) (map (\<lambda>e. (canon (fst e), canon (snd e))) es))"
| "canon_data (DFields fs) = DFields (sort_key fst (map (\<lambda>f. (fst f, canon (snd f))) fs))"
| "canon_data (DOptional v) = DOptional (canon v)"
| "canon_data d = d"

text \<open>Values made of supported types only.\<close>

fun supported :: "rpc_value \<Rightarrow> bool" and supported_data :: "rpc_data \<Rightarrow> bool" where
  "supported (RpcValue t d r) = (r \<noteq> None \<or> supported_data d)"
| "supported_data (DSlice vs) = list_all supported vs"
| "supported_data (DMap es) = list_all (\<lambda>e. supported (fst e) \<and> supported (snd e)) es"
| "supported_data (DFields fs) = list_all (\<lambda>f. supported (snd f)) fs"
| "supported_data (DOptional v) = supported v"
| "supported_data (DOther t) = False"
| "supported_data d = True"

lemma all_ok_Inr: "(\<And>x. x \<in> set xs \<Longrightarrow> f x = Inr (g x)) \<Longrightarrow> all_ok (map f xs) = Inr (map g xs)"
  by (induction xs) simp_all

lemma concat_ok_Inr:
  "(\<And>x. x \<in> set xs \<Longrightarrow> f x = Inr (g x)) \<Longrightarrow> concat_ok h (map f xs) = Inr (h @ concat (map g xs))"
  by (simp add: concat_ok_def all_ok_Inr)

lemma insort_key_map: "map g (insort_key (\<lambda>x. f (g x)) x xs) = insort_key f (g x) (map g xs)"
  by (induction xs) auto

lemma sort_key_map: "sort_key f (map g xs) = map g (sort_key (\<lambda>x. f (g x)) xs)"
  by (induction xs) (simp_all add: insort_key_map)

lemma encode_supported:
  shows "supported v \<Longrightarrow> encodeBinaryValue v = Inr (wire_bytes (canon v))"
    and "supported_data d \<Longrightarrow> encode_data d = Inr (data_bytes (canon_data d))"
proof (induction v and d rule: rpc_induct)
  case (Value t d r)
  then show ?case by (cases r) simp_all
next
  case (Map es)
  have ok: "encodeBinaryValue (fst e) = Inr (wire_bytes (canon (fst e)))"
      "encodeBinaryValue (snd e) = Inr (wire_bytes (canon (snd e)))" if "e \<in> set es" for e
    using Map that by (simp_all add: list_all_iff)
  let ?enc = "\<lambda>e. (wire_bytes (canon (fst e)), encodeBinaryValue (snd e))"
  let ?sorted = "sort_key (\<lambda>e. wire_bytes (canon (fst e))) es"
  have keys: "all_ok (map (\<lambda>e. encodeBinaryValue (fst e)) es) = Inr (map (\<lambda>e. wire_bytes (canon (fst e))) es)"
    by (rule all_ok_Inr) (simp add: ok)
  have "zip (map (\<lambda>e. wire_bytes (canon (fst e))) es) (map (\<lambda>e. encodeBinaryValue (snd e)) es) = map ?enc es"
    by (induction es) simp_all
  then have "map (\<lambda>p. map_sum id (append (fst p)) (snd p))
      (sort_key fst (zip (map (\<lambda>e. wire_bytes (canon (fst e))) es) (map (\<lambda>e. encodeBinaryValue (snd e)) es)))
      = map (\<lambda>e. map_sum id (append (wire_bytes (canon (fst e)))) (encodeBinaryValue (snd e))) ?sorted"
    by (simp add: sort_key_map)
  moreover have "concat_ok h (map (\<lambda>e. map_sum id (append (wire_bytes (canon (fst e)))) (encodeBinaryValue (snd e))) ?sorted)
      = Inr (h @ concat (map (\<lambda>e. wire_bytes (canon (fst e)) @ wire_bytes (canon (snd e))) ?sorted))" for h
    by (rule concat_ok_Inr) (simp add: ok)
  ultimately show ?case by (simp add: keys sort_key_map comp_def)
next
  case (Fields fs)
  have ok: "encodeBinaryValue (snd f) = Inr (wire_bytes (canon (snd f)))" if "f \<in> set fs" for f
    using Fields that by (simp add: list_all_iff)
  have "concat_ok h (map (\<lambda>f. map_sum id (append (enc_Uint (fst f))) (encodeBinaryValue (snd f))) (sort_key fst fs))
      = Inr (h @ concat (map (\<lambda>f. enc_Uint (fst f) @ wire_bytes (canon (snd f))) (sort_key fst fs)))" for h
    by (rule concat_ok_Inr) (simp add: ok)
  then show ?case by (simp add: sort_key_map comp_def)
qed (simp_all add: list_all_iff concat_ok_Inr comp_def)

section \<open>The codec of values\<close>

lemma wire_map_iff:
  assumes "canonical_codec enc dec ok"
  shows "wire_map f dec (cur pre s lim) = Inr (y, d) \<longleftrightarrow>
    (\<exists>x t. ok lim x \<and> s = enc x @ t \<and> y = f x \<and> d = cur (pre @ enc x) t lim)"
  unfolding wire_map_def bind_iff [OF assms] by (auto simp: wire_return_def)

lemma canonical_type: "canonical_codec enc_String wire_type (\<lambda>lim t. string_ok lim t \<and> t \<noteq> [])"
proof
  show "wire_type (cur pre (enc_String x @ s) lim) = Inr (x, cur (pre @ enc_String x) s lim)"
    if "string_ok lim x \<and> x \<noteq> []" for lim x pre s
    using that by (simp add: wire_type_def wire_error_def codec_simps)
  show "(string_ok lim x \<and> x \<noteq> []) \<and> (\<exists>t. s = enc_String x @ t \<and> d = cur (pre @ enc_String x) t lim)"
    if "wire_type (cur pre s lim) = Inr (x, d)" for pre s lim x d
  proof -
    have "wire_bind wire_String (\<lambda>t. if t = [] then wire_fail [] else wire_return t) (cur pre s lim) = Inr (x, d)"
      using that by (auto simp: wire_type_def wire_error_def split: sum.splits)
    then show ?thesis
      by (auto simp: bind_iff [OF string_codec.canonical_codec_axioms] wire_fail_def wire_return_def split: if_splits)
  qed
qed

definition field_ok :: "int \<Rightarrow> nat \<Rightarrow> bool" where
  "field_ok lim i = (i \<noteq> 0 \<and> i < 2 ^ 32)"

lemma field_id_cond: "\<not> (i = 0 \<or> 2 ^ 32 - 1 < i) \<longleftrightarrow> field_ok lim i"
  by (auto simp: field_ok_def)

lemma canonical_field_id: "canonical_codec enc_Uint wire_field_id field_ok"
proof
  show "wire_field_id (cur pre (enc_Uint i @ s) lim) = Inr (i, cur (pre @ enc_Uint i) s lim)"
    if "field_ok lim i" for lim i pre s
  proof -
    have "i < 2 ^ 64" using that by (simp add: field_ok_def)
    then show ?thesis
      using that field_id_cond [of i lim] by (simp add: wire_field_id_def wire_bind_def uint_codec.reads_back wire_return_def)
  qed
  show "field_ok lim i \<and> (\<exists>t. s = enc_Uint i @ t \<and> d = cur (pre @ enc_Uint i) t lim)"
    if read: "wire_field_id (cur pre s lim) = Inr (i, d)" for pre s lim i d
  proof -
    obtain j t where j: "s = enc_Uint j @ t"
        and r: "(if j = 0 \<or> 2 ^ 32 - 1 < j then wire_fail ''invalid rpc field ID'' else wire_return j)
          (cur (pre @ enc_Uint j) t lim) = Inr (i, d)"
      using read unfolding wire_field_id_def bind_iff [OF uint_codec.canonical_codec_axioms] by blast
    have "\<not> (j = 0 \<or> 2 ^ 32 - 1 < j)" using r by (cases "j = 0 \<or> 2 ^ 32 - 1 < j") (simp_all add: wire_fail_def)
    moreover from this r have "i = j" "d = cur (pre @ enc_Uint j) t lim" by (auto simp: wire_return_def)
    ultimately show ?thesis using j field_id_cond by blast
  qed
qed

lemma canonical_counted:
  assumes "canonical_codec enc dec ok"
  shows "canonical_codec (\<lambda>xs. enc_Uint (length xs) @ concat (map enc xs)) (wire_counted l dec)
    (\<lambda>lim xs. length xs \<le> uint64_of_int (MaxValueElements l) \<and> list_all (ok lim) xs)"
proof
  note rep = canonical_repeat [OF assms]
  show "wire_counted l dec (cur pre ((enc_Uint (length xs) @ concat (map enc xs)) @ s) lim) =
      Inr (xs, cur (pre @ enc_Uint (length xs) @ concat (map enc xs)) s lim)"
    if "length xs \<le> uint64_of_int (MaxValueElements l) \<and> list_all (ok lim) xs" for lim xs pre s
  proof -
    have "length xs < 2 ^ 64" using that uint64_of_int_bound [of "MaxValueElements l"] by simp
    moreover have "wire_repeat (length xs) dec (cur (pre @ enc_Uint (length xs)) (concat (map enc xs) @ s) lim) =
        Inr (xs, cur ((pre @ enc_Uint (length xs)) @ concat (map enc xs)) s lim)"
      using that by (intro wire_codec.reads_back [OF canonical_codec.axioms(1) [OF rep]]) simp
    ultimately show ?thesis
      using that by (simp add: wire_counted_def wire_bind_def uint_codec.reads_back)
  qed
  show "(length xs \<le> uint64_of_int (MaxValueElements l) \<and> list_all (ok lim) xs)
      \<and> (\<exists>t. s = (enc_Uint (length xs) @ concat (map enc xs)) @ t
          \<and> d = cur (pre @ enc_Uint (length xs) @ concat (map enc xs)) t lim)"
    if "wire_counted l dec (cur pre s lim) = Inr (xs, d)" for pre s lim xs d
    using that unfolding wire_counted_def bind_iff [OF uint_codec.canonical_codec_axioms]
    by (auto simp: wire_fail_def canonical_codec.accepts_iff [OF rep] split: if_splits)
qed

lemma canonical_wire_pair:
  assumes "canonical_codec e1 d1 o1" "canonical_codec e2 d2 o2"
  shows "canonical_codec (\<lambda>v. e1 (fst v) @ e2 (snd v)) (wire_pair d1 d2) (\<lambda>lim v. o1 lim (fst v) \<and> o2 lim (snd v))"
  using canonical_pair [OF assms] by (simp add: wire_pair_def)

text \<open>What a decoder with some room accepts, given what it accepts one level below.\<close>

definition data_ok :: "Limits \<Rightarrow> (rpc_value \<Rightarrow> bool) \<Rightarrow> int \<Rightarrow> rpc_data \<Rightarrow> bool" where
  "data_ok l below lim d =
     (case d of
        DInt i \<Rightarrow> int64_ok lim i
      | DUint u \<Rightarrow> u < 2 ^ 64
      | DFloat f \<Rightarrow> f < 256 ^ 8
      | DComplex c \<Rightarrow> fst c < 256 ^ 8 \<and> snd c < 256 ^ 8
      | DString s \<Rightarrow> string_ok lim s
      | DBytes s \<Rightarrow> raw_ok lim s
      | DSlice vs \<Rightarrow> length vs \<le> uint64_of_int (MaxValueElements l) \<and> list_all below vs
      | DMap es \<Rightarrow> length es \<le> uint64_of_int (MaxValueElements l) \<and> list_all (\<lambda>e. below (fst e) \<and> below (snd e)) es
      | DFields fs \<Rightarrow> length fs \<le> uint64_of_int (MaxValueElements l) \<and> list_all (\<lambda>f. field_ok lim (fst f) \<and> below (snd f)) fs
      | DOptional v \<Rightarrow> below v
      | DOther t \<Rightarrow> False
      | _ \<Rightarrow> True)"

primrec value_ok :: "Limits \<Rightarrow> nat \<Rightarrow> int \<Rightarrow> rpc_value \<Rightarrow> bool" where
  "value_ok l 0 lim v = False"
| "value_ok l (Suc room) lim v =
     (string_ok lim (rv_Type v) \<and> rv_Type v \<noteq> []
      \<and> (case rv_Resource v of
           Some ref \<Rightarrow> rv_Data v = DNil \<and> ref_ok lim ref
         | None \<Rightarrow> data_ok l (value_ok l room lim) lim (rv_Data v)))"

lemma wire_map_back:
  assumes "canonical_codec enc dec ok" "ok lim x"
  shows "wire_map f dec (cur pre (enc x @ s) lim) = Inr (f x, cur (pre @ enc x) s lim)"
  unfolding wire_map_iff [OF assms(1)] using assms(2) by blast

lemma canonical_room: "canonical_codec wire_bytes (decode_room l room) (value_ok l room)"
proof (induction room)
  case 0
  show ?case by unfold_locales (simp_all add: wire_fail_def)
next
  case (Suc room)
  note below = Suc.IH
  note counted = canonical_counted [OF below, of l] canonical_counted [OF canonical_wire_pair [OF below below], of l]
    canonical_counted [OF canonical_wire_pair [OF canonical_field_id below], of l]
  note parts = bool_codec.canonical_codec_axioms int_codec.canonical_codec_axioms uint_codec.canonical_codec_axioms
    float64_codec.canonical_codec_axioms complex128_codec.canonical_codec_axioms string_codec.canonical_codec_axioms
    raw_codec.canonical_codec_axioms ref_codec.canonical_codec_axioms below counted
  show ?case
  proof
    show "decode_room l (Suc room) (cur pre (wire_bytes v @ s) lim) = Inr (v, cur (pre @ wire_bytes v) s lim)"
      if ok: "value_ok l (Suc room) lim v" for lim v pre s
    proof -
      obtain t d r where v: "v = RpcValue t d r" by (cases v)
      have t: "wire_type (cur pre (enc_String t @ u) lim) = Inr (t, cur (pre @ enc_String t) u lim)" for u
        using ok v by (intro wire_codec.reads_back [OF canonical_codec.axioms(1) [OF canonical_type]]) simp
      show ?thesis
      proof (cases r)
        case (Some ref)
        then show ?thesis
          using ok v t by (simp add: wire_bind_def uint_codec.reads_back wire_map_back [OF ref_codec.canonical_codec_axioms])
      next
        case None
        then show ?thesis
          using ok v t by (cases d) (simp_all add: wire_bind_def uint_codec.reads_back data_ok_def wire_return_def
              parts [THEN wire_map_back] counted [THEN wire_map_back, simplified])
      qed
    qed
    show "value_ok l (Suc room) lim v \<and> (\<exists>t. s = wire_bytes v @ t \<and> d = cur (pre @ wire_bytes v) t lim)"
      if "decode_room l (Suc room) (cur pre s lim) = Inr (v, d)" for pre s lim v d
      using that unfolding decode_room.simps bind_iff [OF canonical_type] bind_iff [OF uint_codec.canonical_codec_axioms] Let_def
      by (auto simp: parts [THEN wire_map_iff] wire_return_def wire_fail_def data_ok_def split: if_splits)
  qed
qed

section \<open>Validation as bounds on sums\<close>

text \<open>The bytes and elements the validator counts over a whole value.\<close>

fun value_bytes :: "rpc_value \<Rightarrow> int" and data_size :: "rpc_data \<Rightarrow> int" where
  "value_bytes (RpcValue t d r) = int (length t) + (if r = None then data_size d else 0)"
| "data_size (DString s) = int (length s)"
| "data_size (DBytes s) = int (length s)"
| "data_size (DSlice vs) = sum_list (map value_bytes vs)"
| "data_size (DMap es) = sum_list (map (\<lambda>e. value_bytes (fst e) + value_bytes (snd e)) es)"
| "data_size (DFields fs) = sum_list (map (\<lambda>f. value_bytes (snd f)) fs)"
| "data_size (DOptional v) = value_bytes v"
| "data_size d = 0"

fun value_elements :: "rpc_value \<Rightarrow> int" and data_elements :: "rpc_data \<Rightarrow> int" where
  "value_elements (RpcValue t d r) = 1 + (if r = None then data_elements d else 0)"
| "data_elements (DSlice vs) = sum_list (map value_elements vs)"
| "data_elements (DMap es) = sum_list (map (\<lambda>e. value_elements (fst e) + value_elements (snd e)) es)"
| "data_elements (DFields fs) = sum_list (map (\<lambda>f. value_elements (snd f)) fs)"
| "data_elements (DOptional v) = value_elements v"
| "data_elements d = 0"

text \<open>A value whose parts have valid types and shapes and are nested at most \<open>room\<close> levels deep.\<close>

fun well_shaped :: "int \<Rightarrow> int \<Rightarrow> rpc_value \<Rightarrow> bool" and shaped_data :: "int \<Rightarrow> int \<Rightarrow> rpc_data \<Rightarrow> bool" where
  "well_shaped maxDepth depth (RpcValue t d r) =
     (t \<noteq> [] \<and> utf8_Valid t \<and> depth \<le> maxDepth
      \<and> (case r of
           Some ref \<Rightarrow> depth = 0 \<and> d = DNil \<and> validateResourceRef ref = None \<and> TrimSpace t = ref_TypeHash ref
         | None \<Rightarrow> validateValueShape t d = None \<and> shaped_data maxDepth depth d))"
| "shaped_data maxDepth depth (DString s) = utf8_Valid s"
| "shaped_data maxDepth depth (DSlice vs) = list_all (well_shaped maxDepth (depth + 1)) vs"
| "shaped_data maxDepth depth (DMap es) =
     list_all (\<lambda>e. well_shaped maxDepth (depth + 1) (fst e) \<and> well_shaped maxDepth (depth + 1) (snd e)) es"
| "shaped_data maxDepth depth (DFields fs) =
     (0 \<notin> fst ` set fs \<and> distinct (map fst fs) \<and> list_all (\<lambda>f. well_shaped maxDepth (depth + 1) (snd f)) fs)"
| "shaped_data maxDepth depth (DOptional v) = well_shaped maxDepth (depth + 1) v"
| "shaped_data maxDepth depth (DOther t) = False"
| "shaped_data maxDepth depth d = True"

lemma sizes_nonneg:
  "0 \<le> value_bytes v" "0 \<le> data_size d" "1 \<le> value_elements v" "0 \<le> data_elements d"
proof -
  show "0 \<le> value_bytes v" "0 \<le> data_size d"
    by (induction v and d rule: rpc_induct) (auto intro!: sum_list_nonneg add_nonneg_nonneg)
  have "1 \<le> value_elements v \<and> 0 \<le> value_elements v" "0 \<le> data_elements d"
    by (induction v and d rule: rpc_induct) (auto intro!: sum_list_nonneg add_nonneg_nonneg)
  then show "1 \<le> value_elements v" "0 \<le> data_elements d" by simp_all
qed

text \<open>
  A loop whose steps add to the counters, succeed exactly on good elements and keep the counters
  within the limits.
\<close>

lemma chain_sums:
  assumes step: "\<And>x st st'. x \<in> set xs \<Longrightarrow> f x st = Inr st' \<longleftrightarrow>
      good x \<and> st' = (fst st + b x, snd st + e x) \<and> \<not> over_limit lim st'"
    and pos: "\<And>x. x \<in> set xs \<Longrightarrow> 0 \<le> b x \<and> 0 \<le> e x"
  shows "chain f xs st = Inr st' \<longleftrightarrow> list_all good xs
    \<and> st' = (fst st + sum_list (map b xs), snd st + sum_list (map e xs)) \<and> (xs \<noteq> [] \<longrightarrow> \<not> over_limit lim st')"
  using assms
proof (induction xs arbitrary: st)
  case Nil
  show ?case by auto
next
  case (Cons x xs)
  let ?st = "(fst st + b x, snd st + e x)"
  have sums: "0 \<le> sum_list (map b xs)" "0 \<le> sum_list (map e xs)"
    using Cons.prems(2) by (auto intro!: sum_list_nonneg)
  then have mono: "over_limit lim (fst ?st + sum_list (map b xs), snd ?st + sum_list (map e xs))" if "over_limit lim ?st"
    using that by (auto simp: over_limit_def)
  have IH: "chain f xs ?st = Inr st' \<longleftrightarrow> list_all good xs
    \<and> st' = (fst ?st + sum_list (map b xs), snd ?st + sum_list (map e xs)) \<and> (xs \<noteq> [] \<longrightarrow> \<not> over_limit lim st')"
    using Cons.prems by (intro Cons.IH) auto
  have "chain f (x # xs) st = Inr st' \<longleftrightarrow> f x st = Inr ?st \<and> chain f xs ?st = Inr st'"
  proof (cases "f x st")
    case (Inr s')
    moreover have "s' = ?st" using Inr Cons.prems(1) [of x st s'] by simp
    ultimately show ?thesis by simp
  qed simp
  also have "f x st = Inr ?st \<longleftrightarrow> good x \<and> \<not> over_limit lim ?st" using Cons.prems(1) [of x st ?st] by simp
  finally show ?case
    using IH mono by (cases "xs = []") (auto simp: algebra_simps)
qed

lemma chain_fields:
  fixes f :: "'v \<Rightarrow> int \<times> int \<Rightarrow> error + int \<times> int" and fs :: "(nat \<times> 'v) list"
  assumes step: "\<And>p st st'. p \<in> set fs \<Longrightarrow> f (snd p) st = Inr st' \<longleftrightarrow>
      good (snd p) \<and> st' = (fst st + b (snd p), snd st + e (snd p)) \<and> \<not> over_limit lim st'"
    and pos: "\<And>p. p \<in> set fs \<Longrightarrow> 0 \<le> b (snd p) \<and> 0 \<le> e (snd p)"
  shows "(\<exists>seen'. chain (\<lambda>p acc. case check_field (fst p) (fst acc) of
        Some err \<Rightarrow> Inl err
      | None \<Rightarrow> map_sum id (Pair (insert (fst p) (fst acc))) (f (snd p) (snd acc))) fs (seen, st) = Inr (seen', st')) \<longleftrightarrow>
    0 \<notin> fst ` set fs \<and> distinct (map fst fs) \<and> fst ` set fs \<inter> seen = {} \<and> chain (\<lambda>p. f (snd p)) fs st = Inr st'"
  using assms
proof (induction fs arbitrary: seen st)
  case Nil
  show ?case by auto
next
  case (Cons p fs)
  show ?case
  proof (cases "f (snd p) st")
    case (Inl err)
    then show ?thesis by (auto simp: check_field_def)
  next
    case (Inr st1)
    have "(\<exists>seen'. chain (\<lambda>p acc. case check_field (fst p) (fst acc) of
        Some err \<Rightarrow> Inl err
      | None \<Rightarrow> map_sum id (Pair (insert (fst p) (fst acc))) (f (snd p) (snd acc))) fs (insert (fst p) seen, st1) = Inr (seen', st')) \<longleftrightarrow>
    0 \<notin> fst ` set fs \<and> distinct (map fst fs) \<and> fst ` set fs \<inter> insert (fst p) seen = {} \<and> chain (\<lambda>p. f (snd p)) fs st1 = Inr st'"
      using Cons.prems by (intro Cons.IH) auto
    then show ?thesis using Inr by (auto simp: check_field_def)
  qed
qed

lemma check_size_iff: "check_size lim st = Inr st' \<longleftrightarrow> st' = st \<and> \<not> over_limit lim st"
  by (auto simp: check_size_def)

lemma checked_pair:
  "(case x of Inl e \<Rightarrow> Inl e | Inr (seen, s) \<Rightarrow> check_size lim s) = Inr st' \<longleftrightarrow>
    (\<exists>seen. x = Inr (seen, st')) \<and> \<not> over_limit lim st'"
proof (cases x)
  case (Inr p)
  then show ?thesis by (cases p) (simp add: check_size_iff, blast)
qed simp

text \<open>A checked loop over elements that are validated.\<close>

lemma chain_checked:
  assumes step: "\<And>x st st'. x \<in> set xs \<Longrightarrow> f x st = Inr st' \<longleftrightarrow>
      good x \<and> st' = (fst st + b x, snd st + e x) \<and> \<not> over_limit lim st'"
    and pos: "\<And>x. x \<in> set xs \<Longrightarrow> 0 \<le> b x \<and> 0 \<le> e x" and st: "\<not> over_limit lim st"
  shows "(case chain f xs st of Inl err \<Rightarrow> Inl err | Inr s \<Rightarrow> check_size lim s) = Inr st' \<longleftrightarrow>
    list_all good xs \<and> st' = (fst st + sum_list (map b xs), snd st + sum_list (map e xs)) \<and> \<not> over_limit lim st'"
proof -
  have "(case chain f xs st of Inl err \<Rightarrow> Inl err | Inr s \<Rightarrow> check_size lim s) = Inr st' \<longleftrightarrow>
      chain f xs st = Inr st' \<and> \<not> over_limit lim st'"
    by (cases "chain f xs st") (auto simp: check_size_iff)
  also have "\<dots> \<longleftrightarrow> list_all good xs
      \<and> st' = (fst st + sum_list (map b xs), snd st + sum_list (map e xs)) \<and> \<not> over_limit lim st'"
    using chain_sums [of xs f good b e lim st st', OF step pos] st by (cases "xs = []") auto
  finally show ?thesis .
qed

text \<open>A map entry is a loop over its key and its value.\<close>

lemma entry_step:
  fixes f :: "rpc_value \<Rightarrow> int \<times> int \<Rightarrow> error + int \<times> int"
  assumes k: "\<And>st st'. f k st = Inr st' \<longleftrightarrow>
      good k \<and> st' = (fst st + value_bytes k, snd st + value_elements k) \<and> \<not> over_limit lim st'"
    and v: "\<And>st st'. f v st = Inr st' \<longleftrightarrow>
      good v \<and> st' = (fst st + value_bytes v, snd st + value_elements v) \<and> \<not> over_limit lim st'"
  shows "(case f k st of Inl err \<Rightarrow> Inl err | Inr s \<Rightarrow> f v s) = Inr st' \<longleftrightarrow> (good k \<and> good v)
    \<and> st' = (fst st + (value_bytes k + value_bytes v), snd st + (value_elements k + value_elements v))
    \<and> \<not> over_limit lim st'"
proof -
  have "(case f k st of Inl err \<Rightarrow> Inl err | Inr s \<Rightarrow> f v s) = chain f [k, v] st"
    by (simp split: sum.splits)
  moreover have "chain f [k, v] st = Inr st' \<longleftrightarrow> list_all good [k, v]
    \<and> st' = (fst st + sum_list (map value_bytes [k, v]), snd st + sum_list (map value_elements [k, v]))
    \<and> ([k, v] \<noteq> [] \<longrightarrow> \<not> over_limit lim st')"
  proof (rule chain_sums)
    show "f x st = Inr st' \<longleftrightarrow> good x \<and> st' = (fst st + value_bytes x, snd st + value_elements x) \<and> \<not> over_limit lim st'"
      if "x \<in> set [k, v]" for x st st'
      using that k [of st st'] v [of st st'] by (cases "x = k") simp_all
    show "0 \<le> value_bytes x \<and> 0 \<le> value_elements x" for x using sizes_nonneg(1,3) [of x] by simp
  qed
  ultimately show ?thesis by simp
qed

lemma validate_iff:
  "validate_value lim v depth st = Inr st' \<longleftrightarrow>
    well_shaped (MaxValueDepth lim) depth v \<and> st' = (fst st + value_bytes v, snd st + value_elements v) \<and> \<not> over_limit lim st'"
  "\<not> over_limit lim st \<Longrightarrow> validate_data lim d depth st = Inr st' \<longleftrightarrow>
    shaped_data (MaxValueDepth lim) depth d \<and> st' = (fst st + data_size d, snd st + data_elements d) \<and> \<not> over_limit lim st'"
proof (induction v and d arbitrary: depth st st' and depth st st' rule: rpc_induct)
  case (Value t d r)
  let ?st = "(fst st + int (length t), snd st + 1)"
  have over: "over_limit lim (fst ?st + data_size d, snd ?st + data_elements d)" if "over_limit lim ?st"
    using that sizes_nonneg(2,4) [of d] by (auto simp: over_limit_def)
  show ?case
  proof (cases "t = [] \<or> \<not> utf8_Valid t \<or> MaxValueDepth lim < depth \<or> over_limit lim ?st")
    case True
    moreover have "\<exists>e. validate_value lim (RpcValue t d r) depth st = Inl e" using True by auto
    ultimately show ?thesis using over by (auto simp: add.assoc split: if_splits)
  next
    case False
    then have ok: "t \<noteq> []" "utf8_Valid t" "depth \<le> MaxValueDepth lim" "\<not> over_limit lim ?st" by auto
    have eval: "validate_value lim (RpcValue t d r) depth st =
      (case r of
          Some ref \<Rightarrow>
            if depth \<noteq> 0 then Inl ''rpc resource must be a top-level value''
            else if d \<noteq> DNil \<or> validateResourceRef ref \<noteq> None \<or> TrimSpace t \<noteq> ref_TypeHash ref
            then Inl ''invalid rpc resource value''
            else Inr ?st
        | None \<Rightarrow> (case validateValueShape t d of Some e \<Rightarrow> Inl e | None \<Rightarrow> validate_data lim d depth ?st))"
      using False unfolding validate_value.simps by simp
    show ?thesis
    proof (cases r)
      case (Some ref)
      then show ?thesis unfolding eval using ok by auto
    next
      case None
      then show ?thesis
        unfolding eval using ok Value [OF ok(4), of depth st']
        by (cases "validateValueShape t d") (simp_all add: add.assoc)
    qed
  qed
next
  case (Slice vs)
  have "0 \<le> value_elements v" for v using sizes_nonneg(3) [of v] by simp
  then have "(case chain (\<lambda>v. validate_value lim v (depth + 1)) vs st of Inl e \<Rightarrow> Inl e | Inr s \<Rightarrow> check_size lim s) = Inr st'
    \<longleftrightarrow> list_all (well_shaped (MaxValueDepth lim) (depth + 1)) vs
      \<and> st' = (fst st + sum_list (map value_bytes vs), snd st + sum_list (map value_elements vs)) \<and> \<not> over_limit lim st'"
    using Slice sizes_nonneg(1) by (intro chain_checked) auto
  then show ?case by simp
next
  case (Map es)
  let ?f = "\<lambda>v. validate_value lim v (depth + 1)"
  have nonneg: "0 \<le> value_elements v" for v using sizes_nonneg(3) [of v] by simp
  have "(case chain (\<lambda>e st. case ?f (fst e) st of Inl err \<Rightarrow> Inl err | Inr s \<Rightarrow> ?f (snd e) s) es st of
      Inl e \<Rightarrow> Inl e | Inr s \<Rightarrow> check_size lim s) = Inr st'
    \<longleftrightarrow> list_all (\<lambda>e. well_shaped (MaxValueDepth lim) (depth + 1) (fst e) \<and> well_shaped (MaxValueDepth lim) (depth + 1) (snd e)) es
      \<and> st' = (fst st + sum_list (map (\<lambda>e. value_bytes (fst e) + value_bytes (snd e)) es),
          snd st + sum_list (map (\<lambda>e. value_elements (fst e) + value_elements (snd e)) es)) \<and> \<not> over_limit lim st'"
  proof (rule chain_checked [OF _ _ Map(3)])
    show "(case ?f (fst e) st of Inl err \<Rightarrow> Inl err | Inr s \<Rightarrow> ?f (snd e) s) = Inr st' \<longleftrightarrow>
        (well_shaped (MaxValueDepth lim) (depth + 1) (fst e) \<and> well_shaped (MaxValueDepth lim) (depth + 1) (snd e))
        \<and> st' = (fst st + (value_bytes (fst e) + value_bytes (snd e)), snd st + (value_elements (fst e) + value_elements (snd e)))
        \<and> \<not> over_limit lim st'" if "e \<in> set es" for e st st'
      by (rule entry_step [where f = ?f, OF Map(1) [OF that] Map(2) [OF that]])
  qed (simp add: sizes_nonneg(1) nonneg)
  then show ?case by simp
next
  case (Fields fs)
  let ?f = "\<lambda>v. validate_value lim v (depth + 1)"
  let ?good = "well_shaped (MaxValueDepth lim) (depth + 1)"
  let ?chain = "chain (\<lambda>p acc. case check_field (fst p) (fst acc) of
        Some err \<Rightarrow> Inl err
      | None \<Rightarrow> map_sum id (Pair (insert (fst p) (fst acc))) (?f (snd p) (snd acc))) fs ({}, st)"
  have nonneg: "0 \<le> value_elements v" for v using sizes_nonneg(3) [of v] by simp
  have chain: "(\<exists>seen. ?chain = Inr (seen, s)) \<longleftrightarrow>
      0 \<notin> fst ` set fs \<and> distinct (map fst fs) \<and> fst ` set fs \<inter> {} = {} \<and> chain (\<lambda>p. ?f (snd p)) fs st = Inr s" for s
    by (rule chain_fields [of fs ?f ?good value_bytes value_elements lim]) (use Fields(1) sizes_nonneg(1) nonneg in auto)
  have sums: "(case chain (\<lambda>p. ?f (snd p)) fs st of Inl e \<Rightarrow> Inl e | Inr s \<Rightarrow> check_size lim s) = Inr st' \<longleftrightarrow>
      list_all (\<lambda>p. ?good (snd p)) fs \<and> st' = (fst st + sum_list (map (\<lambda>p. value_bytes (snd p)) fs),
        snd st + sum_list (map (\<lambda>p. value_elements (snd p)) fs)) \<and> \<not> over_limit lim st'"
    by (rule chain_checked [OF _ _ Fields(2)]) (use Fields(1) sizes_nonneg(1) nonneg in auto)
  have checked: "(case x of Inl e \<Rightarrow> Inl e | Inr s \<Rightarrow> check_size lim s) = Inr st' \<longleftrightarrow> x = Inr st' \<and> \<not> over_limit lim st'"
    for x :: "error + int \<times> int"
    by (cases x) (auto simp: check_size_iff)
  have "(case ?chain of Inl e \<Rightarrow> Inl e | Inr (seen, s) \<Rightarrow> check_size lim s) = Inr st' \<longleftrightarrow>
      (\<exists>seen. ?chain = Inr (seen, st')) \<and> \<not> over_limit lim st'"
    by (rule checked_pair)
  then have "(case ?chain of Inl e \<Rightarrow> Inl e | Inr (seen, s) \<Rightarrow> check_size lim s) = Inr st' \<longleftrightarrow>
      0 \<notin> fst ` set fs \<and> distinct (map fst fs) \<and> (chain (\<lambda>p. ?f (snd p)) fs st = Inr st' \<and> \<not> over_limit lim st')"
    unfolding chain by blast
  then show ?case
    unfolding sums [unfolded checked] validate_data.simps rpc_data.case shaped_data.simps data_size.simps data_elements.simps
    by blast
qed (auto simp: check_size_iff)

lemma validateValues_iff:
  "validateValues vs lim = None \<longleftrightarrow> list_all (well_shaped (MaxValueDepth lim) 0) vs
    \<and> (vs \<noteq> [] \<longrightarrow> sum_list (map value_bytes vs) \<le> MaxMessageBytes lim \<and> sum_list (map value_elements vs) \<le> MaxValueElements lim)"
proof -
  have "0 \<le> value_bytes v \<and> 0 \<le> value_elements v" for v using sizes_nonneg(1,3) [of v] by simp
  note sums = chain_sums [of vs "\<lambda>v. validate_value lim v 0" "well_shaped (MaxValueDepth lim) 0" value_bytes value_elements
      lim "(0, 0)", OF validate_iff(1) this]
  show ?thesis
  proof (cases "chain (\<lambda>v. validate_value lim v 0) vs (0, 0)")
    case (Inl e)
    then show ?thesis
      using sums [of "(sum_list (map value_bytes vs), sum_list (map value_elements vs))"]
      by (auto simp: validateValues_def over_limit_def)
  next
    case (Inr st)
    then show ?thesis using sums [of st] by (auto simp: validateValues_def over_limit_def)
  qed
qed

section \<open>Canonical values\<close>

lemma sum_list_sort_key: "sum_list (map f (sort_key k xs)) = sum_list (map f xs)" for f :: "'a \<Rightarrow> int"
  by (metis mset_map mset_sort sum_mset_sum_list)

lemma canon_type [simp]: "rv_Type (canon v) = rv_Type v"
  by (cases v) simp

lemma canon_sums:
  "value_bytes (canon v) = value_bytes v" "data_size (canon_data d) = data_size d"
  "value_elements (canon v) = value_elements v" "data_elements (canon_data d) = data_elements d"
proof -
  show "value_bytes (canon v) = value_bytes v" "data_size (canon_data d) = data_size d"
    by (induction v and d rule: rpc_induct) (auto simp: sum_list_sort_key comp_def intro!: arg_cong [where f = sum_list] map_cong)
  show "value_elements (canon v) = value_elements v" "data_elements (canon_data d) = data_elements d"
    by (induction v and d rule: rpc_induct) (auto simp: sum_list_sort_key comp_def intro!: arg_cong [where f = sum_list] map_cong)
qed

lemma item_error_None: "item_error typ elem i vs = None \<longleftrightarrow> (\<forall>v \<in> set vs. TrimSpace (rv_Type v) = elem)"
  by (induction vs arbitrary: i) auto

lemma entry_error_None:
  "entry_error typ key val i es = None \<longleftrightarrow>
    (\<forall>e \<in> set es. TrimSpace (rv_Type (fst e)) = key \<and> TrimSpace (rv_Type (snd e)) = val)"
  by (induction es arbitrary: i) auto

lemma None_if_cong:
  "(a = None \<longleftrightarrow> a' = None) \<Longrightarrow> (b = None \<longleftrightarrow> b' = None) \<Longrightarrow>
    (if c then a else b) = None \<longleftrightarrow> (if c then a' else b') = None"
  by simp

lemma canon_scalar: "scalar_shape ty (canon_data d) = scalar_shape ty d"
  by (cases d) (simp_all only: scalar_shape_def canon_data.simps rpc_data.case)

lemma canon_shape: "validateValueShape t (canon_data d) = None \<longleftrightarrow> validateValueShape t d = None"
proof -
  have nil: "canon_data d = DNil \<longleftrightarrow> d = DNil" by (cases d) simp_all
  have not_none: "shape_error ty e \<noteq> None" for ty e by (simp add: shape_error_def)
  show ?thesis
    unfolding validateValueShape_def Let_def nil canon_scalar
  proof (intro None_if_cong)
    show "(case rpcMapTypes ty of (key, val, ok) \<Rightarrow>
        (case canon_data d of DMap es \<Rightarrow> if ok then entry_error ty key val 0 es else shape_error ty (canon_data d)
         | _ \<Rightarrow> shape_error ty (canon_data d))) = None \<longleftrightarrow>
      (case rpcMapTypes ty of (key, val, ok) \<Rightarrow>
        (case d of DMap es \<Rightarrow> if ok then entry_error ty key val 0 es else shape_error ty d | _ \<Rightarrow> shape_error ty d)) = None" for ty
      by (cases d) (simp_all add: not_none entry_error_None split_beta)
  qed (cases d; simp add: not_none item_error_None)+
qed

lemma canon_shaped:
  "well_shaped maxDepth depth v \<Longrightarrow> well_shaped maxDepth depth (canon v)"
  "shaped_data maxDepth depth d \<Longrightarrow> shaped_data maxDepth depth (canon_data d)"
proof (induction v and d arbitrary: depth and depth rule: rpc_induct)
  case (Value t d r)
  then show ?case by (cases r) (simp_all add: canon_shape)
next
  case (Fields fs)
  have "mset (map fst (sort_key fst (map (\<lambda>f. (fst f, canon (snd f))) fs))) = mset (map fst fs)"
    by (simp add: multiset.map_comp comp_def)
  then have "distinct (map fst (sort_key fst (map (\<lambda>f. (fst f, canon (snd f))) fs))) = distinct (map fst fs)"
    by (rule mset_eq_imp_distinct_iff)
  moreover have "fst ` set (map (\<lambda>f. (fst f, canon (snd f))) fs) = fst ` set fs" by (simp add: image_image)
  ultimately show ?case using Fields by (simp add: list_all_iff)
qed (auto simp: list_all_iff)

lemma shaped_supported:
  "well_shaped maxDepth depth v \<Longrightarrow> supported v" "shaped_data maxDepth depth d \<Longrightarrow> supported_data d"
  by (induction v and d arbitrary: depth and depth rule: rpc_induct) (auto simp: list_all_iff split: option.splits)

section \<open>Values within the range of their Go types\<close>

fun in_range :: "rpc_value \<Rightarrow> bool" and range_data :: "rpc_data \<Rightarrow> bool" where
  "in_range (RpcValue t d r) = ((\<forall>ref. r = Some ref \<longrightarrow> ref_range ref \<and> utf8_Valid (ref_TypeHash ref)) \<and> range_data d)"
| "range_data (DInt i) = int64_ok 0 i"
| "range_data (DUint u) = (u < 2 ^ 64)"
| "range_data (DFloat f) = (f < 2 ^ 64)"
| "range_data (DComplex c) = (fst c < 2 ^ 64 \<and> snd c < 2 ^ 64)"
| "range_data (DSlice vs) = list_all in_range vs"
| "range_data (DMap es) = list_all (\<lambda>e. in_range (fst e) \<and> in_range (snd e)) es"
| "range_data (DFields fs) = list_all (\<lambda>f. fst f < 2 ^ 32 \<and> in_range (snd f)) fs"
| "range_data (DOptional v) = in_range v"
| "range_data d = True"

lemma canon_range: "in_range v \<Longrightarrow> in_range (canon v)" "range_data d \<Longrightarrow> range_data (canon_data d)"
  by (induction v and d rule: rpc_induct) (auto simp: list_all_iff)

section \<open>What the validator accepts the decoder accepts\<close>

lemma part_le_sum: "x \<in> set xs \<Longrightarrow> (\<And>y. y \<in> set xs \<Longrightarrow> 0 \<le> f y) \<Longrightarrow> f x \<le> sum_list (map f xs)" for f :: "'a \<Rightarrow> int"
proof (induction xs)
  case (Cons y ys)
  have "0 \<le> sum_list (map f ys)" using Cons.prems(2) by (auto intro!: sum_list_nonneg)
  then show ?case using Cons by fastforce
qed simp

lemma length_le_sum: "(\<And>y. y \<in> set xs \<Longrightarrow> 1 \<le> f y) \<Longrightarrow> int (length xs) \<le> sum_list (map f xs)" for f :: "'a \<Rightarrow> int"
proof (induction xs)
  case (Cons y ys)
  then have "1 \<le> f y" "int (length ys) \<le> sum_list (map f ys)" by auto
  then show ?case by simp
qed simp

definition sizes_fit :: "Limits \<Rightarrow> int \<Rightarrow> int \<Rightarrow> bool" where
  "sizes_fit l b e = (b \<le> MaxMessageBytes l \<and> e \<le> MaxValueElements l)"

lemma uint64_of_small: "0 \<le> v \<Longrightarrow> v < 2 ^ 63 \<Longrightarrow> uint64_of_int v = nat v"
  by (simp add: uint64_of_int_def)

lemma length_fits:
  assumes "int (length s) \<le> v" "v < 2 ^ 63"
  shows "length s \<le> uint64_of_int v"
  using assms uint64_of_small [of v] by (simp add: le_nat_iff)

text \<open>The parts of a list of values fit if the whole does.\<close>

lemma parts_fit:
  assumes "sizes_fit l (sum_list (map b xs)) (sum_list (map e xs))" "x \<in> set xs"
    "\<And>x. x \<in> set xs \<Longrightarrow> 0 \<le> b x" "\<And>x. x \<in> set xs \<Longrightarrow> 1 \<le> e x"
  shows "sizes_fit l (b x) (e x) \<and> int (length xs) \<le> MaxValueElements l"
proof -
  have "0 \<le> e y" if "y \<in> set xs" for y using assms(4) [OF that] by simp
  then have "e x \<le> sum_list (map e xs)" using part_le_sum [OF assms(2), of e] by blast
  moreover have "b x \<le> sum_list (map b xs)" by (rule part_le_sum [OF assms(2,3)])
  moreover have "int (length xs) \<le> sum_list (map e xs)" by (rule length_le_sum [OF assms(4)])
  ultimately show ?thesis using assms(1) by (simp add: sizes_fit_def)
qed

lemma entries_fit:
  assumes "sizes_fit l (data_size (DMap es)) (data_elements (DMap es))" "e \<in> set es"
  shows "sizes_fit l (value_bytes (fst e)) (value_elements (fst e)) \<and> sizes_fit l (value_bytes (snd e)) (value_elements (snd e))
    \<and> int (length es) \<le> MaxValueElements l"
proof -
  have pos: "0 \<le> value_bytes v" "1 \<le> value_elements v" for v using sizes_nonneg(1,3) by blast+
  have "sizes_fit l (value_bytes (fst e) + value_bytes (snd e)) (value_elements (fst e) + value_elements (snd e))
      \<and> int (length es) \<le> MaxValueElements l"
    using assms(1) by (intro parts_fit [OF _ assms(2)]) (simp_all add: add_nonneg_nonneg pos add_increasing order_trans [OF zero_le_one pos(2)])
  then show ?thesis
    using pos [of "fst e"] pos [of "snd e"] by (auto simp: sizes_fit_def)
qed

lemma strip_spaces_length: "length (strip_spaces encs s) \<le> length s"
proof (induction encs s rule: strip_spaces.induct)
  case (2 encs c s)
  then show ?case by (auto simp: Let_def intro: order_trans)
qed simp

lemma TrimSpace_length: "length (TrimSpace s) \<le> length s"
  using strip_spaces_length [of "map rev space_encodings" "rev (strip_spaces space_encodings s)"]
    strip_spaces_length [of space_encodings s]
  by (simp add: TrimSpace_def)

lemma count_fits:
  "int (length xs) \<le> MaxValueElements l \<Longrightarrow> MaxValueElements l < 2 ^ 63 \<Longrightarrow> length xs \<le> uint64_of_int (MaxValueElements l)"
  using uint64_of_small [of "MaxValueElements l"] by (simp add: le_nat_iff)

lemma text_fits: "MaxMessageBytes l < 2 ^ 63 \<Longrightarrow> sizes_fit l (int (length s)) e \<Longrightarrow> raw_ok (MaxMessageBytes l) s"
  using length_fits [of s "MaxMessageBytes l"] by (simp add: sizes_fit_def raw_ok_def)

lemma values_fit:
  assumes "sizes_fit l (sum_list (map (\<lambda>x. value_bytes (g x)) xs)) (sum_list (map (\<lambda>x. value_elements (g x)) xs))"
  shows "int (length xs) \<le> MaxValueElements l \<or> xs = []"
    "x \<in> set xs \<Longrightarrow> sizes_fit l (value_bytes (g x)) (value_elements (g x))"
proof -
  show "x \<in> set xs \<Longrightarrow> sizes_fit l (value_bytes (g x)) (value_elements (g x))"
    using parts_fit [OF assms] sizes_nonneg(1,3) by blast
  show "int (length xs) \<le> MaxValueElements l \<or> xs = []"
    using parts_fit [OF assms, of "hd xs"] sizes_nonneg(1,3) by (cases xs) auto
qed

definition room_at :: "Limits \<Rightarrow> int \<Rightarrow> nat" where
  "room_at l depth = nat (MaxValueDepth l + 1 - depth)"

text \<open>A validated value passes the decoder with the room its depth leaves.\<close>

lemma shaped_ok:
  assumes small: "MaxMessageBytes l < 2 ^ 63" "MaxValueElements l < 2 ^ 63"
  shows "well_shaped (MaxValueDepth l) depth v \<Longrightarrow> in_range v \<Longrightarrow> sizes_fit l (value_bytes v) (value_elements v) \<Longrightarrow>
    value_ok l (room_at l depth) (MaxMessageBytes l) v"
  "shaped_data (MaxValueDepth l) depth d \<Longrightarrow> range_data d \<Longrightarrow> sizes_fit l (data_size d) (data_elements d) \<Longrightarrow>
    data_ok l (value_ok l (room_at l (depth + 1)) (MaxMessageBytes l)) (MaxMessageBytes l) d"
proof (induction v and d arbitrary: depth and depth rule: rpc_induct)
  case (Value t d r)
  have depth: "depth \<le> MaxValueDepth l" using Value.prems(1) by simp
  then have room: "room_at l depth = Suc (room_at l (depth + 1))" by (simp add: room_at_def)
  have pos: "0 \<le> data_size d" "0 \<le> data_elements d" by (rule sizes_nonneg)+
  have fit: "sizes_fit l (int (length t)) 1" "r = None \<Longrightarrow> sizes_fit l (data_size d) (data_elements d)"
    using Value.prems(3) pos by (auto simp: sizes_fit_def split: if_splits)
  have t: "string_ok (MaxMessageBytes l) t" using text_fits [OF small(1) fit(1)] Value.prems(1) by (simp add: string_ok_def)
  have "ref_ok (MaxMessageBytes l) ref" if r: "r = Some ref" for ref
  proof -
    have "ref_TypeHash ref = TrimSpace t" using Value.prems(1) r by simp
    then have "sizes_fit l (int (length (ref_TypeHash ref))) 1" using fit(1) TrimSpace_length [of t] by (simp add: sizes_fit_def)
    then show ?thesis
      using text_fits [OF small(1)] Value.prems(2) r by (simp add: ref_ok_def ref_range_def string_ok_def)
  qed
  then show ?case
    using Value t fit(2) unfolding room by (cases r) simp_all
next
  case (String s)
  then show ?case using text_fits [OF small(1), of s] by (simp add: data_ok_def string_ok_def)
next
  case (Bytes s)
  then show ?case using text_fits [OF small(1), of s] by (simp add: data_ok_def)
next
  case (Slice vs)
  then show ?case
    using values_fit [of l "\<lambda>v. v" vs] count_fits [OF _ small(2), of vs] by (auto simp: data_ok_def list_all_iff)
next
  case (Map es)
  have "int (length es) \<le> MaxValueElements l \<or> es = []"
    using entries_fit [OF Map.prems(3), of "hd es"] by (cases es) auto
  then show ?case
    using Map entries_fit [OF Map.prems(3)] count_fits [OF _ small(2), of es] by (auto simp: data_ok_def list_all_iff)
next
  case (Fields fs)
  then have "fst f \<noteq> 0" if "f \<in> set fs" for f using that by force
  with Fields show ?case
    using values_fit [of l snd fs] count_fits [OF _ small(2), of fs]
    by (auto simp: data_ok_def list_all_iff field_ok_def simp flip: neq0_conv)
next
  case (Optional v)
  then show ?case by (simp add: data_ok_def)
qed (auto simp: data_ok_def int64_ok_def)

section \<open>Lists of values\<close>

lemma decode_values_iff:
  "decode_values l i n d = Inr r \<longleftrightarrow> wire_repeat n (decodeBinaryValue l 0) d = Inr r"
proof (induction n arbitrary: i d r)
  case 0
  show ?case by (simp add: wire_return_def)
next
  case (Suc n)
  obtain vs d'' where r: "r = (vs, d'')" by fastforce
  have "decode_values l i (Suc n) d = Inr r \<longleftrightarrow>
      (\<exists>v d' ws. decodeBinaryValue l 0 d = Inr (v, d') \<and> decode_values l (i + 1) n d' = Inr (ws, d'') \<and> vs = v # ws)"
    by (auto simp: r split: sum.splits)
  also have "\<dots> \<longleftrightarrow> wire_repeat (Suc n) (decodeBinaryValue l 0) d = Inr r"
    unfolding Suc by (auto simp: r wire_bind_iff wire_return_def)
  finally show ?case .
qed

definition values_bytes :: "rpc_value list \<Rightarrow> string" where
  "values_bytes vs = enc_Uint (length vs) @ concat (map wire_bytes vs)"

lemma DecodeValues_iff:
  fixes l :: Limits
  defines "lim \<equiv> normalizeLimits l"
  shows "DecodeValues data l = Inr vs \<longleftrightarrow>
    int (length data) \<le> MaxMessageBytes lim \<and> data = values_bytes vs \<and> length vs \<le> uint64_of_int (MaxValueElements lim)
    \<and> list_all (value_ok lim (room_at lim 0) (MaxMessageBytes lim)) vs \<and> validateValues vs lim = None" (is "?decoded \<longleftrightarrow> ?ok")
proof -
  have codec: "canonical_codec wire_bytes (decodeBinaryValue lim 0) (value_ok lim (room_at lim 0))"
    using canonical_room [of lim "room_at lim 0"] by (simp add: decodeBinaryValue_def [abs_def] room_at_def)
  note rep = canonical_codec.accepts_iff [OF canonical_repeat [OF codec]]
  have many: "decode_values lim 0 n (cur pre s m) = Inr (ws, d) \<longleftrightarrow> (length ws = n \<and> list_all (value_ok lim (room_at lim 0) m) ws)
      \<and> (\<exists>t. s = concat (map wire_bytes ws) @ t \<and> d = cur (pre @ concat (map wire_bytes ws)) t m)" for n pre s m ws d
    unfolding decode_values_iff rep ..
  show ?thesis
  proof
    assume decoded: ?decoded
    then have size: "\<not> MaxMessageBytes lim < int (length data)"
      by (auto simp: DecodeValues_def lim_def Let_def split: if_splits)
    from decoded obtain n d d' where parts: "wire_Uint (cur [] data (MaxMessageBytes lim)) = Inr (n, d)"
        "\<not> uint64_of_int (MaxValueElements lim) < n" "decode_values lim 0 n d = Inr (vs, d')" "wire_Done d' = Inr ((), d')"
        "validateValues vs lim = None"
      by (auto simp: DecodeValues_def lim_def [symmetric] Let_def newWireDecoder_cur wire_Done_def
          split: if_splits sum.splits option.splits)
    from parts(1) obtain t where t: "data = enc_Uint n @ t" "d = cur (enc_Uint n) t (MaxMessageBytes lim)"
      by (auto simp: uint_codec.accepts_iff)
    from parts(3,4) show ?ok
      using size parts(2,5) t by (auto simp: many wire_Done_iff values_bytes_def)
  next
    assume ok: ?ok
    then have "length vs < 2 ^ 64" using uint64_of_int_bound [of "MaxValueElements lim"] by simp
    then have count: "wire_Uint (cur [] data (MaxMessageBytes lim)) = Inr (length vs,
        cur (enc_Uint (length vs)) (concat (map wire_bytes vs)) (MaxMessageBytes lim))"
      using ok by (auto simp: uint_codec.accepts_iff values_bytes_def)
    moreover have "decode_values lim 0 (length vs) (cur (enc_Uint (length vs)) (concat (map wire_bytes vs)) (MaxMessageBytes lim))
        = Inr (vs, cur (enc_Uint (length vs) @ concat (map wire_bytes vs)) [] (MaxMessageBytes lim))"
      using ok by (auto simp: many)
    moreover have "\<not> MaxMessageBytes lim < int (length data)" "\<not> uint64_of_int (MaxValueElements lim) < length vs"
        "validateValues vs lim = None"
      using ok by auto
    ultimately show ?decoded
      by (simp add: DecodeValues_def lim_def [symmetric] Let_def newWireDecoder_cur wire_Done_def)
  qed
qed

lemma EncodeValues_iff:
  "EncodeValues vs l = Inr data \<longleftrightarrow>
    validateValues vs (normalizeLimits l) = None \<and> data = values_bytes (map canon vs)
    \<and> int (length data) \<le> MaxMessageBytes (normalizeLimits l)"
proof (cases "validateValues vs (normalizeLimits l)")
  case None
  then have "supported v" if "v \<in> set vs" for v
    using that shaped_supported(1) by (auto simp: validateValues_iff list_all_iff)
  then have "concat_ok (enc_Uint (length vs)) (map encodeBinaryValue vs) = Inr (values_bytes (map canon vs))"
    by (subst concat_ok_Inr [where g = "\<lambda>v. wire_bytes (canon v)"])
      (simp_all add: encode_supported(1) values_bytes_def comp_def)
  then show ?thesis using None by (auto simp: EncodeValues_def Let_def)
qed (simp add: EncodeValues_def Let_def)

lemma validate_canon: "validateValues vs lim = None \<Longrightarrow> validateValues (map canon vs) lim = None"
  using canon_shaped(1) by (auto simp: validateValues_iff list_all_iff comp_def canon_sums)

lemma validated_fits:
  assumes valid: "validateValues vs lim = None" and range: "list_all in_range vs"
    and small: "MaxMessageBytes lim < 2 ^ 63" "MaxValueElements lim < 2 ^ 63"
  shows "length vs \<le> uint64_of_int (MaxValueElements lim)"
    "list_all (value_ok lim (room_at lim 0) (MaxMessageBytes lim)) vs"
proof -
  have fit: "sizes_fit lim (sum_list (map value_bytes vs)) (sum_list (map value_elements vs))" if "vs \<noteq> []"
    using valid that by (simp add: validateValues_iff sizes_fit_def)
  note parts = values_fit [of lim "\<lambda>v. v" vs, simplified]
  show "length vs \<le> uint64_of_int (MaxValueElements lim)"
    using parts(1) fit count_fits [OF _ small(2), of vs] by (cases "vs = []") auto
  have "value_ok lim (room_at lim 0) (MaxMessageBytes lim) v" if v: "v \<in> set vs" for v
  proof (rule shaped_ok(1) [OF small])
    show "well_shaped (MaxValueDepth lim) 0 v" "in_range v"
      using valid range v by (auto simp: validateValues_iff list_all_iff)
    have "vs \<noteq> []" using v by auto
    then show "sizes_fit lim (value_bytes v) (value_elements v)" using parts(2) [OF fit v] by blast
  qed
  then show "list_all (value_ok lim (room_at lim 0) (MaxMessageBytes lim)) vs" by (simp add: list_all_iff)
qed

section \<open>Sample values\<close>

definition sample_struct :: "bool \<Rightarrow> rpc_value" where
  "sample_struct descending =
     (let three = (3, RpcValue ''bool'' (DBool True) None); five = (5, RpcValue ''int8'' (DInt 3) None) in
      RpcValue ''p.T'' (DFields (if descending then [five, three] else [three, five])) None)"

lemma tight_types: "TrimSpace ''p.T'' = ''p.T''" "TrimSpace ''bool'' = ''bool''" "TrimSpace ''int8'' = ''int8''"
  by code_simp+

lemma sample_struct_shaped: "well_shaped 128 0 (sample_struct b)"
  by (simp add: sample_struct_def validateValueShape_def scalar_shape_def HasPrefix_def Let_def tight_types utf8_Valid_ascii
      del: utf8_Valid.simps)

lemma sample_struct_valid:
  "validateValues [sample_struct True] (normalizeLimits sample_limits) = None"
  "validateValues [sample_struct False] (normalizeLimits sample_limits) = None"
proof -
  have "value_bytes (sample_struct b) = 11" "value_elements (sample_struct b) = 3" for b
    by (simp_all add: sample_struct_def Let_def)
  moreover have "MaxMessageBytes (normalizeLimits sample_limits) = 67108864" "MaxValueDepth (normalizeLimits sample_limits) = 128"
      "MaxValueElements (normalizeLimits sample_limits) = 1000000"
    by (simp_all add: normalizeLimits_def sample_limits_def default_limit_def)
  ultimately show "validateValues [sample_struct True] (normalizeLimits sample_limits) = None"
      "validateValues [sample_struct False] (normalizeLimits sample_limits) = None"
    using sample_struct_shaped by (simp_all add: validateValues_iff)
qed

lemma sample_struct_range: "list_all in_range [sample_struct True]" "canon (sample_struct True) = sample_struct False"
  by (simp_all add: sample_struct_def int64_ok_def Let_def)

lemma sample_struct_bytes: "int (length (values_bytes [sample_struct b])) \<le> 67108864"
proof -
  have "int (length (values_bytes [sample_struct True])) \<le> 67108864" by code_simp
  moreover have "int (length (values_bytes [sample_struct False])) \<le> 67108864" by code_simp
  ultimately show ?thesis by (cases b) simp_all
qed

lemma sample_limit_values:
  "MaxMessageBytes (normalizeLimits sample_limits) = 67108864" "MaxValueElements (normalizeLimits sample_limits) = 1000000"
  by (simp_all add: normalizeLimits_def sample_limits_def default_limit_def)

lemma sample_struct_encoded: "EncodeValues [sample_struct True] sample_limits = Inr (values_bytes [sample_struct False])"
  using sample_struct_valid(1) sample_struct_bytes [of False]
  by (simp add: EncodeValues_iff sample_struct_range(2) sample_limit_values)

lemma sample_struct_decoded: "DecodeValues (values_bytes [sample_struct True]) sample_limits = Inr [sample_struct True]"
  using validated_fits [OF sample_struct_valid(1) sample_struct_range(1)] sample_struct_valid(1) sample_struct_bytes [of True]
  by (simp add: DecodeValues_iff sample_limit_values)

section \<open>Properties of values\<close>



text \<open>
  C11. Whatever the decoder accepts is valid under the limits, and its bytes are exactly those of
  the values in the order received; if that order is the canonical one, encoding the values gives
  the same bytes again.
\<close>

theorem values_decoded_valid:
  assumes "DecodeValues data l = Inr vs"
  shows "validateValues vs (normalizeLimits l) = None \<and> data = values_bytes vs
    \<and> int (length data) \<le> MaxMessageBytes (normalizeLimits l)
    \<and> (map canon vs = vs \<longrightarrow> EncodeValues vs l = Inr data)"
  using assms by (auto simp: DecodeValues_iff EncodeValues_iff)

theorem values_decoded_valid_witness:
  "DecodeValues (values_bytes [sample_struct True]) sample_limits = Inr [sample_struct True]
   \<and> validateValues [sample_struct True] (normalizeLimits sample_limits) = None"
  using sample_struct_decoded values_decoded_valid [OF sample_struct_decoded] by blast


text \<open>
  The decoder is not canonical in the order of fields: it accepts a struct whose fields come
  in descending order, and encodes the value it returns to other bytes.
\<close>

theorem unsorted_fields_accepted:
  "DecodeValues (values_bytes [sample_struct True]) sample_limits = Inr [sample_struct True]
   \<and> EncodeValues [sample_struct True] sample_limits = Inr (values_bytes [sample_struct False])
   \<and> values_bytes [sample_struct True] \<noteq> values_bytes [sample_struct False]"
proof (intro conjI)
  show "EncodeValues [sample_struct True] sample_limits = Inr (values_bytes [sample_struct False])"
    by (rule sample_struct_encoded)
  show "values_bytes [sample_struct True] \<noteq> values_bytes [sample_struct False]" by code_simp
qed (rule sample_struct_decoded)

end
