(* ===== verification/Target.thy ===== *)
theory Target
  imports Decimal_Text
begin

text \<open>
  Build tags and the \<^verbatim>\<open>//go:build\<close> expressions that select source files:
  \<^verbatim>\<open>src/compiler/target/target.go\<close> and \<^verbatim>\<open>src/compiler/target/constraint.go\<close>.

  A Go \<^verbatim>\<open>(value, error)\<close> is a sum with the error on the left; the texts of the errors
  are constructors.  The recursive-descent parser is the code's: a parser state holding
  the source, the offset and the current token, \<open>next_token\<close> moving it, one function per
  method and one per loop.  Its recursion goes through the states the callees return,
  so the functions carry fuel; \<open>parse_fuel\<close> is proved to be enough for every source.
  What the parser accepts is stated by a grammar over the remaining tokens.
\<close>

section \<open>Targets\<close>

definition LanguageTag :: string where
  "LanguageTag = ''minigo''"

record Target =
  Tags :: "string list"

datatype constraint_message =
    MultipleDirectives
  | EmptyExpression
  | UnexpectedToken string
  | MissingParenthesis
  | ExpectedExpression
  | ExpectedOperand

datatype target_error =
    InvalidBuildTag string
  | TagsNotCanonical
  | ConstraintError (error_offset: nat) (error_message: constraint_message)

definition validTagByte :: "char \<Rightarrow> bool" where
  "validTagByte ch =
     ((CHR ''a'' \<le> ch \<and> ch \<le> CHR ''z'') \<or> (CHR ''A'' \<le> ch \<and> ch \<le> CHR ''Z'') \<or>
      (CHR ''0'' \<le> ch \<and> ch \<le> CHR ''9'') \<or> ch = CHR ''_'' \<or> ch = CHR ''.'')"

definition validTag :: "string \<Rightarrow> bool" where
  "validTag tag = (tag \<noteq> [] \<and> list_all validTagByte tag)"

text \<open>
  The keys of the Go map \<^verbatim>\<open>seen\<close> are a list without duplicates; the order of a Go map is
  unspecified, but the result is sorted.
\<close>

fun collect_tags :: "string list \<Rightarrow> string list \<Rightarrow> target_error + string list" where
  "collect_tags seen [] = Inr seen"
| "collect_tags seen (t # ts) =
     (let tag = TrimSpace t in
      if \<not> validTag tag then Inl (InvalidBuildTag tag)
      else collect_tags (List.insert tag seen) ts)"

definition Normalize :: "Target \<Rightarrow> target_error + Target" where
  "Normalize buildTarget =
     (case collect_tags [LanguageTag] (Tags buildTarget) of
        Inl e \<Rightarrow> Inl e
      | Inr tags \<Rightarrow> Inr \<lparr>Tags = sort tags\<rparr>)"

definition same_tags :: "string list \<Rightarrow> string list \<Rightarrow> bool" where
  "same_tags left right =
     (length left = length right \<and> list_all (\<lambda>(a, b). a = b) (zip left right))"

definition ValidateTarget :: "Target \<Rightarrow> target_error option" where
  "ValidateTarget buildTarget =
     (case Normalize buildTarget of
        Inl e \<Rightarrow> Some e
      | Inr normalized \<Rightarrow>
          if same_tags (Tags buildTarget) (Tags normalized) then None else Some TagsNotCanonical)"

definition Has :: "Target \<Rightarrow> string \<Rightarrow> bool" where
  "Has t tag = (list_ex (\<lambda>candidate. candidate = tag) (Tags t) \<or> tag = LanguageTag)"

definition EqualTarget :: "Target \<Rightarrow> Target \<Rightarrow> bool" where
  "EqualTarget t other =
     (case (Normalize t, Normalize other) of
        (Inr left, Inr right) \<Rightarrow> same_tags (Tags left) (Tags right)
      | _ \<Rightarrow> False)"

section \<open>Expressions and tokens\<close>

datatype expression =
    tagExpr string
  | notExpr expression
  | binaryExpr (left: expression) (right: expression) (disjunction: bool)

fun eval :: "expression \<Rightarrow> Target \<Rightarrow> bool" where
  "eval (tagExpr e) target = Has target e"
| "eval (notExpr e) target = (\<not> eval e target)"
| "eval (binaryExpr l r d) target =
     (if d then eval l target \<or> eval r target else eval l target \<and> eval r target)"

datatype token_kind =
    tokenInvalid | tokenEOF | tokenTag | tokenNot | tokenAnd | tokenOr | tokenLeft | tokenRight

record constraintToken =
  tok_kind :: token_kind
  tok_text :: string
  tok_offset :: nat

record constraintParser =
  p_source :: string
  p_base :: nat
  p_offset :: nat
  p_token :: constraintToken

definition tok :: "token_kind \<Rightarrow> string \<Rightarrow> nat \<Rightarrow> constraintToken" where
  "tok k t i = \<lparr>tok_kind = k, tok_text = t, tok_offset = i\<rparr>"

text \<open>A loop that advances an offset while the byte there satisfies a condition.\<close>

definition skip_bytes :: "(char \<Rightarrow> bool) \<Rightarrow> string \<Rightarrow> nat \<Rightarrow> nat" where
  "skip_bytes P s i = i + length (takeWhile P (drop i s))"

definition two_bytes :: "string \<Rightarrow> nat \<Rightarrow> char \<Rightarrow> bool" where
  "two_bytes s start ch = (start + 1 < length s \<and> s ! (start + 1) = ch)"

definition next_token :: "constraintParser \<Rightarrow> constraintParser" where
  "next_token p =
     (let s = p_source p;
          start = skip_bytes (\<lambda>c. c = CHR '' '' \<or> c = CHR 0x09) s (p_offset p) in
      if length s \<le> start then p\<lparr>p_offset := start, p_token := tok tokenEOF [] start\<rparr>
      else if s ! start = CHR ''!'' then
        p\<lparr>p_offset := start + 1, p_token := tok tokenNot ''!'' start\<rparr>
      else if s ! start = CHR ''('' then
        p\<lparr>p_offset := start + 1, p_token := tok tokenLeft ''('' start\<rparr>
      else if s ! start = CHR '')'' then
        p\<lparr>p_offset := start + 1, p_token := tok tokenRight '')'' start\<rparr>
      else if s ! start = CHR ''&'' then
        (if two_bytes s start (CHR ''&'')
         then p\<lparr>p_offset := start + 2, p_token := tok tokenAnd ''&&'' start\<rparr>
         else p\<lparr>p_offset := start + 1, p_token := tok tokenInvalid ''&'' start\<rparr>)
      else if s ! start = CHR ''|'' then
        (if two_bytes s start (CHR ''|'')
         then p\<lparr>p_offset := start + 2, p_token := tok tokenOr ''||'' start\<rparr>
         else p\<lparr>p_offset := start + 1, p_token := tok tokenInvalid ''|'' start\<rparr>)
      else
        (let stop = skip_bytes validTagByte s start in
         if stop = start
         then p\<lparr>p_offset := start + 1, p_token := tok tokenInvalid [s ! start] start\<rparr>
         else p\<lparr>p_offset := stop,
                p_token := tok tokenTag (take (stop - start) (drop start s)) start\<rparr>))"

definition parser_error :: "constraintParser \<Rightarrow> constraint_message \<Rightarrow> target_error" where
  "parser_error p msg = ConstraintError (p_base p + tok_offset (p_token p)) msg"

abbreviation cur_kind :: "constraintParser \<Rightarrow> token_kind" where
  "cur_kind p \<equiv> tok_kind (p_token p)"

section \<open>The recursive-descent parser\<close>

type_synonym parsed = "(target_error + expression \<times> constraintParser) option"

definition parse_bind ::
  "parsed \<Rightarrow> (expression \<Rightarrow> constraintParser \<Rightarrow> parsed) \<Rightarrow> parsed" where
  "parse_bind r k =
     (case r of None \<Rightarrow> None | Some (Inl e) \<Rightarrow> Some (Inl e) | Some (Inr (x, p)) \<Rightarrow> k x p)"

lemma parse_bind_cong [fundef_cong]:
  "r = r' \<Longrightarrow> (\<And>x p. r' = Some (Inr (x, p)) \<Longrightarrow> k x p = k' x p) \<Longrightarrow>
   parse_bind r k = parse_bind r' k'"
  by (auto simp: parse_bind_def split: option.splits sum.splits)

fun parseOr :: "nat \<Rightarrow> constraintParser \<Rightarrow> parsed"
  and or_loop :: "nat \<Rightarrow> expression \<Rightarrow> constraintParser \<Rightarrow> parsed"
  and parseAnd :: "nat \<Rightarrow> constraintParser \<Rightarrow> parsed"
  and and_loop :: "nat \<Rightarrow> expression \<Rightarrow> constraintParser \<Rightarrow> parsed"
  and parseUnary :: "nat \<Rightarrow> constraintParser \<Rightarrow> parsed" where
  "parseOr 0 p = None"
| "parseOr (Suc n) p = parse_bind (parseAnd n p) (or_loop n)"
| "or_loop 0 l p = None"
| "or_loop (Suc n) l p =
     (if cur_kind p = tokenOr
      then parse_bind (parseAnd n (next_token p)) (\<lambda>r. or_loop n (binaryExpr l r True))
      else Some (Inr (l, p)))"
| "parseAnd 0 p = None"
| "parseAnd (Suc n) p = parse_bind (parseUnary n p) (and_loop n)"
| "and_loop 0 l p = None"
| "and_loop (Suc n) l p =
     (if cur_kind p = tokenAnd
      then parse_bind (parseUnary n (next_token p)) (\<lambda>r. and_loop n (binaryExpr l r False))
      else Some (Inr (l, p)))"
| "parseUnary 0 p = None"
| "parseUnary (Suc n) p =
     (if cur_kind p = tokenNot then
        parse_bind (parseUnary n (next_token p)) (\<lambda>v p'. Some (Inr (notExpr v, p')))
      else if cur_kind p = tokenTag then
        Some (Inr (tagExpr (tok_text (p_token p)), next_token p))
      else if cur_kind p = tokenLeft then
        parse_bind (parseOr n (next_token p)) (\<lambda>v p'.
          if cur_kind p' \<noteq> tokenRight then Some (Inl (parser_error p' MissingParenthesis))
          else Some (Inr (v, next_token p')))
      else if cur_kind p = tokenEOF then Some (Inl (parser_error p ExpectedExpression))
      else Some (Inl (parser_error p ExpectedOperand)))"

definition newParser :: "string \<Rightarrow> nat \<Rightarrow> constraintParser" where
  "newParser s b = next_token \<lparr>p_source = s, p_base = b, p_offset = 0, p_token = tok tokenInvalid [] 0\<rparr>"

definition parse_fuel :: "constraintParser \<Rightarrow> nat" where
  "parse_fuel p = 4 * (length (p_source p) + 1) + 3"

text \<open>\<open>None\<close> is the parser running out of fuel.\<close>

definition parse_constraint :: "string \<Rightarrow> nat \<Rightarrow> (target_error + expression) option" where
  "parse_constraint s b =
     (let p = newParser s b in
      case parseOr (parse_fuel p) p of
        None \<Rightarrow> None
      | Some (Inl e) \<Rightarrow> Some (Inl e)
      | Some (Inr (parsed, p')) \<Rightarrow>
          if cur_kind p' \<noteq> tokenEOF
          then Some (Inl (parser_error p' (UnexpectedToken (tok_text (p_token p')))))
          else Some (Inr parsed))"

section \<open>Finding the directive\<close>

text \<open>\<^verbatim>\<open>strings.Index\<close>: the offset of the first occurrence of a substring.\<close>

fun Index :: "string \<Rightarrow> string \<Rightarrow> nat option" where
  "Index [] p = (if p = [] then Some 0 else None)"
| "Index (c # s) p = (if HasPrefix (c # s) p then Some 0 else map_option Suc (Index s p))"

record sourceExpression =
  se_text :: string
  se_offset :: nat

definition no_expression :: sourceExpression where
  "no_expression = \<lparr>se_text = [], se_offset = 0\<rparr>"

definition line_blank :: "char \<Rightarrow> bool" where
  "line_blank c = (c = CHR '' '' \<or> c = CHR 0x09 \<or> c = CHR 0x0D)"

definition directive :: string where
  "directive = ''//go:build''"

definition is_directive :: "string \<Rightarrow> bool" where
  "is_directive rest =
     (rest = directive \<or> HasPrefix rest (directive @ '' '') \<or> HasPrefix rest (directive @ [CHR 0x09]))"

lemma Index_bound: "Index s p = Some i \<Longrightarrow> i + length p \<le> length s"
  by (induction s arbitrary: i) (auto simp: HasPrefix_def split: if_splits dest: arg_cong[of _ _ length])

lemma HasPrefix_length: "HasPrefix s p \<Longrightarrow> length p \<le> length s"
  by (auto simp: HasPrefix_def dest: arg_cong[of _ _ length])

lemma skip_bytes_ge: "i \<le> skip_bytes P s i"
  by (simp add: skip_bytes_def)

text \<open>How the inner loop ends: with \<^verbatim>\<open>return\<close>, with an error, or with \<^verbatim>\<open>break\<close>.\<close>

datatype line_end =
    LineReturn sourceExpression
  | LineError target_error
  | LineBreak sourceExpression bool

definition take_directive ::
  "string \<Rightarrow> nat \<Rightarrow> nat \<Rightarrow> sourceExpression \<Rightarrow> string \<Rightarrow> line_end" where
  "take_directive line offset cursor found rest =
     (if is_directive rest then
        (let text = TrimSpace (drop (length directive) rest) in
         if se_text found \<noteq> [] then LineError (ConstraintError (offset + cursor) MultipleDirectives)
         else if text = [] then LineError (ConstraintError (offset + cursor) EmptyExpression)
         else LineBreak \<lparr>se_text = text,
                         se_offset = (case Index line text of None \<Rightarrow> offset - 1
                                                            | Some i \<Rightarrow> offset + i)\<rparr> False)
      else LineBreak found False)"

function scan_line :: "string \<Rightarrow> nat \<Rightarrow> nat \<Rightarrow> sourceExpression \<Rightarrow> bool \<Rightarrow> line_end" where
  "scan_line line offset cursor0 found inBlock =
     (let cursor = skip_bytes line_blank line cursor0 in
      if inBlock then
        (case Index (drop cursor line) ''*/'' of
           None \<Rightarrow> LineBreak found True
         | Some closeOffset \<Rightarrow> scan_line line offset (cursor + closeOffset + 2) found False)
      else if length line \<le> cursor then LineBreak found False
      else
        (let rest = drop cursor line in
         if HasPrefix rest ''/*'' then scan_line line offset (cursor + 2) found True
         else if HasPrefix rest ''//'' then take_directive line offset cursor found rest
         else LineReturn found))"
  by pat_completeness auto
termination
proof (relation "measure (\<lambda>(line, offset, cursor, found, b). length line - cursor)", goal_cases)
  case (2 line offset cursor0 found inBlock cursor closeOffset)
  have "cursor0 \<le> cursor" unfolding 2 by (rule skip_bytes_ge)
  moreover have "closeOffset + 2 \<le> length line - cursor"
    using Index_bound[OF 2(3)] by simp
  ultimately show ?case by simp
next
  case (3 line offset cursor0 found inBlock cursor rest)
  have "cursor0 \<le> cursor" unfolding 3 by (rule skip_bytes_ge)
  then show ?case using 3 by simp
qed simp

lemma IndexByte_Some: "IndexByte s c = Some i \<Longrightarrow> i < length s \<and> s ! i = c"
proof (induction s arbitrary: i)
  case (Cons x s)
  then show ?case by (auto simp: IndexByte_def split: if_splits)
qed (simp add: IndexByte_def)

function scan_source ::
  "string \<Rightarrow> nat \<Rightarrow> sourceExpression \<Rightarrow> bool \<Rightarrow> target_error + sourceExpression" where
  "scan_source source offset found inBlock =
     (if length source \<le> offset then Inr found
      else
        (let stop = (case IndexByte (drop offset source) (CHR 0x0A) of
                       None \<Rightarrow> length source - offset | Some i \<Rightarrow> i);
             line = take stop (drop offset source) in
         case scan_line line offset 0 found inBlock of
           LineReturn f \<Rightarrow> Inr f
         | LineError e \<Rightarrow> Inl e
         | LineBreak f b \<Rightarrow>
             scan_source source
               (if offset + stop < length source \<and> source ! (offset + stop) = CHR 0x0A
                then offset + stop + 1 else offset + stop) f b))"
  by pat_completeness auto
termination
proof (relation "measure (\<lambda>(source, offset, found, b). length source - offset)", goal_cases)
  case (2 source offset found inBlock stop line f b)
  show ?case
  proof (cases "IndexByte (drop offset source) (CHR 0x0A)")
    case None
    then show ?thesis using 2 by simp
  next
    case (Some i)
    then show ?thesis using 2 IndexByte_Some[OF Some] by (auto simp: algebra_simps)
  qed
qed simp

definition sourceConstraint :: "string \<Rightarrow> target_error + sourceExpression \<times> bool" where
  "sourceConstraint source =
     (case scan_source source 0 no_expression False of
        Inl e \<Rightarrow> Inl e
      | Inr found \<Rightarrow> Inr (found, se_text found \<noteq> []))"

definition MatchSource :: "string \<Rightarrow> Target \<Rightarrow> (target_error + bool) option" where
  "MatchSource source target =
     (case Normalize target of
        Inl e \<Rightarrow> Some (Inl e)
      | Inr buildTarget \<Rightarrow>
          (case sourceConstraint source of
             Inl e \<Rightarrow> Some (Inl e)
           | Inr (expr, found) \<Rightarrow>
               if \<not> found then Some (Inr True)
               else (case parse_constraint (se_text expr) (se_offset expr) of
                       None \<Rightarrow> None
                     | Some (Inl e) \<Rightarrow> Some (Inl e)
                     | Some (Inr parsed) \<Rightarrow> Some (Inr (eval parsed buildTarget)))))"

section \<open>Normal form of a target\<close>

lemma validTag_tight: "validTag tag \<Longrightarrow> TrimSpace tag = tag"
proof (rule TrimSpace_tight)
  assume "validTag tag"
  have "tight_byte c" if "validTagByte c" for c
    using that by (auto simp: validTagByte_def tight_byte_def less_eq_char_def)
  with \<open>validTag tag\<close> show "tag = [] \<or> tight_byte (hd tag) \<and> tight_byte (last tag)"
    by (auto simp: validTag_def list_all_iff)
qed

lemma collect_tags_iff:
  "collect_tags seen ts = Inr r \<longleftrightarrow>
     (\<forall>t \<in> set ts. validTag (TrimSpace t)) \<and> r = fold List.insert (map TrimSpace ts) seen"
  by (induction ts arbitrary: seen) (auto simp: Let_def)

lemma set_fold_insert: "set (fold List.insert ts seen) = set ts \<union> set seen"
  by (induction ts arbitrary: seen) auto

lemma distinct_fold_insert: "distinct seen \<Longrightarrow> distinct (fold List.insert ts seen)"
  by (induction ts arbitrary: seen) auto

lemma same_tags_iff [simp]: "same_tags a b \<longleftrightarrow> a = b"
  by (auto simp: same_tags_def list_all2_eq list_all2_iff list_all_iff)

lemma LanguageTag_valid: "validTag LanguageTag"
  by code_simp

text \<open>The canonical list of tags is the sorted list of the trimmed tags and the language tag.\<close>

definition tag_set :: "Target \<Rightarrow> string set" where
  "tag_set t = insert LanguageTag (TrimSpace ` set (Tags t))"

definition valid_target :: "Target \<Rightarrow> bool" where
  "valid_target t = list_all (\<lambda>tag. validTag (TrimSpace tag)) (Tags t)"

lemma set_tags [simp]:
  "set (sorted_list_of_set (tag_set t)) = tag_set t"
  by (simp add: tag_set_def del: sorted_list_of_set_insert_remove)

lemma tag_set_valid: "valid_target t \<Longrightarrow> tag \<in> tag_set t \<Longrightarrow> validTag tag"
  using LanguageTag_valid by (auto simp: tag_set_def valid_target_def list_all_iff)

lemma Normalize_iff:
  "Normalize t = Inr n \<longleftrightarrow> valid_target t \<and> n = \<lparr>Tags = sorted_list_of_set (tag_set t)\<rparr>"
proof -
  let ?l = "fold List.insert (map TrimSpace (Tags t)) [LanguageTag]"
  have set: "set ?l = tag_set t" by (auto simp: set_fold_insert tag_set_def)
  have "sort ?l = sorted_list_of_set (set ?l)"
    by (simp add: sorted_list_of_set_sort_remdups distinct_remdups_id distinct_fold_insert)
  moreover have "valid_target t \<longleftrightarrow> collect_tags [LanguageTag] (Tags t) = Inr ?l"
    by (simp add: collect_tags_iff valid_target_def list_all_iff)
  moreover have "collect_tags [LanguageTag] (Tags t) = Inr r \<Longrightarrow> r = ?l" for r
    by (simp add: collect_tags_iff)
  ultimately show ?thesis
    by (auto simp: Normalize_def set simp del: fold_simps split: sum.split)
qed

lemma Normalize_cases:
  obtains "valid_target t" and "Normalize t = Inr \<lparr>Tags = sorted_list_of_set (tag_set t)\<rparr>"
    | e where "\<not> valid_target t" and "Normalize t = Inl e"
  using Normalize_iff [of t] by (cases "Normalize t") auto

lemma EqualTarget_iff:
  "EqualTarget t u \<longleftrightarrow> valid_target t \<and> valid_target u \<and> tag_set t = tag_set u"
proof -
  have "sorted_list_of_set (tag_set t) = sorted_list_of_set (tag_set u) \<longleftrightarrow> tag_set t = tag_set u"
    using set_tags by metis
  then show ?thesis
    by (cases t rule: Normalize_cases; cases u rule: Normalize_cases) (simp_all add: EqualTarget_def)
qed

lemma tag_set_normal:
  assumes "valid_target t"
  shows "tag_set \<lparr>Tags = sorted_list_of_set (tag_set t)\<rparr> = tag_set t"
proof -
  have "TrimSpace ` tag_set t = tag_set t"
    using tag_set_valid [OF assms] validTag_tight by force
  then show ?thesis by (simp add: tag_set_def [of "\<lparr>Tags = _\<rparr>"]) (simp add: tag_set_def)
qed

lemma valid_target_normal:
  "valid_target t \<Longrightarrow> valid_target \<lparr>Tags = sorted_list_of_set (tag_set t)\<rparr>"
  using tag_set_valid by (simp add: valid_target_def [of "\<lparr>Tags = _\<rparr>"] list_all_iff validTag_tight)

section \<open>Progress of the lexer\<close>

definition left_over :: "constraintParser \<Rightarrow> nat" where
  "left_over p = length (p_source p) - p_offset p + (if cur_kind p = tokenEOF then 0 else 1)"

lemma next_token_progress:
  "cur_kind p \<noteq> tokenEOF \<Longrightarrow> left_over (next_token p) < left_over p"
proof -
  assume live: "cur_kind p \<noteq> tokenEOF"
  define s where "s = p_source p"
  define start where "start = skip_bytes (\<lambda>c. c = CHR '' '' \<or> c = CHR 0x09) s (p_offset p)"
  have le: "p_offset p \<le> start" unfolding start_def by (rule skip_bytes_ge)
  have le2: "start \<le> skip_bytes validTagByte s start" by (rule skip_bytes_ge)
  note next_token_def [of p, folded s_def, unfolded Let_def, folded start_def]
  then show ?thesis
    using live le le2
    by (auto simp: left_over_def tok_def s_def [symmetric])
qed

lemma next_token_source [simp]: "p_source (next_token p) = p_source p"
  by (simp add: next_token_def Let_def)

lemma left_over_bound: "left_over p \<le> length (p_source p) + 1"
  by (auto simp: left_over_def)

function tokens_from :: "constraintParser \<Rightarrow> (token_kind \<times> string) list" where
  "tokens_from p =
     (if cur_kind p = tokenEOF then []
      else (cur_kind p, tok_text (p_token p)) # tokens_from (next_token p))"
  by pat_completeness auto
termination
  by (relation "measure left_over") (auto intro: next_token_progress)

declare tokens_from.simps [simp del]

lemma tokens_live:
  "cur_kind p \<noteq> tokenEOF \<Longrightarrow>
   tokens_from p = (cur_kind p, tok_text (p_token p)) # tokens_from (next_token p)"
  by (subst tokens_from.simps) simp

lemma tokens_Nil [simp]: "tokens_from p = [] \<longleftrightarrow> cur_kind p = tokenEOF"
  by (subst tokens_from.simps) simp

lemma tokens_Cons:
  "tokens_from p = t # ts \<longleftrightarrow>
     cur_kind p \<noteq> tokenEOF \<and> t = (cur_kind p, tok_text (p_token p)) \<and> ts = tokens_from (next_token p)"
  by (subst tokens_from.simps) auto

section \<open>The parser always returns\<close>

lemma parse_bind_iff:
  "parse_bind r k = Some x \<longleftrightarrow>
     (\<exists>e. r = Some (Inl e) \<and> x = Inl e) \<or> (\<exists>v p. r = Some (Inr (v, p)) \<and> k v p = Some x)"
  by (auto simp: parse_bind_def split: option.splits sum.splits)

lemma parse_bind_cases [consumes 1]:
  assumes "parse_bind r k = Some x"
  obtains (err) e where "r = Some (Inl e)" and "x = Inl e"
    | (ok) v p where "r = Some (Inr (v, p))" and "k v p = Some x"
  using assms by (auto simp: parse_bind_iff)

text \<open>A successful call consumes at least one token; the loops consume tokens or none.\<close>

lemma parse_consumes:
  "parseOr n p = Some (Inr (e, p')) \<Longrightarrow> left_over p' < left_over p"
  "or_loop n l p = Some (Inr (e, p')) \<Longrightarrow> left_over p' \<le> left_over p"
  "parseAnd n p = Some (Inr (e, p')) \<Longrightarrow> left_over p' < left_over p"
  "and_loop n l p = Some (Inr (e, p')) \<Longrightarrow> left_over p' \<le> left_over p"
  "parseUnary n p = Some (Inr (e, p')) \<Longrightarrow> left_over p' < left_over p"
proof (induction n p and n l p and n p and n l p and n p
    arbitrary: e p' and e p' and e p' and e p' and e p'
    rule: parseOr_or_loop_parseAnd_and_loop_parseUnary.induct)
  case (2 n p)
  then show ?case by (fastforce simp: parse_bind_iff)
next
  case (4 n l p)
  then show ?case
    using next_token_progress [of p]
    by (fastforce simp: parse_bind_iff split: if_splits)
next
  case (6 n p)
  then show ?case by (fastforce simp: parse_bind_iff)
next
  case (8 n l p)
  then show ?case
    using next_token_progress [of p]
    by (fastforce simp: parse_bind_iff split: if_splits)
next
  case (10 n p)
  have step: "cur_kind q \<noteq> tokenEOF \<Longrightarrow> left_over (next_token q) < left_over q" for q
    by (rule next_token_progress)
  show ?case
  proof (cases "cur_kind p")
    case tokenNot
    with 10(3) obtain v where "parseUnary n (next_token p) = Some (Inr (v, p'))"
      by (auto simp: parse_bind_iff)
    from 10(1) [OF tokenNot this] step [of p] tokenNot show ?thesis by simp
  next
    case tokenTag
    with 10(3) step [of p] show ?thesis by simp
  next
    case tokenLeft
    with 10(3) obtain v q where r: "parseOr n (next_token p) = Some (Inr (v, q))"
      and q: "cur_kind q = tokenRight" "p' = next_token q"
      by (auto simp: parse_bind_iff split: if_splits)
    from 10(2) [OF _ _ tokenLeft r(1)] tokenLeft q step [of p] step [of q] show ?thesis by simp
  qed (use 10(3) in auto)
qed simp_all

lemma constraint_parse_total:
  "4 * left_over p + 3 \<le> n \<Longrightarrow> parseOr n p \<noteq> None"
  "4 * left_over p + 3 \<le> n \<Longrightarrow> or_loop n l p \<noteq> None"
  "4 * left_over p + 2 \<le> n \<Longrightarrow> parseAnd n p \<noteq> None"
  "4 * left_over p + 2 \<le> n \<Longrightarrow> and_loop n l p \<noteq> None"
  "4 * left_over p + 1 \<le> n \<Longrightarrow> parseUnary n p \<noteq> None"
proof (induction n p and n l p and n p and n l p and n p
    rule: parseOr_or_loop_parseAnd_and_loop_parseUnary.induct)
  case (2 n p)
  then show ?case
    using parse_consumes(3) [of n p]
    by (fastforce simp: parse_bind_def split: option.splits sum.splits)
next
  case (4 n l p)
  then show ?case
    using next_token_progress [of p] parse_consumes(3) [of n "next_token p"]
    by (fastforce simp: parse_bind_def split: option.splits sum.splits if_splits)
next
  case (6 n p)
  then show ?case
    using parse_consumes(5) [of n p]
    by (fastforce simp: parse_bind_def split: option.splits sum.splits)
next
  case (8 n l p)
  then show ?case
    using next_token_progress [of p] parse_consumes(5) [of n "next_token p"]
    by (fastforce simp: parse_bind_def split: option.splits sum.splits if_splits)
next
  case (10 n p)
  then show ?case
    using next_token_progress [of p]
    by (auto simp: parse_bind_def split: option.splits sum.splits)
qed simp_all

lemma parse_bind_mono:
  assumes "parse_bind r k = Some x" and "\<And>y. r = Some y \<Longrightarrow> r' = Some y"
    and "\<And>v p y. r = Some (Inr (v, p)) \<Longrightarrow> k v p = Some y \<Longrightarrow> k' v p = Some y"
  shows "parse_bind r' k' = Some x"
  using assms by (fastforce simp: parse_bind_iff)

lemma parse_mono:
  "parseOr n p = Some r \<Longrightarrow> parseOr (Suc n) p = Some r"
  "or_loop n l p = Some r \<Longrightarrow> or_loop (Suc n) l p = Some r"
  "parseAnd n p = Some r \<Longrightarrow> parseAnd (Suc n) p = Some r"
  "and_loop n l p = Some r \<Longrightarrow> and_loop (Suc n) l p = Some r"
  "parseUnary n p = Some r \<Longrightarrow> parseUnary (Suc n) p = Some r"
proof (induction n p and n l p and n p and n l p and n p
    arbitrary: r and r and r and r and r
    rule: parseOr_or_loop_parseAnd_and_loop_parseUnary.induct)
  case (2 n p)
  show ?case unfolding parseOr.simps(2) [of "Suc n"]
    by (rule parse_bind_mono [OF 2(3) [unfolded parseOr.simps]]) (simp_all only: 2)
next
  case (4 n l p)
  show ?case
  proof (cases "cur_kind p = tokenOr")
    case True
    then have "parse_bind (parseAnd n (next_token p)) (\<lambda>r. or_loop n (binaryExpr l r True)) = Some r"
      using 4(3) by simp
    then show ?thesis
      unfolding or_loop.simps(2) [of "Suc n"] if_P [OF True]
      by (rule parse_bind_mono) (use 4(1,2) True in blast)+
  qed (use 4(3) in simp)
next
  case (6 n p)
  show ?case unfolding parseAnd.simps(2) [of "Suc n"]
    by (rule parse_bind_mono [OF 6(3) [unfolded parseAnd.simps]]) (simp_all only: 6)
next
  case (8 n l p)
  show ?case
  proof (cases "cur_kind p = tokenAnd")
    case True
    then have "parse_bind (parseUnary n (next_token p)) (\<lambda>r. and_loop n (binaryExpr l r False)) = Some r"
      using 8(3) by simp
    then show ?thesis
      unfolding and_loop.simps(2) [of "Suc n"] if_P [OF True]
      by (rule parse_bind_mono) (use 8(1,2) True in blast)+
  qed (use 8(3) in simp)
next
  case (10 n p)
  show ?case
  proof (cases "cur_kind p")
    case tokenNot
    then have "parse_bind (parseUnary n (next_token p)) (\<lambda>v p'. Some (Inr (notExpr v, p'))) = Some r"
      using 10(3) by simp
    then show ?thesis
      unfolding parseUnary.simps(2) [of "Suc n"] if_P [OF tokenNot]
      by (rule parse_bind_mono) (use 10(1) tokenNot in blast)+
  next
    case tokenLeft
    then have "parse_bind (parseOr n (next_token p)) (\<lambda>v p'.
        if cur_kind p' \<noteq> tokenRight then Some (Inl (parser_error p' MissingParenthesis))
        else Some (Inr (v, next_token p'))) = Some r"
      using 10(3) by simp
    then have "parse_bind (parseOr (Suc n) (next_token p)) (\<lambda>v p'.
        if cur_kind p' \<noteq> tokenRight then Some (Inl (parser_error p' MissingParenthesis))
        else Some (Inr (v, next_token p'))) = Some r"
      by (rule parse_bind_mono) (use 10(2) tokenLeft in simp_all)
    with tokenLeft show ?thesis
      unfolding parseUnary.simps(2) [of "Suc n"] by (simp del: parseOr.simps)
  qed (use 10(3) in auto)
qed simp_all

lemma fuel_mono:
  assumes "\<And>n r. f n = Some r \<Longrightarrow> f (Suc n) = Some r"
  shows "f n = Some r \<Longrightarrow> n \<le> m \<Longrightarrow> f m = Some r"
  by (induction m rule: nat_induct) (auto simp: le_Suc_eq intro: assms)

lemma parseOr_mono: "parseOr n p = Some r \<Longrightarrow> n \<le> m \<Longrightarrow> parseOr m p = Some r"
  by (rule fuel_mono [where f = "\<lambda>n. parseOr n p"]) (erule parse_mono, assumption+)

lemma or_loop_mono: "or_loop n l p = Some r \<Longrightarrow> n \<le> m \<Longrightarrow> or_loop m l p = Some r"
  by (rule fuel_mono [where f = "\<lambda>n. or_loop n l p"]) (erule parse_mono, assumption+)

lemma parseAnd_mono: "parseAnd n p = Some r \<Longrightarrow> n \<le> m \<Longrightarrow> parseAnd m p = Some r"
  by (rule fuel_mono [where f = "\<lambda>n. parseAnd n p"]) (erule parse_mono, assumption+)

lemma and_loop_mono: "and_loop n l p = Some r \<Longrightarrow> n \<le> m \<Longrightarrow> and_loop m l p = Some r"
  by (rule fuel_mono [where f = "\<lambda>n. and_loop n l p"]) (erule parse_mono, assumption+)

lemma parseUnary_mono: "parseUnary n p = Some r \<Longrightarrow> n \<le> m \<Longrightarrow> parseUnary m p = Some r"
  by (rule fuel_mono [where f = "\<lambda>n. parseUnary n p"]) (erule parse_mono, assumption+)

section \<open>The grammar of the expressions\<close>

type_synonym lexeme = "token_kind \<times> string"

text \<open>
  What the parser accepts, stated on the tokens alone: \<^verbatim>\<open>!\<close> binds tightest, \<^verbatim>\<open>&&\<close> tighter than
  \<^verbatim>\<open>||\<close>, both associate to the left.
\<close>

inductive unary_phrase :: "lexeme list \<Rightarrow> expression \<Rightarrow> bool"
  and and_phrase :: "lexeme list \<Rightarrow> expression \<Rightarrow> bool"
  and or_phrase :: "lexeme list \<Rightarrow> expression \<Rightarrow> bool" where
  tag: "unary_phrase [(tokenTag, t)] (tagExpr t)"
| negation: "unary_phrase ts e \<Longrightarrow> unary_phrase ((tokenNot, x) # ts) (notExpr e)"
| group: "or_phrase ts e \<Longrightarrow> unary_phrase ((tokenLeft, x) # ts @ [(tokenRight, y)]) e"
| and_one: "unary_phrase ts e \<Longrightarrow> and_phrase ts e"
| and_more: "and_phrase ts l \<Longrightarrow> unary_phrase us r \<Longrightarrow>
    and_phrase (ts @ (tokenAnd, x) # us) (binaryExpr l r False)"
| or_one: "and_phrase ts e \<Longrightarrow> or_phrase ts e"
| or_more: "or_phrase ts l \<Longrightarrow> and_phrase us r \<Longrightarrow>
    or_phrase (ts @ (tokenOr, x) # us) (binaryExpr l r True)"

lemma parse_sound:
  "parseOr n p = Some (Inr (e, p')) \<Longrightarrow>
     \<exists>ts. tokens_from p = ts @ tokens_from p' \<and> or_phrase ts e"
  "or_loop n l p = Some (Inr (e, p')) \<Longrightarrow> or_phrase ls l \<Longrightarrow>
     \<exists>ts. tokens_from p = ts @ tokens_from p' \<and> or_phrase (ls @ ts) e"
  "parseAnd n p = Some (Inr (e, p')) \<Longrightarrow>
     \<exists>ts. tokens_from p = ts @ tokens_from p' \<and> and_phrase ts e"
  "and_loop n l p = Some (Inr (e, p')) \<Longrightarrow> and_phrase ls l \<Longrightarrow>
     \<exists>ts. tokens_from p = ts @ tokens_from p' \<and> and_phrase (ls @ ts) e"
  "parseUnary n p = Some (Inr (e, p')) \<Longrightarrow>
     \<exists>ts. tokens_from p = ts @ tokens_from p' \<and> unary_phrase ts e"
proof (induction n p and n l p and n p and n l p and n p
    arbitrary: e p' and e p' ls and e p' and e p' ls and e p'
    rule: parseOr_or_loop_parseAnd_and_loop_parseUnary.induct)
  case (2 n p)
  then obtain v q where r: "parseAnd n p = Some (Inr (v, q))" "or_loop n v q = Some (Inr (e, p'))"
    by (auto simp: parse_bind_iff)
  from 2(1) [OF r(1)] obtain ts where ts: "tokens_from p = ts @ tokens_from q" "and_phrase ts v"
    by blast
  from 2(2) [OF r(1) r(2) or_one [OF ts(2)]] ts(1) show ?case by auto
next
  case (4 n l p)
  show ?case
  proof (cases "cur_kind p = tokenOr")
    case True
    with 4(3) obtain v q where r: "parseAnd n (next_token p) = Some (Inr (v, q))"
      "or_loop n (binaryExpr l v True) q = Some (Inr (e, p'))"
      by (auto simp: parse_bind_iff)
    from 4(1) [OF True r(1)] obtain us
      where us: "tokens_from (next_token p) = us @ tokens_from q" "and_phrase us v" by blast
    obtain ts where "tokens_from q = ts @ tokens_from p'"
      and "or_phrase ((ls @ (tokenOr, tok_text (p_token p)) # us) @ ts) e"
      using 4(2) [OF True r(1) r(2) or_more [OF 4(4) us(2)]] by blast
    with us(1) True show ?thesis
      by (intro exI [of _ "(tokenOr, tok_text (p_token p)) # us @ ts"]) (simp add: tokens_live)
  qed (use 4(3,4) in auto)
next
  case (6 n p)
  then obtain v q where r: "parseUnary n p = Some (Inr (v, q))" "and_loop n v q = Some (Inr (e, p'))"
    by (auto simp: parse_bind_iff)
  from 6(1) [OF r(1)] obtain ts where ts: "tokens_from p = ts @ tokens_from q" "unary_phrase ts v"
    by blast
  from 6(2) [OF r(1) r(2) and_one [OF ts(2)]] ts(1) show ?case by auto
next
  case (8 n l p)
  show ?case
  proof (cases "cur_kind p = tokenAnd")
    case True
    with 8(3) obtain v q where r: "parseUnary n (next_token p) = Some (Inr (v, q))"
      "and_loop n (binaryExpr l v False) q = Some (Inr (e, p'))"
      by (auto simp: parse_bind_iff)
    from 8(1) [OF True r(1)] obtain us
      where us: "tokens_from (next_token p) = us @ tokens_from q" "unary_phrase us v" by blast
    obtain ts where "tokens_from q = ts @ tokens_from p'"
      and "and_phrase ((ls @ (tokenAnd, tok_text (p_token p)) # us) @ ts) e"
      using 8(2) [OF True r(1) r(2) and_more [OF 8(4) us(2)]] by blast
    with us(1) True show ?thesis
      by (intro exI [of _ "(tokenAnd, tok_text (p_token p)) # us @ ts"]) (simp add: tokens_live)
  qed (use 8(3,4) in auto)
next
  case (10 n p)
  show ?case
  proof (cases "cur_kind p")
    case tokenNot
    with 10(3) obtain v where r: "parseUnary n (next_token p) = Some (Inr (v, p'))" "e = notExpr v"
      by (auto simp: parse_bind_iff)
    from 10(1) [OF tokenNot r(1)] r(2) tokenNot show ?thesis
      by (subst tokens_live) (auto intro: negation)
  next
    case tokenTag
    with 10(3) show ?thesis
      by (subst tokens_live) (auto intro: tag)
  next
    case tokenLeft
    with 10(3) obtain q where r: "parseOr n (next_token p) = Some (Inr (e, q))"
      and q: "cur_kind q = tokenRight" "p' = next_token q"
      by (auto simp: parse_bind_iff split: if_splits)
    from 10(2) [OF _ _ tokenLeft r] tokenLeft obtain ts
      where ts: "tokens_from (next_token p) = ts @ tokens_from q" "or_phrase ts e" by auto
    have "tokens_from q = (tokenRight, tok_text (p_token q)) # tokens_from p'"
      using q by (subst tokens_live) auto
    with ts tokenLeft show ?thesis
      by (subst tokens_live) (auto intro: exI [of _ "(_ # ts @ [_])"] group)
  qed (use 10(3) in auto)
qed simp_all

definition starts_and :: "lexeme list \<Rightarrow> bool" where
  "starts_and ts = (ts \<noteq> [] \<and> fst (hd ts) = tokenAnd)"

lemma starts_and_tokens: "\<not> starts_and (tokens_from p) \<Longrightarrow> cur_kind p \<noteq> tokenAnd"
  by (subst (asm) tokens_from.simps) (auto simp: starts_and_def split: if_splits)

lemma parseAnd_run:
  assumes "parseUnary n p = Some (Inr (v, q))" and "and_loop k v q = Some r"
  shows "parseAnd (Suc (max n k)) p = Some r"
  using parseUnary_mono [OF assms(1), of "max n k"] and_loop_mono [OF assms(2), of "max n k"]
  by (simp add: parse_bind_def)

lemma parseOr_run:
  assumes "parseAnd n p = Some (Inr (v, q))" and "or_loop k v q = Some r"
  shows "parseOr (Suc (max n k)) p = Some r"
  using parseAnd_mono [OF assms(1), of "max n k"] or_loop_mono [OF assms(2), of "max n k"]
  by (simp add: parse_bind_def)

lemma and_loop_run:
  assumes "cur_kind p = tokenAnd" and "parseUnary n (next_token p) = Some (Inr (v, q))"
    and "and_loop k (binaryExpr l v False) q = Some r"
  shows "and_loop (Suc (max n k)) l p = Some r"
  using parseUnary_mono [OF assms(2), of "max n k"] and_loop_mono [OF assms(3), of "max n k"] assms(1)
  by (simp add: parse_bind_def)

lemma or_loop_run:
  assumes "cur_kind p = tokenOr" and "parseAnd n (next_token p) = Some (Inr (v, q))"
    and "or_loop k (binaryExpr l v True) q = Some r"
  shows "or_loop (Suc (max n k)) l p = Some r"
  using parseAnd_mono [OF assms(2), of "max n k"] or_loop_mono [OF assms(3), of "max n k"] assms(1)
  by (simp add: parse_bind_def)

lemma and_loop_stop: "cur_kind p \<noteq> tokenAnd \<Longrightarrow> and_loop (Suc 0) e p = Some (Inr (e, p))"
  and or_loop_stop: "cur_kind p \<noteq> tokenOr \<Longrightarrow> or_loop (Suc 0) e p = Some (Inr (e, p))"
  by simp_all

lemma phrase_complete:
  "unary_phrase ts e \<Longrightarrow> tokens_from p = ts @ rest \<Longrightarrow>
     \<exists>n q. parseUnary n p = Some (Inr (e, q)) \<and> tokens_from q = rest"
  "and_phrase ts e \<Longrightarrow> tokens_from p = ts @ rest \<Longrightarrow>
     \<exists>q. tokens_from q = rest \<and> (\<forall>k r. and_loop k e q = Some r \<longrightarrow> (\<exists>m. parseAnd m p = Some r))"
  "or_phrase ts e \<Longrightarrow> tokens_from p = ts @ rest \<Longrightarrow> \<not> starts_and rest \<Longrightarrow>
     \<exists>q. tokens_from q = rest \<and> (\<forall>k r. or_loop k e q = Some r \<longrightarrow> (\<exists>m. parseOr m p = Some r))"
proof (induction ts e and ts e and ts e arbitrary: p rest and p rest and p rest
    rule: unary_phrase_and_phrase_or_phrase.inducts)
  case (tag t)
  then have "parseUnary (Suc 0) p = Some (Inr (tagExpr t, next_token p))"
    and "tokens_from (next_token p) = rest"
    by (auto simp: tokens_Cons)
  then show ?case by blast
next
  case (negation ts e x)
  then have p: "cur_kind p = tokenNot" "tokens_from (next_token p) = ts @ rest"
    by (auto simp: tokens_Cons)
  from negation.IH [OF p(2)] obtain n q
    where "parseUnary n (next_token p) = Some (Inr (e, q))" "tokens_from q = rest" by blast
  with p(1) have "parseUnary (Suc n) p = Some (Inr (notExpr e, q))"
    by (simp add: parse_bind_def)
  with \<open>tokens_from q = rest\<close> show ?case by blast
next
  case (group ts e x y)
  have p: "cur_kind p = tokenLeft" "tokens_from (next_token p) = ts @ (tokenRight, y) # rest"
    using group.prems by (auto simp: tokens_Cons)
  from group.IH [OF p(2)] obtain q where q: "tokens_from q = (tokenRight, y) # rest"
    and run: "\<And>k r. or_loop k e q = Some r \<Longrightarrow> \<exists>m. parseOr m (next_token p) = Some r"
    by (auto simp: starts_and_def)
  from q have "cur_kind q = tokenRight" "tokens_from (next_token q) = rest"
    by (auto simp: tokens_Cons)
  moreover from run [OF or_loop_stop] \<open>cur_kind q = tokenRight\<close>
  obtain m where "parseOr m (next_token p) = Some (Inr (e, q))" by auto
  ultimately have "parseUnary (Suc m) p = Some (Inr (e, next_token q))"
    using p(1) by (simp add: parse_bind_def)
  with \<open>tokens_from (next_token q) = rest\<close> show ?case by blast
next
  case (and_one ts e)
  from and_one.IH [OF and_one.prems] parseAnd_run show ?case by blast
next
  case (and_more ts l us r x)
  from and_more.prems have "tokens_from p = ts @ (tokenAnd, x) # us @ rest" by simp
  from and_more.IH(1) [OF this] obtain q where q: "tokens_from q = (tokenAnd, x) # us @ rest"
    and run: "\<And>k r. and_loop k l q = Some r \<Longrightarrow> \<exists>m. parseAnd m p = Some r" by auto
  from q have q': "cur_kind q = tokenAnd" "tokens_from (next_token q) = us @ rest"
    by (auto simp: tokens_Cons)
  from and_more.IH(2) [OF q'(2)] obtain n q2
    where "parseUnary n (next_token q) = Some (Inr (r, q2))" "tokens_from q2 = rest" by auto
  with run and_loop_run [OF q'(1)] show ?case by blast
next
  case (or_one ts e)
  from or_one.IH [OF or_one.prems(1)] obtain q where q: "tokens_from q = rest"
    and run: "\<And>k r. and_loop k e q = Some r \<Longrightarrow> \<exists>m. parseAnd m p = Some r" by auto
  from q or_one.prems(2) have "cur_kind q \<noteq> tokenAnd" by (auto dest: starts_and_tokens)
  from run [OF and_loop_stop [OF this]] obtain m where "parseAnd m p = Some (Inr (e, q))" ..
  with q parseOr_run show ?case by blast
next
  case (or_more ts l us r x)
  from or_more.prems have "tokens_from p = ts @ (tokenOr, x) # us @ rest" by simp
  from or_more.IH(1) [OF this] obtain q where q: "tokens_from q = (tokenOr, x) # us @ rest"
    and run: "\<And>k r. or_loop k l q = Some r \<Longrightarrow> \<exists>m. parseOr m p = Some r"
    by (auto simp: starts_and_def)
  from q have q': "cur_kind q = tokenOr" "tokens_from (next_token q) = us @ rest"
    by (auto simp: tokens_Cons)
  from or_more.IH(2) [OF q'(2)] obtain q2 where q2: "tokens_from q2 = rest"
    and run2: "\<And>k s. and_loop k r q2 = Some s \<Longrightarrow> \<exists>m. parseAnd m (next_token q) = Some s" by auto
  from q2 or_more.prems(2) have "cur_kind q2 \<noteq> tokenAnd" by (auto dest: starts_and_tokens)
  from run2 [OF and_loop_stop [OF this]] obtain m
    where "parseAnd m (next_token q) = Some (Inr (r, q2))" ..
  with q2 run or_loop_run [OF q'(1)] show ?case by blast
qed

lemma parse_fuel_enough: "parseOr (parse_fuel p) p \<noteq> None"
  using left_over_bound [of p] by (intro constraint_parse_total(1)) (simp add: parse_fuel_def)

lemma parse_constraint_total: "parse_constraint s b \<noteq> None"
  using parse_fuel_enough [of "newParser s b"]
  by (auto simp: parse_constraint_def Let_def split: option.split sum.split)

lemma parse_constraint_iff:
  "parse_constraint s b = Some (Inr e) \<longleftrightarrow> or_phrase (tokens_from (newParser s b)) e"
proof
  assume "parse_constraint s b = Some (Inr e)"
  then obtain p where "parseOr (parse_fuel (newParser s b)) (newParser s b) = Some (Inr (e, p))"
    and "cur_kind p = tokenEOF"
    by (auto simp: parse_constraint_def Let_def split: option.splits sum.splits if_splits)
  with parse_sound(1) [OF this(1)] show "or_phrase (tokens_from (newParser s b)) e"
    by (metis append_Nil2 tokens_Nil)
next
  let ?p = "newParser s b"
  assume "or_phrase (tokens_from ?p) e"
  from phrase_complete(3) [OF this, of ?p "[]"] obtain q where "cur_kind q = tokenEOF"
    and run: "\<And>k r. or_loop k e q = Some r \<Longrightarrow> \<exists>m. parseOr m ?p = Some r"
    by (auto simp: starts_and_def)
  from run [OF or_loop_stop] \<open>cur_kind q = tokenEOF\<close> obtain m where m: "parseOr m ?p = Some (Inr (e, q))"
    by auto
  obtain r where r: "parseOr (parse_fuel ?p) ?p = Some r" using parse_fuel_enough by blast
  have "r = Inr (e, q)"
    using parseOr_mono [OF m max.cobounded1] parseOr_mono [OF r max.cobounded2, of m] by simp
  with r \<open>cur_kind q = tokenEOF\<close> show "parse_constraint s b = Some (Inr e)"
    by (simp add: parse_constraint_def Let_def)
qed

lemma next_token_base: "next_token (p\<lparr>p_base := b\<rparr>) = (next_token p)\<lparr>p_base := b\<rparr>"
  by (simp add: next_token_def Let_def)

lemma tokens_from_base: "tokens_from (p\<lparr>p_base := b\<rparr>) = tokens_from p"
proof (induction p rule: tokens_from.induct)
  case (1 p)
  show ?case
    by (subst (1 2) tokens_from.simps) (simp add: 1 next_token_base)
qed

lemma newParser_base: "tokens_from (newParser s b) = tokens_from (newParser s c)"
  using tokens_from_base [of b "newParser s c"]
  by (simp add: newParser_def next_token_base [symmetric])

section \<open>A directive on the first line\<close>

lemma space_first: "starts_with_space space_encodings (CHR '' '' # s) = 1"
  by (simp add: starts_with_space_def space_encodings_def)

lemma TrimSpace_space: "TrimSpace (CHR '' '' # s) = TrimSpace s"
proof -
  have "strip_spaces space_encodings (CHR '' '' # s) = strip_spaces space_encodings s"
    by (subst strip_spaces.simps) (simp add: space_first del: strip_spaces.simps)
  then show ?thesis by (simp add: TrimSpace_def)
qed

lemma skip_bytes_stay: "s \<noteq> [] \<Longrightarrow> \<not> P (hd s) \<Longrightarrow> skip_bytes P s 0 = 0"
  by (cases s) (simp_all add: skip_bytes_def)

lemma directive_line:
  assumes "text \<noteq> []" and "TrimSpace text = text"
  shows "\<exists>b. scan_line (directive @ '' '' @ text) offset 0 no_expression False =
             LineBreak \<lparr>se_text = text, se_offset = b\<rparr> False"
proof -
  let ?line = "directive @ '' '' @ text"
  have "skip_bytes line_blank ?line 0 = 0"
    by (rule skip_bytes_stay) (simp_all add: directive_def line_blank_def)
  moreover have "\<not> HasPrefix ?line ''/*''" and "HasPrefix ?line ''//''"
    and "HasPrefix ?line (directive @ '' '')" and "length directive = 10"
    by (simp_all add: HasPrefix_def directive_def)
  moreover have "drop 10 ?line = '' '' @ text" by (simp add: directive_def)
  ultimately show ?thesis
    using assms
    by (simp add: take_directive_def is_directive_def TrimSpace_space no_expression_def
        directive_def [symmetric])
qed

definition code_start :: "char \<Rightarrow> bool" where
  "code_start c = (\<not> line_blank c \<and> c \<noteq> CHR 0x0A \<and> c \<noteq> CHR ''/'')"

lemma code_line:
  assumes "code_start c"
  shows "scan_line (c # s) offset 0 found False = LineReturn found"
proof -
  have "skip_bytes line_blank (c # s) 0 = 0"
    using assms by (intro skip_bytes_stay) (simp_all add: code_start_def)
  moreover have "\<not> HasPrefix (c # s) ''/*''" "\<not> HasPrefix (c # s) ''//''"
    using assms by (auto simp: HasPrefix_def code_start_def)
  ultimately show ?thesis by simp
qed

lemma IndexByte_Cons: "c \<noteq> d \<Longrightarrow> IndexByte (c # s) d = map_option Suc (IndexByte s d)"
  by (simp add: IndexByte_def)

lemma scan_code:
  assumes "code_start c" and "drop offset source = c # s" and "offset < length source"
  shows "scan_source source offset found False = Inr found"
proof -
  have "c \<noteq> CHR 0x0A" using assms(1) by (simp add: code_start_def)
  then obtain n where "(case IndexByte (c # s) (CHR 0x0A) of
      None \<Rightarrow> length source - offset | Some i \<Rightarrow> i) = Suc n"
    using assms(3) by (cases "IndexByte s (CHR 0x0A)")
      (auto simp: IndexByte_Cons Suc_diff_Suc [symmetric])
  with assms show ?thesis
    by (subst scan_source.simps) (simp add: code_line del: scan_line.simps)
qed

lemma directive_scan:
  assumes "text \<noteq> []" and "TrimSpace text = text" and "CHR 0x0A \<notin> set text" and "code_start c"
  shows "\<exists>b. sourceConstraint (directive @ '' '' @ text @ [CHR 0x0A] @ c # rest) =
             Inr (\<lparr>se_text = text, se_offset = b\<rparr>, True)"
proof -
  let ?line = "directive @ '' '' @ text" and ?tail = "c # rest"
  let ?source = "?line @ CHR 0x0A # ?tail"
  have "CHR 0x0A \<notin> set ?line" using assms(3) by (simp add: directive_def)
  then have "IndexByte ?source (CHR 0x0A) = Some (length ?line)" by (rule IndexByte_split)
  moreover obtain b where "scan_line ?line 0 0 no_expression False =
      LineBreak \<lparr>se_text = text, se_offset = b\<rparr> False"
    using directive_line [OF assms(1,2)] by blast
  ultimately have "scan_source ?source 0 no_expression False =
      scan_source ?source (length ?line + 1) \<lparr>se_text = text, se_offset = b\<rparr> False"
    by (subst scan_source.simps) (simp add: nth_append del: scan_line.simps scan_source.simps)
  also have "\<dots> = Inr \<lparr>se_text = text, se_offset = b\<rparr>"
    by (rule scan_code [OF assms(4)]) simp_all
  finally show ?thesis using assms(1) by (auto simp: sourceConstraint_def)
qed

text \<open>A source in which the directive never occurs keeps the empty expression.\<close>

lemma Index_None:
  "p \<noteq> [] \<Longrightarrow> Index s p = None \<longleftrightarrow> (\<forall>i. \<not> HasPrefix (drop i s) p)"
proof (induction s)
  case (Cons c s)
  have "(\<forall>i. \<not> HasPrefix (drop i (c # s)) p) \<longleftrightarrow>
      \<not> HasPrefix (c # s) p \<and> (\<forall>i. \<not> HasPrefix (drop i s) p)"
    by (metis drop0 drop_Suc_Cons not0_implies_Suc)
  then show ?case using Cons by simp
qed (simp add: HasPrefix_def)

lemma HasPrefix_take: "HasPrefix (take n s) p \<Longrightarrow> HasPrefix s p"
  by (auto simp: HasPrefix_def min_def split: if_splits)

lemma HasPrefix_append: "HasPrefix s (p @ q) \<Longrightarrow> HasPrefix s p"
  by (metis HasPrefix_def append_eq_conv_conj append_take_drop_id append.assoc)

lemma scan_line_plain:
  assumes "\<And>i. \<not> HasPrefix (drop i line) directive"
  shows "\<exists>b'. scan_line line offset k found b \<in> {LineReturn found, LineBreak found b'}"
  using assms
proof (induction line offset k found b rule: scan_line.induct)
  case (1 line offset k found b)
  let ?cursor = "skip_bytes line_blank line k"
  have "HasPrefix directive directive" by (simp add: HasPrefix_def)
  then have "\<not> is_directive (drop ?cursor line)"
    using 1(3) [of ?cursor] HasPrefix_append unfolding is_directive_def by metis
  then have "take_directive line offset ?cursor found (drop ?cursor line) = LineBreak found False"
    by (simp add: take_directive_def)
  with 1 show ?case
    by (subst scan_line.simps) (auto simp del: scan_line.simps simp: Let_def split: option.split)
qed

lemma scan_source_plain:
  assumes "\<And>i. \<not> HasPrefix (drop i source) directive"
  shows "scan_source source offset found b = Inr found"
  using assms
proof (induction source offset found b rule: scan_source.induct)
  case (1 source offset found b)
  define stop where "stop = (case IndexByte (drop offset source) (CHR 0x0A) of
      None \<Rightarrow> length source - offset | Some i \<Rightarrow> i)"
  have "\<not> HasPrefix (drop i (take stop (drop offset source))) directive" for i
    using 1(2) [of "i + offset"] HasPrefix_take [of "stop - i"] by (auto simp: drop_take)
  then obtain b' where "scan_line (take stop (drop offset source)) offset 0 found b
      \<in> {LineReturn found, LineBreak found b'}" using scan_line_plain by blast
  with 1 show ?case
    by (subst scan_source.simps)
      (auto simp del: scan_source.simps scan_line.simps simp: Let_def stop_def [symmetric])
qed

lemma match_source_plain:
  assumes "Normalize t = Inr n" and "Index source directive = None"
  shows "MatchSource source t = Some (Inr True)"
  using assms Index_None [of directive source] scan_source_plain [of source 0 no_expression False]
  by (simp add: MatchSource_def sourceConstraint_def no_expression_def directive_def)

lemma match_source_code:
  assumes "Normalize t = Inr n" and "code_start c"
  shows "MatchSource (c # rest) t = Some (Inr True)"
  using assms scan_code [OF assms(2), of 0 "c # rest" rest no_expression]
  by (simp add: MatchSource_def sourceConstraint_def no_expression_def)

section \<open>Properties\<close>

text \<open>
  C37. \<^verbatim>\<open>Normalize\<close> puts a target into canonical form: the tags are the trimmed tags and the
  language tag, each valid, sorted and without duplicates; the result is a fixed point that
  \<^verbatim>\<open>Validate\<close> accepts; and a target is \<^verbatim>\<open>Equal\<close> to the given one exactly when it is valid
  and has the same set of tags.
\<close>

theorem target_normal_form:
  assumes "Normalize t = Inr n"
  shows "sorted (Tags n) \<and> distinct (Tags n) \<and> list_all validTag (Tags n) \<and>
    set (Tags n) = insert LanguageTag (TrimSpace ` set (Tags t)) \<and>
    Normalize n = Inr n \<and> ValidateTarget n = None \<and>
    (EqualTarget t u \<longleftrightarrow> valid_target u \<and> tag_set u = tag_set t)"
proof -
  from assms have valid: "valid_target t" and n: "n = \<lparr>Tags = sorted_list_of_set (tag_set t)\<rparr>"
    by (simp_all add: Normalize_iff)
  have fixed: "Normalize n = Inr n"
    using valid valid_target_normal tag_set_normal by (simp add: Normalize_iff n)
  have "list_all validTag (Tags n)"
    using tag_set_valid [OF valid] by (simp add: n list_all_iff)
  moreover have "set (Tags n) = insert LanguageTag (TrimSpace ` set (Tags t))"
    by (simp add: n) (simp add: tag_set_def)
  moreover have "sorted (Tags n)" and "distinct (Tags n)"
    by (simp_all add: n)
  ultimately show ?thesis
    using fixed valid by (auto simp: ValidateTarget_def EqualTarget_iff)
qed

text \<open>
  C15. The parser of the build expressions terminates on every text and accepts exactly the
  phrases of the grammar, with the tree the grammar gives them.
\<close>

theorem constraint_grammar:
  "parse_constraint s b \<noteq> None \<and>
   (parse_constraint s b = Some (Inr e) \<longleftrightarrow> or_phrase (tokens_from (newParser s b)) e)"
  using parse_constraint_total parse_constraint_iff by auto


lemma sample_phrase:
  "or_phrase (tokens_from (newParser ''!release && net.test'' 0))
     (binaryExpr (notExpr (tagExpr ''release'')) (tagExpr ''net.test'') False)"
proof -
  have "parse_constraint ''!release && net.test'' 0 =
      Some (Inr (binaryExpr (notExpr (tagExpr ''release'')) (tagExpr ''net.test'') False))"
    by code_simp
  then show ?thesis by (simp add: parse_constraint_iff)
qed

lemma target_normal_form_witness:
  "sorted (Tags \<lparr>Tags = [''debug'', ''minigo'']\<rparr>) \<and>
   EqualTarget \<lparr>Tags = [''debug '', ''debug'']\<rparr> \<lparr>Tags = [''minigo'', ''debug'']\<rparr>"
proof -
  have n: "Normalize \<lparr>Tags = [''debug '', ''debug'']\<rparr> = Inr \<lparr>Tags = [''debug'', ''minigo'']\<rparr>"
    by code_simp
  have "TrimSpace ''debug '' = ''debug''" "TrimSpace ''debug'' = ''debug''"
    "TrimSpace ''minigo'' = ''minigo''" "validTag ''minigo''" "validTag ''debug''" by code_simp+
  with target_normal_form [OF n, of "\<lparr>Tags = [''minigo'', ''debug'']\<rparr>"] show ?thesis
    by (auto simp: valid_target_def tag_set_def LanguageTag_def)
qed


text \<open>
  The offset of a directive is found by searching its line for the text of the expression,
  so a text that occurs earlier in the line is located there: the error for the expression
  \<^verbatim>\<open>:\<close> points into \<^verbatim>\<open>//go:build\<close>, at byte 4 instead of byte 11.
\<close>

lemma directive_offset_misplaced:
  "MatchSource (''//go:build :'' @ [CHR 0x0A] @ ''package p'') \<lparr>Tags = []\<rparr> =
     Some (Inl (ConstraintError 4 ExpectedOperand))"
  by code_simp

end
