(* ===== verification/Types.thy ===== *)
theory Types
  imports Prelude
begin

text \<open>
  The type algebra: \<^verbatim>\<open>src/compiler/types/model.go\<close>, the indexed table of nodes of \<^verbatim>\<open>table.go\<close>,
  its validation in \<^verbatim>\<open>validate.go\<close> and \<^verbatim>\<open>Underlying\<close> of \<^verbatim>\<open>query.go\<close>.

  A table is a state: the nodes, the two maps \<^verbatim>\<open>index\<close> builds, the flag that the maps belong
  to this table (\<^verbatim>\<open>indexOwner == t\<close>) and the cache of \<^verbatim>\<open>Underlying\<close>.  A method that may index
  or fill the cache returns the table.  The receivers are not nil; the cache of formatted
  texts and its lock are left out.
\<close>

section \<open>References and nodes\<close>

datatype Kind =
    KInvalid | KVoid | KAny | KPrimitive | KNamed | KSlice | KArray | KMap | KPointer | KWaitable
  | KFunction | KTuple | KStruct | KInterface | KTypeParameter | KInstance | KUnknown nat

datatype PrimitiveKind =
    PrimitiveInvalid | PrimitiveBool | PrimitiveString | PrimitiveInt | PrimitiveInt8
  | PrimitiveInt16 | PrimitiveInt32 | PrimitiveInt64 | PrimitiveUint | PrimitiveUint8
  | PrimitiveUint16 | PrimitiveUint32 | PrimitiveUint64 | PrimitiveUintptr | PrimitiveFloat32
  | PrimitiveFloat64 | PrimitiveComplex64 | PrimitiveComplex128 | PrimitiveError
  | PrimitiveFunction | PrimitiveWaitToken | PrimitiveWaitSet | PrimitiveUnknown nat

datatype ChannelDir = ChannelInvalid | ChannelBoth | ChannelReceive | ChannelSend | ChannelUnknown nat

datatype TypeKey = TypeKey (key_module: string) (key_decl: string)

record TypeRef =
  ref_kind :: Kind
  ref_primitive :: PrimitiveKind
  ref_named :: TypeKey
  ref_node :: string

definition emptyTypeKey :: "TypeKey \<Rightarrow> bool" where
  "emptyTypeKey key = (key_module key = [] \<and> key_decl key = [])"

definition Valid :: "TypeRef \<Rightarrow> bool" where
  "Valid r =
     (case ref_kind r of
        KVoid \<Rightarrow> ref_primitive r = PrimitiveInvalid \<and> emptyTypeKey (ref_named r) \<and> ref_node r = []
      | KAny \<Rightarrow> ref_primitive r = PrimitiveInvalid \<and> emptyTypeKey (ref_named r) \<and> ref_node r = []
      | KPrimitive \<Rightarrow> ref_primitive r \<noteq> PrimitiveInvalid \<and> emptyTypeKey (ref_named r) \<and> ref_node r = []
      | KNamed \<Rightarrow> key_module (ref_named r) \<noteq> [] \<and> key_decl (ref_named r) \<noteq> [] \<or> ref_node r \<noteq> []
      | _ \<Rightarrow> ref_node r \<noteq> [] \<and> ref_primitive r = PrimitiveInvalid \<and> emptyTypeKey (ref_named r))"

definition zero_ref :: TypeRef where
  "zero_ref = \<lparr>ref_kind = KInvalid, ref_primitive = PrimitiveInvalid,
               ref_named = TypeKey [] [], ref_node = []\<rparr>"

definition Builtin :: "PrimitiveKind \<Rightarrow> TypeRef" where
  "Builtin kind =
     (if kind = PrimitiveInvalid then zero_ref
      else zero_ref\<lparr>ref_kind := KPrimitive, ref_primitive := kind\<rparr>)"

definition VoidType :: TypeRef where
  "VoidType = zero_ref\<lparr>ref_kind := KVoid\<rparr>"

definition AnyType :: TypeRef where
  "AnyType = zero_ref\<lparr>ref_kind := KAny\<rparr>"

text \<open>A \<^verbatim>\<open>TypeParam\<close> is the reference it wraps.\<close>

record FunctionSignature =
  sig_params :: "TypeRef list"
  sig_results :: "TypeRef list"
  sig_variadic :: bool

record struct_field =
  sf_name :: string
  sf_type :: TypeRef
  sf_tag :: string
  sf_embedded :: bool

record type_method =
  tm_name :: string
  tm_receiver :: TypeRef
  tm_signature :: FunctionSignature
  tm_function_id :: string
  tm_module_path :: string

record TypeTerm =
  term_type :: TypeRef
  term_approx :: bool
  term_union :: bool

record TypeNode =
  node_id :: string
  node_kind :: Kind
  node_name :: string
  node_primitive :: PrimitiveKind
  node_identity :: TypeKey
  node_alias :: bool
  node_alias_target :: TypeRef
  node_underlying :: TypeRef
  node_elem :: TypeRef
  node_key :: TypeRef
  node_length :: int
  node_direction :: ChannelDir
  node_signature :: "FunctionSignature option"
  node_tuple :: "TypeRef list"
  node_fields :: "struct_field list"
  node_methods :: "type_method list"
  node_terms :: "TypeTerm list"
  node_type_set :: bool
  node_constraint :: TypeRef
  node_base :: TypeRef
  node_type_args :: "TypeRef list"

definition UnknownArrayLength :: int where
  "UnknownArrayLength = -1"

section \<open>The table and its index\<close>

record TypeTable =
  Nodes :: "TypeNode list"
  byID :: "string \<rightharpoonup> nat"
  byName :: "TypeKey \<rightharpoonup> string"
  owned :: bool
  underlying_cache :: "TypeRef \<rightharpoonup> TypeRef"

datatype type_error =
    NodeHasNoID nat
  | MissingNodeID
  | DuplicateNode string
  | DuplicateIdentity TypeKey
  | UnknownNode string
  | IdentityChanged string
  | InvalidNodeShape string
  | InvalidReference string TypeRef
  | UnknownChild string string
  | AliasCycle string
  | VariadicWithoutParams string
  | VariadicNotSlice string

fun index_nodes ::
  "nat \<Rightarrow> TypeNode list \<Rightarrow> (string \<rightharpoonup> nat) \<Rightarrow> (TypeKey \<rightharpoonup> string) \<Rightarrow>
   type_error option \<times> (string \<rightharpoonup> nat) \<times> (TypeKey \<rightharpoonup> string)" where
  "index_nodes i [] ids names = (None, ids, names)"
| "index_nodes i (node # ns) ids names =
     (if node_id node = [] then (Some (NodeHasNoID i), ids, names)
      else if ids (node_id node) \<noteq> None then (Some (DuplicateNode (node_id node)), ids, names)
      else
        (let ids' = ids(node_id node \<mapsto> i) in
         if emptyTypeKey (node_identity node) then index_nodes (i + 1) ns ids' names
         else if names (node_identity node) \<noteq> None
              then (Some (DuplicateIdentity (node_identity node)), ids', names)
         else index_nodes (i + 1) ns ids' (names(node_identity node \<mapsto> node_id node))))"

definition index :: "TypeTable \<Rightarrow> type_error option \<times> TypeTable" where
  "index t =
     (case index_nodes 0 (Nodes t) Map.empty Map.empty of
        (err, ids, names) \<Rightarrow>
          (err, t\<lparr>byID := ids, byName := names, underlying_cache := Map.empty,
                  owned := (if err = None then True else owned t)\<rparr>))"

text \<open>
  A method that needs the maps indexes first unless the table owns them: a table whose maps
  are nil is never its own owner.
\<close>

definition ensure_index :: "TypeTable \<Rightarrow> type_error option \<times> TypeTable" where
  "ensure_index t = (if owned t then (None, t) else index t)"

definition Node :: "TypeRef \<Rightarrow> TypeTable \<Rightarrow> TypeNode option \<times> TypeTable" where
  "Node ref t =
     (if ref_node ref = [] then (None, t)
      else case ensure_index t of
             (Some e, t') \<Rightarrow> (None, t')
           | (None, t') \<Rightarrow>
               (case byID t' (ref_node ref) of
                  None \<Rightarrow> (None, t')
                | Some i \<Rightarrow> (Some (Nodes t' ! i), t')))"

definition Named :: "TypeKey \<Rightarrow> TypeTable \<Rightarrow> TypeNode option \<times> TypeTable" where
  "Named key t =
     (case ensure_index t of
        (Some e, t') \<Rightarrow> (None, t')
      | (None, t') \<Rightarrow>
          (case byName t' key of
             None \<Rightarrow> (None, t')
           | Some i \<Rightarrow> Node (zero_ref\<lparr>ref_kind := KNamed, ref_node := i\<rparr>) t'))"

definition nodeForRef :: "TypeRef \<Rightarrow> TypeTable \<Rightarrow> TypeNode option \<times> TypeTable" where
  "nodeForRef ref t =
     (if ref_kind ref = KNamed \<and> ref_node ref = [] then Named (ref_named ref) t else Node ref t)"

definition AddNode :: "TypeNode \<Rightarrow> TypeTable \<Rightarrow> type_error option \<times> TypeTable" where
  "AddNode node t =
     (if node_id node = [] then (Some MissingNodeID, t)
      else case ensure_index t of
             (Some e, t') \<Rightarrow> (Some e, t')
           | (None, t') \<Rightarrow>
               if byID t' (node_id node) \<noteq> None then (Some (DuplicateNode (node_id node)), t')
               else if \<not> emptyTypeKey (node_identity node) \<and> byName t' (node_identity node) \<noteq> None
               then (Some (DuplicateIdentity (node_identity node)), t')
               else
                 (None, t'\<lparr>Nodes := Nodes t' @ [node],
                           byID := (byID t')(node_id node \<mapsto> length (Nodes t')),
                           byName := (if emptyTypeKey (node_identity node) then byName t'
                                      else (byName t')(node_identity node \<mapsto> node_id node)),
                           underlying_cache := Map.empty\<rparr>))"

definition ReplaceNode :: "TypeNode \<Rightarrow> TypeTable \<Rightarrow> type_error option \<times> TypeTable" where
  "ReplaceNode node t =
     (if node_id node = [] then (Some MissingNodeID, t)
      else case ensure_index t of
             (Some e, t') \<Rightarrow> (Some e, t')
           | (None, t') \<Rightarrow>
               (case byID t' (node_id node) of
                  None \<Rightarrow> (Some (UnknownNode (node_id node)), t')
                | Some i \<Rightarrow>
                    if node_identity (Nodes t' ! i) \<noteq> node_identity node
                    then (Some (IdentityChanged (node_id node)), t')
                    else (None, t'\<lparr>Nodes := (Nodes t')[i := node], underlying_cache := Map.empty\<rparr>)))"

definition NodeRef :: "TypeNode \<Rightarrow> TypeRef" where
  "NodeRef node = \<lparr>ref_kind = node_kind node, ref_primitive = PrimitiveInvalid,
                   ref_named = node_identity node, ref_node = node_id node\<rparr>"

definition DeclaredNamed :: "string \<Rightarrow> TypeTable \<Rightarrow> TypeNode list" where
  "DeclaredNamed modulePath t =
     (let m = TrimSpace modulePath in
      sort_key (\<lambda>node. key_decl (node_identity node))
        (filter (\<lambda>node. node_kind node = KNamed \<and> key_module (node_identity node) = m \<and>
                        key_decl (node_identity node) \<noteq> []) (Nodes t)))"

definition DefinedNamed :: "string \<Rightarrow> TypeTable \<Rightarrow> TypeNode list" where
  "DefinedNamed modulePath t = filter (\<lambda>node. \<not> node_alias node) (DeclaredNamed modulePath t)"

section \<open>The underlying type\<close>

text \<open>
  The loop \<^verbatim>\<open>for steps := 0; ref.Kind == Named && steps <= len(t.Nodes); steps++\<close>: the
  argument is the number of iterations left, \<open>len + 1\<close> at the start.
\<close>

fun underlying_walk :: "nat \<Rightarrow> TypeRef \<Rightarrow> TypeTable \<Rightarrow> TypeRef \<times> TypeTable" where
  "underlying_walk 0 ref t = (ref, t)"
| "underlying_walk (Suc n) ref t =
     (if ref_kind ref \<noteq> KNamed then (ref, t)
      else case nodeForRef ref t of
             (None, t') \<Rightarrow> (ref, t')
           | (Some node, t') \<Rightarrow>
               if node_alias node then
                 (if \<not> Valid (node_alias_target node) then (ref, t')
                  else underlying_walk n (node_alias_target node) t')
               else if Valid (node_underlying node) then underlying_walk n (node_underlying node) t'
               else (ref, t'))"

definition Underlying :: "TypeRef \<Rightarrow> TypeTable \<Rightarrow> TypeRef \<times> TypeTable" where
  "Underlying ref t =
     (if ref_kind ref \<noteq> KNamed then (ref, t)
      else case ensure_index t of
             (Some e, t') \<Rightarrow> (ref, t')
           | (None, t') \<Rightarrow>
               (case underlying_cache t' ref of
                  Some u \<Rightarrow> (u, t')
                | None \<Rightarrow>
                    (case underlying_walk (length (Nodes t') + 1) ref t' of
                       (u, t'') \<Rightarrow>
                         (u, t''\<lparr>underlying_cache := (underlying_cache t'')(ref \<mapsto> u)\<rparr>))))"

section \<open>Validation\<close>

definition validNodeShape :: "TypeNode \<Rightarrow> bool \<Rightarrow> bool" where
  "validNodeShape node compiler =
     (case node_kind node of
        KPrimitive \<Rightarrow> node_primitive node \<noteq> PrimitiveInvalid
      | KNamed \<Rightarrow> key_module (node_identity node) \<noteq> [] \<and> key_decl (node_identity node) \<noteq> [] \<and>
                  (node_alias node \<or> Valid (node_underlying node))
      | KSlice \<Rightarrow> Valid (node_elem node)
      | KPointer \<Rightarrow> Valid (node_elem node)
      | KArray \<Rightarrow> Valid (node_elem node) \<and>
                  (0 \<le> node_length node \<or> compiler \<and> node_length node = UnknownArrayLength)
      | KMap \<Rightarrow> Valid (node_key node) \<and> Valid (node_elem node)
      | KWaitable \<Rightarrow> Valid (node_elem node) \<and>
                     node_direction node \<in> {ChannelBoth, ChannelReceive, ChannelSend}
      | KFunction \<Rightarrow>
          (case node_signature node of
             None \<Rightarrow> False | Some s \<Rightarrow> \<not> sig_variadic s \<or> sig_params s \<noteq> [])
      | KTuple \<Rightarrow> True
      | KStruct \<Rightarrow> True
      | KInterface \<Rightarrow> True
      | KTypeParameter \<Rightarrow> compiler \<and> Valid (node_constraint node)
      | KInstance \<Rightarrow> compiler \<and> Valid (node_base node) \<and> node_type_args node \<noteq> []
      | _ \<Rightarrow> False)"

definition nodeRefs :: "TypeNode \<Rightarrow> TypeRef list" where
  "nodeRefs node =
     [node_alias_target node, node_underlying node, node_elem node, node_key node,
      node_constraint node, node_base node] @
     node_type_args node @ node_tuple node @
     (case node_signature node of None \<Rightarrow> [] | Some s \<Rightarrow> sig_params s @ sig_results s) @
     map sf_type (node_fields node) @
     concat (map (\<lambda>m. tm_receiver m # sig_params (tm_signature m) @ sig_results (tm_signature m))
               (node_methods node)) @
     map term_type (node_terms node)"

fun check_refs :: "string \<Rightarrow> TypeRef list \<Rightarrow> TypeTable \<Rightarrow> type_error option" where
  "check_refs i [] t = None"
| "check_refs i (ref # refs) t =
     (if ref_kind ref = KInvalid then check_refs i refs t
      else if \<not> Valid ref then Some (InvalidReference i ref)
      else if ref_node ref \<noteq> [] \<and> fst (Node ref t) = None then Some (UnknownChild i (ref_node ref))
      else check_refs i refs t)"

fun check_nodes :: "bool \<Rightarrow> TypeNode list \<Rightarrow> TypeTable \<Rightarrow> type_error option" where
  "check_nodes compiler [] t = None"
| "check_nodes compiler (node # ns) t =
     (if \<not> validNodeShape node compiler then Some (InvalidNodeShape (node_id node))
      else case check_refs (node_id node) (nodeRefs node) t of
             Some e \<Rightarrow> Some e
           | None \<Rightarrow> check_nodes compiler ns t)"

text \<open>
  The loop follows aliases and remembers the nodes it has seen: \<open>None\<close> is the fuel running
  out, \<open>Some True\<close> an alias cycle.  It cannot see more nodes than the table has.
\<close>

fun alias_chain :: "nat \<Rightarrow> string list \<Rightarrow> TypeRef \<Rightarrow> TypeTable \<Rightarrow> bool option" where
  "alias_chain 0 seen ref t = None"
| "alias_chain (Suc n) seen ref t =
     (if ref_kind ref \<noteq> KNamed then Some False
      else case fst (nodeForRef ref t) of
             None \<Rightarrow> Some False
           | Some node \<Rightarrow>
               if \<not> node_alias node then Some False
               else if node_id node \<in> set seen then Some True
               else alias_chain n (node_id node # seen) (node_alias_target node) t)"

definition alias_fuel :: "TypeTable \<Rightarrow> nat" where
  "alias_fuel t = length (Nodes t) + 2"

fun check_alias_chains :: "TypeNode list \<Rightarrow> TypeTable \<Rightarrow> type_error option option" where
  "check_alias_chains [] t = Some None"
| "check_alias_chains (root # ns) t =
     (if node_kind root \<noteq> KNamed \<or> \<not> node_alias root then check_alias_chains ns t
      else case alias_chain (alias_fuel t) [] (NodeRef root) t of
             None \<Rightarrow> None
           | Some True \<Rightarrow> Some (Some (AliasCycle (node_id root)))
           | Some False \<Rightarrow> check_alias_chains ns t)"

definition validateAliasChains :: "TypeTable \<Rightarrow> type_error option option" where
  "validateAliasChains t = check_alias_chains (Nodes t) t"

fun check_variadic :: "TypeNode list \<Rightarrow> TypeTable \<Rightarrow> type_error option \<times> TypeTable" where
  "check_variadic [] t = (None, t)"
| "check_variadic (node # ns) t =
     (case node_signature node of
        None \<Rightarrow> check_variadic ns t
      | Some s \<Rightarrow>
          if node_kind node \<noteq> KFunction \<or> \<not> sig_variadic s then check_variadic ns t
          else if sig_params s = [] then (Some (VariadicWithoutParams (node_id node)), t)
          else if ref_kind (last (sig_params s)) = KSlice then check_variadic ns t
          else (case Underlying (last (sig_params s)) t of
                  (u, t') \<Rightarrow> if ref_kind u \<noteq> KSlice then (Some (VariadicNotSlice (node_id node)), t')
                             else check_variadic ns t'))"

definition validate_table :: "bool \<Rightarrow> TypeTable \<Rightarrow> (type_error option \<times> TypeTable) option" where
  "validate_table compiler t0 =
     (case index t0 of
        (Some e, t) \<Rightarrow> Some (Some e, t)
      | (None, t) \<Rightarrow>
          (case check_nodes compiler (Nodes t) t of
             Some e \<Rightarrow> Some (Some e, t)
           | None \<Rightarrow>
               (case validateAliasChains t of
                  None \<Rightarrow> None
                | Some (Some e) \<Rightarrow> Some (Some e, t)
                | Some None \<Rightarrow> Some (check_variadic (Nodes t) t))))"

definition ValidateTable :: "TypeTable \<Rightarrow> (type_error option \<times> TypeTable) option" where
  "ValidateTable t = validate_table False t"

definition ValidateCompiler :: "TypeTable \<Rightarrow> (type_error option \<times> TypeTable) option" where
  "ValidateCompiler t = validate_table True t"

section \<open>Lookups in the list of nodes\<close>

definition find_node :: "string \<Rightarrow> TypeNode list \<Rightarrow> TypeNode option" where
  "find_node i ns = find (\<lambda>n. node_id n = i) ns"

definition lookup_ref :: "TypeNode list \<Rightarrow> TypeRef \<Rightarrow> TypeNode option" where
  "lookup_ref ns ref =
     (if ref_kind ref = KNamed \<and> ref_node ref = [] then
        (if emptyTypeKey (ref_named ref) then None
         else find (\<lambda>n. node_identity n = ref_named ref) ns)
      else if ref_node ref = [] then None else find_node (ref_node ref) ns)"

definition ids_ok :: "TypeNode list \<Rightarrow> (string \<rightharpoonup> nat) \<Rightarrow> bool" where
  "ids_ok ns ids = (\<forall>i k. ids i = Some k \<longleftrightarrow> k < length ns \<and> node_id (ns ! k) = i)"

definition names_ok :: "TypeNode list \<Rightarrow> (TypeKey \<rightharpoonup> string) \<Rightarrow> bool" where
  "names_ok ns names =
     (\<forall>key i. names key = Some i \<longleftrightarrow>
        \<not> emptyTypeKey key \<and> (\<exists>n \<in> set ns. node_identity n = key \<and> node_id n = i))"

lemma ids_okD: "ids_ok ns ids \<Longrightarrow> k < length ns \<Longrightarrow> ids (node_id (ns ! k)) = Some k"
  by (simp add: ids_ok_def)

lemma ids_ok_in: "ids_ok ns ids \<Longrightarrow> n \<in> set ns \<Longrightarrow> ids (node_id n) \<noteq> None"
  by (auto simp: in_set_conv_nth ids_okD)

lemma ids_ok_unique:
  "ids_ok ns ids \<Longrightarrow> k < length ns \<Longrightarrow> l < length ns \<Longrightarrow> node_id (ns ! k) = node_id (ns ! l) \<Longrightarrow> k = l"
  by (metis ids_okD option.inject)

lemma find_unique:
  assumes "x \<in> set xs" and "P x" and "\<And>y. y \<in> set xs \<Longrightarrow> P y \<Longrightarrow> y = x"
  shows "find P xs = Some x"
proof (cases "find P xs")
  case None
  with assms(1,2) show ?thesis by (auto simp: find_None_iff)
next
  case (Some y)
  then have "y \<in> set xs" and "P y" by (auto simp: find_Some_iff)
  with Some assms(3) show ?thesis by auto
qed

lemma ids_find:
  assumes "ids_ok ns ids"
  shows "map_option ((!) ns) (ids i) = find_node i ns"
proof (cases "ids i")
  case None
  then have "\<forall>n \<in> set ns. node_id n \<noteq> i"
    using ids_ok_in [OF assms] by metis
  then have "find (\<lambda>n. node_id n = i) ns = None" by (simp add: find_None_iff)
  with None show ?thesis by (simp add: find_node_def)
next
  case (Some k)
  then have k: "k < length ns" "node_id (ns ! k) = i" using assms by (auto simp: ids_ok_def)
  have "find (\<lambda>n. node_id n = i) ns = Some (ns ! k)"
  proof (rule find_unique)
    show "y = ns ! k" if "y \<in> set ns" and "node_id y = i" for y
      using that k ids_ok_unique [OF assms] by (auto simp: in_set_conv_nth)
  qed (use k in auto)
  with Some show ?thesis by (simp add: find_node_def)
qed

lemma ids_same_node:
  assumes "ids_ok ns ids" and "m \<in> set ns" and "n \<in> set ns" and "node_id m = node_id n"
  shows "m = n"
  using assms(2-) ids_ok_unique [OF assms(1)] by (metis in_set_conv_nth)

lemma names_find:
  assumes "ids_ok ns ids" and "names_ok ns names" and "\<not> emptyTypeKey key"
  shows "(case names key of None \<Rightarrow> None | Some i \<Rightarrow> find_node i ns) =
    find (\<lambda>n. node_identity n = key) ns"
proof (cases "names key")
  case None
  then have "\<forall>n \<in> set ns. node_identity n \<noteq> key"
    using assms(2,3) unfolding names_ok_def by (metis option.distinct(1))
  then have "find (\<lambda>n. node_identity n = key) ns = None" by (simp add: find_None_iff)
  with None show ?thesis by simp
next
  case (Some i)
  with assms(2) obtain n where n: "n \<in> set ns" "node_identity n = key" "node_id n = i"
    unfolding names_ok_def by blast
  have same: "y = n" if "y \<in> set ns" and "node_identity y = key" for y
  proof -
    have "names key = Some (node_id y)" using assms(2,3) that unfolding names_ok_def by blast
    with Some n(3) have "node_id y = node_id n" by simp
    with that(1) n(1) show ?thesis by (rule ids_same_node [OF assms(1)])
  qed
  have "find (\<lambda>n. node_identity n = key) ns = Some n"
    by (rule find_unique [OF n(1)]) (simp_all add: n same)
  moreover have "find_node i ns = Some n"
    unfolding find_node_def
    by (rule find_unique [OF n(1)]) (use n ids_same_node [OF assms(1)] in auto)
  ultimately show ?thesis using Some by simp
qed

section \<open>The chain of an underlying type\<close>

definition next_ref :: "TypeNode list \<Rightarrow> TypeRef \<Rightarrow> TypeRef option" where
  "next_ref ns ref =
     (if ref_kind ref \<noteq> KNamed then None
      else case lookup_ref ns ref of
             None \<Rightarrow> None
           | Some node \<Rightarrow>
               (let r = (if node_alias node then node_alias_target node else node_underlying node)
                in if Valid r then Some r else None))"

fun resolve :: "TypeNode list \<Rightarrow> nat \<Rightarrow> TypeRef \<Rightarrow> TypeRef" where
  "resolve ns 0 r = r"
| "resolve ns (Suc n) r = (case next_ref ns r of None \<Rightarrow> r | Some r' \<Rightarrow> resolve ns n r')"

definition indexed :: "TypeTable \<Rightarrow> bool" where
  "indexed t =
     (owned t \<and> ids_ok (Nodes t) (byID t) \<and> names_ok (Nodes t) (byName t) \<and>
      [] \<notin> node_id ` set (Nodes t) \<and>
      (\<forall>r u. underlying_cache t r = Some u \<longrightarrow> u = resolve (Nodes t) (length (Nodes t) + 1) r))"

lemma ensure_indexed [simp]: "indexed t \<Longrightarrow> ensure_index t = (None, t)"
  by (simp add: indexed_def ensure_index_def)

lemma Node_indexed:
  assumes "indexed t"
  shows "Node ref t = (if ref_node ref = [] then None else find_node (ref_node ref) (Nodes t), t)"
  using assms ids_find [of "Nodes t" "byID t" "ref_node ref"]
  by (auto simp: Node_def indexed_def ensure_index_def split: option.split)

lemma nodeForRef_indexed:
  assumes "indexed t"
  shows "nodeForRef ref t = (lookup_ref (Nodes t) ref, t)"
proof (cases "ref_kind ref = KNamed \<and> ref_node ref = []")
  case True
  have ok: "ids_ok (Nodes t) (byID t)" "names_ok (Nodes t) (byName t)" "[] \<notin> node_id ` set (Nodes t)"
    using assms by (simp_all add: indexed_def)
  have named: "Named (ref_named ref) t =
      (case byName t (ref_named ref) of None \<Rightarrow> None | Some i \<Rightarrow> find_node i (Nodes t), t)"
  proof -
    have "byName t (ref_named ref) \<noteq> Some []" using ok unfolding names_ok_def by force
    then show ?thesis
      using assms by (auto simp: Named_def Node_indexed zero_ref_def split: option.split)
  qed
  show ?thesis
  proof (cases "emptyTypeKey (ref_named ref)")
    case empty: True
    then have "byName t (ref_named ref) = None"
      using ok(2) unfolding names_ok_def by (metis not_None_eq)
    with True empty named show ?thesis by (simp add: nodeForRef_def lookup_ref_def)
  next
    case False
    with True named names_find [OF ok(1,2) False] show ?thesis
      by (simp add: nodeForRef_def lookup_ref_def)
  qed
qed (use assms in \<open>auto simp: nodeForRef_def lookup_ref_def Node_indexed\<close>)

lemma underlying_walk_indexed:
  "indexed t \<Longrightarrow> underlying_walk n ref t = (resolve (Nodes t) n ref, t)"
  by (induction n arbitrary: ref)
    (auto simp: nodeForRef_indexed next_ref_def Let_def split: option.split)

abbreviation resolved :: "TypeTable \<Rightarrow> TypeRef \<Rightarrow> TypeRef" where
  "resolved t \<equiv> resolve (Nodes t) (Suc (length (Nodes t)))"

lemma Underlying_cases:
  assumes "indexed t"
  shows "Underlying ref t =
    (resolved t ref,
     if ref_kind ref \<noteq> KNamed \<or> underlying_cache t ref \<noteq> None then t
     else t\<lparr>underlying_cache := (underlying_cache t)(ref \<mapsto> resolved t ref)\<rparr>)"
proof (cases "ref_kind ref = KNamed")
  case True
  have "underlying_cache t ref = Some u \<Longrightarrow> u = resolved t ref" for u
    using assms by (simp add: indexed_def del: resolve.simps)
  with True assms show ?thesis
    by (auto simp: Underlying_def underlying_walk_indexed simp del: underlying_walk.simps resolve.simps
        split: option.split)
qed (simp add: Underlying_def next_ref_def)

lemma Underlying_indexed:
  assumes "indexed t"
  shows "fst (Underlying ref t) = resolved t ref"
    and "indexed (snd (Underlying ref t))" and "Nodes (snd (Underlying ref t)) = Nodes t"
  using assms
  by (simp_all add: Underlying_cases indexed_def del: resolve.simps)

section \<open>Operations keep the index\<close>

lemma ids_ok_Nil: "ids_ok [] Map.empty"
  by (simp add: ids_ok_def)

lemma names_ok_Nil: "names_ok [] Map.empty"
  by (simp add: names_ok_def)

lemma ids_ok_snoc:
  assumes "ids_ok ns ids" and "ids (node_id n) = None"
  shows "ids_ok (ns @ [n]) (ids(node_id n \<mapsto> length ns))"
  unfolding ids_ok_def
proof (intro allI)
  fix i k
  have "k < length ns \<Longrightarrow> node_id (ns ! k) \<noteq> node_id n"
    using ids_okD [OF assms(1), of k] assms(2) by (metis option.distinct(1))
  then show "(ids(node_id n \<mapsto> length ns)) i = Some k \<longleftrightarrow>
      k < length (ns @ [n]) \<and> node_id ((ns @ [n]) ! k) = i"
    using assms unfolding ids_ok_def
    by (cases "k = length ns"; cases "i = node_id n"; cases "k < length ns")
      (simp_all add: nth_append)
qed

lemma names_ok_snoc:
  assumes "names_ok ns names"
    and "emptyTypeKey (node_identity n) \<or> names (node_identity n) = None"
  shows "names_ok (ns @ [n])
    (if emptyTypeKey (node_identity n) then names else names(node_identity n \<mapsto> node_id n))"
  using assms unfolding names_ok_def by (auto simp: split: if_splits) (metis option.distinct(1))+

lemma index_nodes_ok:
  assumes "ids_ok done ids" and "names_ok done names" and "[] \<notin> node_id ` set done"
    and "index_nodes (length done) ns ids names = (None, ids', names')"
  shows "ids_ok (done @ ns) ids' \<and> names_ok (done @ ns) names' \<and> [] \<notin> node_id ` set (done @ ns)"
  using assms
proof (induction ns arbitrary: "done" ids names)
  case (Cons n ns)
  from Cons.prems(4) have id: "node_id n \<noteq> []" "ids (node_id n) = None"
    and key: "emptyTypeKey (node_identity n) \<or> names (node_identity n) = None"
    by (auto simp: Let_def split: if_splits)
  have "index_nodes (length (done @ [n])) ns (ids(node_id n \<mapsto> length done))
      (if emptyTypeKey (node_identity n) then names else names(node_identity n \<mapsto> node_id n)) =
      (None, ids', names')"
    using Cons.prems(4) id key by (auto simp: Let_def split: if_splits)
  from Cons.IH [OF ids_ok_snoc [OF Cons.prems(1) id(2)] names_ok_snoc [OF Cons.prems(2) key] _ this]
  show ?case using Cons.prems(3) id(1) by simp
qed simp

lemma index_ok:
  assumes "index t = (None, t')"
  shows "indexed t' \<and> Nodes t' = Nodes t"
  using assms index_nodes_ok [OF ids_ok_Nil names_ok_Nil, of "Nodes t"]
  by (auto simp: index_def indexed_def split: prod.splits)

lemma AddNode_ok:
  assumes "indexed t" and "AddNode node t = (None, t')"
  shows "indexed t' \<and> Nodes t' = Nodes t @ [node]"
proof -
  have ok: "ids_ok (Nodes t) (byID t)" "names_ok (Nodes t) (byName t)" "[] \<notin> node_id ` set (Nodes t)"
    and own: "owned t"
    using assms(1) by (simp_all add: indexed_def)
  have new: "node_id node \<noteq> []" "byID t (node_id node) = None"
    "emptyTypeKey (node_identity node) \<or> byName t (node_identity node) = None"
    and t': "t' = t\<lparr>Nodes := Nodes t @ [node], byID := (byID t)(node_id node \<mapsto> length (Nodes t)),
        byName := (if emptyTypeKey (node_identity node) then byName t
                   else (byName t)(node_identity node \<mapsto> node_id node)),
        underlying_cache := Map.empty\<rparr>"
    using assms by (auto simp: AddNode_def split: if_splits)
  show ?thesis
    using ids_ok_snoc [OF ok(1) new(2)] names_ok_snoc [OF ok(2) new(3)] ok(3) own new(1)
    by (simp add: t' indexed_def)
qed

lemma ReplaceNode_ok:
  assumes "indexed t" and "ReplaceNode node t = (None, t')"
  shows "indexed t' \<and> (\<exists>i < length (Nodes t). node_id (Nodes t ! i) = node_id node \<and>
    node_identity (Nodes t ! i) = node_identity node \<and> Nodes t' = (Nodes t)[i := node])"
proof -
  have ok: "ids_ok (Nodes t) (byID t)" "names_ok (Nodes t) (byName t)" "[] \<notin> node_id ` set (Nodes t)"
    and own: "owned t"
    using assms(1) by (simp_all add: indexed_def)
  obtain i where i: "byID t (node_id node) = Some i" and "node_identity (Nodes t ! i) = node_identity node"
    and t': "t' = t\<lparr>Nodes := (Nodes t)[i := node], underlying_cache := Map.empty\<rparr>"
    using assms by (auto simp: ReplaceNode_def split: if_splits option.splits)
  have pos: "i < length (Nodes t)" "node_id (Nodes t ! i) = node_id node"
    using ok(1) i by (simp_all add: ids_ok_def)
  let ?ns = "(Nodes t)[i := node]"
  have id: "node_id (?ns ! k) = node_id (Nodes t ! k)" and
    key: "node_identity (?ns ! k) = node_identity (Nodes t ! k)" for k
    using pos \<open>node_identity (Nodes t ! i) = node_identity node\<close> by (cases "k = i"; simp)+
  have ids: "ids_ok ?ns (byID t)" using ok(1) by (simp add: ids_ok_def id)
  have "(\<exists>n \<in> set ?ns. node_identity n = k \<and> node_id n = j) \<longleftrightarrow>
      (\<exists>n \<in> set (Nodes t). node_identity n = k \<and> node_id n = j)" for k j
    by (simp add: set_conv_nth Bex_def id key) (metis id key)
  with ok(2) have "names_ok ?ns (byName t)" by (simp add: names_ok_def)
  moreover have "node_id ` set ?ns = node_id ` set (Nodes t)"
    by (metis id length_list_update map_equality_iff nth_map set_map length_map nth_equalityI)
  ultimately show ?thesis
    using ids ok(3) own pos \<open>node_identity (Nodes t ! i) = node_identity node\<close>
    by (auto simp: t' indexed_def simp del: resolve.simps)
qed

section \<open>Chains that end\<close>

text \<open>\<open>chain ns n r\<close> is the reference \<open>n\<close> steps along the chain of \<open>r\<close>, if it gets so far.\<close>

fun chain :: "TypeNode list \<Rightarrow> nat \<Rightarrow> TypeRef \<Rightarrow> TypeRef option" where
  "chain ns 0 r = Some r"
| "chain ns (Suc n) r = (case chain ns n r of None \<Rightarrow> None | Some r' \<Rightarrow> next_ref ns r')"

definition chain_end :: "TypeNode list \<Rightarrow> TypeRef \<Rightarrow> TypeRef \<Rightarrow> bool" where
  "chain_end ns r u = (\<exists>n. chain ns n r = Some u \<and> next_ref ns u = None)"

lemma chain_front: "chain ns (Suc n) r = (case next_ref ns r of None \<Rightarrow> None | Some r' \<Rightarrow> chain ns n r')"
proof (induction n)
  case (Suc n)
  then show ?case by (subst chain.simps(2)) (auto split: option.split)
qed (simp split: option.split)

lemma chain_shift: "chain ns i r = chain ns j r \<Longrightarrow> chain ns (i + n) r = chain ns (j + n) r"
  by (induction n) simp_all

lemma chain_earlier: "chain ns n r \<noteq> None \<Longrightarrow> m \<le> n \<Longrightarrow> chain ns m r \<noteq> None"
  by (induction n) (auto simp: le_Suc_eq split: option.splits)

lemma chain_resolve: "chain ns n r = Some u \<Longrightarrow> next_ref ns u = None \<Longrightarrow> n \<le> m \<Longrightarrow> resolve ns m r = u"
proof (induction n arbitrary: r m)
  case 0
  then show ?case by (cases m) simp_all
next
  case (Suc n)
  then obtain r' m' where r': "next_ref ns r = Some r'" and m: "m = Suc m'" "n \<le> m'"
    by (cases m) (auto simp: chain_front simp del: chain.simps split: option.splits)
  have "chain ns n r' = Some u"
    using Suc.prems(1) r' by (simp add: chain_front del: chain.simps)
  from Suc.IH [OF this Suc.prems(2) m(2)] r' m(1) show ?case by simp
qed

lemma lookup_ref_in: "lookup_ref ns r = Some n \<Longrightarrow> n \<in> set ns"
  by (auto simp: lookup_ref_def find_node_def find_Some_iff split: if_splits)

text \<open>A chain that takes as many steps as there are nodes looks up a node twice and never ends.\<close>

lemma chain_length:
  assumes "chain ns n r = Some u" and "next_ref ns u = None"
  shows "n \<le> length ns"
proof (rule ccontr)
  assume "\<not> n \<le> length ns"
  define node where "node j = the (lookup_ref ns (the (chain ns j r)))" for j
  have step: "\<exists>r1. chain ns j r = Some r1 \<and> lookup_ref ns r1 = Some (node j) \<and>
      chain ns (Suc j) r = Some (if node_alias (node j) then node_alias_target (node j)
                                 else node_underlying (node j))" if "j < n" for j
  proof -
    have "chain ns (Suc j) r \<noteq> None" using chain_earlier [of ns n r "Suc j"] assms(1) that by simp
    then show ?thesis
      by (auto simp: node_def next_ref_def Let_def split: option.splits if_splits)
  qed
  have "node ` {..<n} \<subseteq> set ns" using step lookup_ref_in by fastforce
  then have "card (node ` {..<n}) \<le> length ns"
    by (meson card_length card_mono dual_order.trans finite_set)
  with \<open>\<not> n \<le> length ns\<close> have "\<not> inj_on node {..<n}"
    by (auto dest: card_image)
  then obtain i j where ij: "i < j" "j < n" "node i = node j"
    unfolding inj_on_def by (metis lessThan_iff linorder_neqE_nat order.strict_trans)
  have "chain ns (Suc i) r = chain ns (Suc j) r"
    using step [of i] step [of j] ij by auto
  from chain_shift [OF this, of "n - j"] ij
  have "chain ns (Suc i + (n - j)) r = chain ns (Suc n) r" by simp
  also have "\<dots> = None" using assms by simp
  finally have "chain ns n r = None"
    using chain_earlier [of ns n r "Suc i + (n - j)"] ij by linarith
  with assms(1) show False by simp
qed

lemma resolve_chain_end: "chain_end ns r u \<Longrightarrow> resolve ns (Suc (length ns)) r = u"
  unfolding chain_end_def using chain_length chain_resolve
  by (metis le_SucI)

section \<open>Validation\<close>

lemma alias_chain_total:
  assumes "indexed t" and "distinct seen" and "set seen \<subseteq> node_id ` set (Nodes t)"
    and "length (Nodes t) < n + length seen" and "0 < n"
  shows "alias_chain n seen ref t \<noteq> None"
  using assms(2-)
proof (induction n arbitrary: seen ref)
  case (Suc n)
  show ?case
  proof (cases "lookup_ref (Nodes t) ref")
    case None
    then show ?thesis using assms(1) by (auto simp: nodeForRef_indexed)
  next
    case (Some node)
    have "node_id node \<in> node_id ` set (Nodes t)" using lookup_ref_in [OF Some] by simp
    have "length (node_id node # seen) \<le> length (Nodes t)" if "node_id node \<notin> set seen"
    proof -
      have "length (node_id node # seen) = card (set (node_id node # seen))"
        using Suc.prems(1) that by (simp add: distinct_card)
      also have "\<dots> \<le> card (node_id ` set (Nodes t))"
        using Suc.prems(2) \<open>node_id node \<in> _\<close> by (intro card_mono) auto
      also have "\<dots> \<le> length (Nodes t)"
        by (metis card_length length_map set_map)
      finally show ?thesis .
    qed
    with Suc.IH [of "node_id node # seen" "node_alias_target node"] Suc.prems \<open>node_id node \<in> _\<close>
    show ?thesis using assms(1) Some by (auto simp: nodeForRef_indexed)
  qed
qed simp

lemma alias_fuel_enough: "indexed t \<Longrightarrow> alias_chain (alias_fuel t) [] ref t \<noteq> None"
  by (rule alias_chain_total) (simp_all add: alias_fuel_def)

lemma check_alias_total: "indexed t \<Longrightarrow> check_alias_chains ns t \<noteq> None"
  by (induction ns) (auto simp: alias_fuel_enough simp del: alias_chain.simps
      split: option.split bool.split)

lemma check_variadic_indexed:
  "indexed t \<Longrightarrow> check_variadic ns t = (e, t') \<Longrightarrow> indexed t' \<and> Nodes t' = Nodes t"
proof (induction ns arbitrary: t)
  case (Cons node ns)
  obtain s where s: "node_signature node = Some s \<or> node_signature node = None" by blast
  show ?case
  proof (cases "node_signature node")
    case (Some s)
    have "indexed (snd (Underlying (last (sig_params s)) t))"
      and "Nodes (snd (Underlying (last (sig_params s)) t)) = Nodes t"
      using Underlying_indexed [OF Cons.prems(1)] by simp_all
    with Cons.IH Cons.prems Some show ?thesis
      by (auto split: if_splits prod.splits)
  qed (use Cons in simp)
qed simp

lemma check_refs_None:
  assumes "indexed t"
  shows "check_refs i refs t = None \<longleftrightarrow>
    (\<forall>r \<in> set refs. ref_kind r = KInvalid \<or>
       Valid r \<and> (ref_node r = [] \<or> find_node (ref_node r) (Nodes t) \<noteq> None))"
  using assms by (induction refs) (auto simp: Node_indexed)

lemma check_nodes_None:
  assumes "indexed t"
  shows "check_nodes compiler ns t = None \<longleftrightarrow>
    (\<forall>n \<in> set ns. validNodeShape n compiler \<and> (\<forall>r \<in> set (nodeRefs n). ref_kind r = KInvalid \<or>
       Valid r \<and> (ref_node r = [] \<or> find_node (ref_node r) (Nodes t) \<noteq> None)))"
proof (induction ns)
  case (Cons a ns)
  then show ?case
    using check_refs_None [OF assms, of "node_id a" "nodeRefs a"]
    by (cases "check_refs (node_id a) (nodeRefs a) t") auto
qed simp

text \<open>Following only aliases from a reference stops.\<close>

inductive alias_ends :: "TypeNode list \<Rightarrow> TypeRef \<Rightarrow> bool" for ns where
  stop: "ref_kind ref \<noteq> KNamed \<or> lookup_ref ns ref = None \<or>
    (\<exists>node. lookup_ref ns ref = Some node \<and> \<not> node_alias node) \<Longrightarrow> alias_ends ns ref"
| follow: "lookup_ref ns ref = Some node \<Longrightarrow> node_alias node \<Longrightarrow>
    alias_ends ns (node_alias_target node) \<Longrightarrow> alias_ends ns ref"

lemma alias_chain_ends:
  assumes "indexed t"
  shows "alias_chain n seen ref t = Some False \<Longrightarrow> alias_ends (Nodes t) ref"
proof (induction n arbitrary: seen ref)
  case (Suc n)
  then show ?case
    using assms by (auto simp: nodeForRef_indexed intro: alias_ends.intros
        split: if_splits option.splits)
qed simp

lemma check_alias_None:
  assumes "indexed t" and "check_alias_chains ns t = Some None"
    and "n \<in> set ns" and "node_kind n = KNamed" and "node_alias n"
  shows "alias_ends (Nodes t) (NodeRef n)"
  using assms(2,3,4,5)
  by (induction ns) (auto split: if_splits option.splits bool.splits
      dest: alias_chain_ends [OF assms(1)])

lemma validate_table_total: "validate_table compiler t \<noteq> None"
proof (cases "index t")
  case (Pair e t')
  show ?thesis
  proof (cases e)
    case None
    with Pair have "indexed t'" using index_ok by blast
    from check_alias_total [OF this, of "Nodes t'"] Pair None show ?thesis
      by (auto simp: validate_table_def validateAliasChains_def
          simp del: check_alias_chains.simps split: option.split)
  qed (use Pair in \<open>simp add: validate_table_def\<close>)
qed

lemma validate_table_sound:
  assumes "validate_table compiler t = Some (None, t')"
  shows "indexed t' \<and> Nodes t' = Nodes t \<and>
    (\<forall>n \<in> set (Nodes t). validNodeShape n compiler \<and>
       (\<forall>r \<in> set (nodeRefs n). ref_kind r = KInvalid \<or>
          Valid r \<and> (ref_node r = [] \<or> find_node (ref_node r) (Nodes t) \<noteq> None)) \<and>
       (node_kind n = KNamed \<and> node_alias n \<longrightarrow> alias_ends (Nodes t) (NodeRef n)))"
proof -
  obtain t1 where t1: "index t = (None, t1)"
    using assms by (auto simp: validate_table_def split: prod.splits option.splits)
  then have ok: "indexed t1" "Nodes t1 = Nodes t" using index_ok by blast+
  have nodes: "check_nodes compiler (Nodes t) t1 = None"
    and aliases: "check_alias_chains (Nodes t) t1 = Some None"
    and last: "check_variadic (Nodes t) t1 = (None, t')"
    using assms t1 ok(2)
    by (auto simp: validate_table_def validateAliasChains_def split: option.splits)
  show ?thesis
    using check_variadic_indexed [OF ok(1) last] check_nodes_None [OF ok(1)] nodes
      check_alias_None [OF ok(1) aliases] ok(2) by auto
qed

lemma Node_found:
  assumes "indexed t" and "n \<in> set (Nodes t)"
  shows "fst (Node (NodeRef n) t) = Some n"
proof -
  have ids: "ids_ok (Nodes t) (byID t)" and "[] \<notin> node_id ` set (Nodes t)"
    using assms(1) by (simp_all add: indexed_def)
  then have "node_id n \<noteq> []" using assms(2) by (metis imageI)
  moreover have "find_node (node_id n) (Nodes t) = Some n"
    unfolding find_node_def
    by (rule find_unique [OF assms(2)]) (use assms(2) ids_same_node [OF ids] in auto)
  ultimately show ?thesis by (simp add: Node_indexed [OF assms(1)] NodeRef_def)
qed

lemma map_replace: "i < length xs \<Longrightarrow> f (xs ! i) = f x \<Longrightarrow> map f (xs[i := x]) = map f xs"
  by (metis list_update_id map_update nth_map)

section \<open>Properties\<close>


text \<open>
  C19. \<^verbatim>\<open>Underlying\<close> with its cache, its index and its bounded loop gives the end of the chain
  of named types whenever the chain has an end: \<^verbatim>\<open>len(nodes) + 1\<close> steps are enough for every
  chain that is not cyclic.
\<close>

theorem underlying_exact:
  assumes "indexed t" and "chain_end (Nodes t) ref u"
  shows "fst (Underlying ref t) = u \<and> fst (Underlying ref (snd (Underlying ref t))) = u"
  using Underlying_indexed [OF assms(1)] Underlying_indexed(1) [OF Underlying_indexed(2) [OF assms(1)]]
    resolve_chain_end [OF assms(2)] by simp


section \<open>A sample table\<close>

text \<open>\<^verbatim>\<open>type A = B; type B []int\<close>: an alias of a named slice.\<close>

definition blank_node :: TypeNode where
  "blank_node =
     \<lparr>node_id = [], node_kind = KInvalid, node_name = [], node_primitive = PrimitiveInvalid,
      node_identity = TypeKey [] [], node_alias = False, node_alias_target = zero_ref,
      node_underlying = zero_ref, node_elem = zero_ref, node_key = zero_ref, node_length = 0,
      node_direction = ChannelInvalid, node_signature = None, node_tuple = [], node_fields = [],
      node_methods = [], node_terms = [], node_type_set = False, node_constraint = zero_ref,
      node_base = zero_ref, node_type_args = []\<rparr>"

definition node_ref :: "Kind \<Rightarrow> string \<Rightarrow> TypeRef" where
  "node_ref k i = zero_ref\<lparr>ref_kind := k, ref_node := i\<rparr>"

definition sample_slice :: TypeNode where
  "sample_slice = blank_node\<lparr>node_id := ''s'', node_kind := KSlice, node_elem := Builtin PrimitiveInt\<rparr>"

definition sample_named :: TypeNode where
  "sample_named = blank_node\<lparr>node_id := ''b'', node_kind := KNamed,
     node_identity := TypeKey ''m'' ''B'', node_underlying := node_ref KSlice ''s''\<rparr>"

definition sample_alias :: TypeNode where
  "sample_alias = blank_node\<lparr>node_id := ''a'', node_kind := KNamed, node_alias := True,
     node_identity := TypeKey ''m'' ''A'', node_alias_target := node_ref KNamed ''b''\<rparr>"

definition sample_table :: TypeTable where
  "sample_table = \<lparr>Nodes = [sample_slice, sample_named, sample_alias], byID = Map.empty,
     byName = Map.empty, owned = False, underlying_cache = Map.empty\<rparr>"

lemmas sample_defs = sample_table_def sample_slice_def sample_named_def sample_alias_def
  blank_node_def node_ref_def zero_ref_def Builtin_def emptyTypeKey_def

lemma sample_index: "index sample_table = (None, snd (index sample_table))"
  by (simp add: index_def sample_defs)

lemma sample_nodes:
  shows "indexed (snd (index sample_table))"
    and "Nodes (snd (index sample_table)) = [sample_slice, sample_named, sample_alias]"
  using index_ok [OF sample_index] by (simp_all add: sample_table_def)

lemma sample_valid: "fst (the (validate_table False sample_table)) = None"
  by (simp add: validate_table_def validateAliasChains_def alias_fuel_def index_def sample_defs
      validNodeShape_def nodeRefs_def Valid_def Node_def nodeForRef_def ensure_index_def NodeRef_def)


lemma underlying_exact_witness:
  "fst (Underlying (node_ref KNamed ''a'') (snd (index sample_table))) = node_ref KSlice ''s''"
proof -
  have "chain (Nodes (snd (index sample_table))) 2 (node_ref KNamed ''a'') = Some (node_ref KSlice ''s'')"
    unfolding sample_nodes(2)
    by (simp add: numeral_2_eq_2 next_ref_def lookup_ref_def find_node_def Valid_def sample_defs)
  moreover have "next_ref (Nodes (snd (index sample_table))) (node_ref KSlice ''s'') = None"
    by (simp add: next_ref_def sample_defs)
  ultimately have "chain_end (Nodes (snd (index sample_table))) (node_ref KNamed ''a'') (node_ref KSlice ''s'')"
    unfolding chain_end_def by blast
  from underlying_exact [OF sample_nodes(1) this] show ?thesis by simp
qed


end
