(* ===== verification/Cycle_Search.thy ===== *)
theory Cycle_Search
  imports Prelude
begin

text \<open>
  Recursive predicates on cyclic data that cut cycles with the set of the objects on the
  current path: the form of \<^verbatim>\<open>identical\<close> in \<^verbatim>\<open>src/compiler/types/relations.go\<close> and of
  \<^verbatim>\<open>comparable\<close> in \<^verbatim>\<open>src/compiler/types/view.go\<close>.  The search answers true on an object it is
  already visiting.  It computes the greatest fixed point of its own equation, whatever the
  order of the visits, and ends when every restart of the path has a smaller rank.
\<close>

section \<open>Three-valued conjunction\<close>

text \<open>\<open>None\<close> is a computation that has not ended; a false conjunct ends the conjunction.\<close>

definition and_opt :: "bool option \<Rightarrow> bool option \<Rightarrow> bool option" where
  "and_opt a b = (case a of None \<Rightarrow> None | Some p \<Rightarrow> if p then b else Some False)"

fun all_opt :: "('a \<Rightarrow> bool option) \<Rightarrow> 'a list \<Rightarrow> bool option" where
  "all_opt f [] = Some True"
| "all_opt f (x # xs) = and_opt (f x) (all_opt f xs)"

lemma and_opt_simps [simp]:
  "and_opt (Some True) b = b"
  "and_opt (Some False) b = Some False"
  "and_opt None b = None"
  by (simp_all add: and_opt_def)

lemma and_opt_True [simp]: "and_opt a (Some True) = a"
  by (cases a) (auto simp: and_opt_def)

lemma and_opt_eq_True [simp]: "and_opt a b = Some True \<longleftrightarrow> a = Some True \<and> b = Some True"
  by (cases a) (auto simp: and_opt_def)

lemma and_opt_eq_False:
  "and_opt a b = Some False \<longleftrightarrow> a = Some False \<or> a = Some True \<and> b = Some False"
  by (cases a) (auto simp: and_opt_def)

lemma and_opt_assoc: "and_opt (and_opt a b) c = and_opt a (and_opt b c)"
  by (cases a) (auto simp: and_opt_def)

lemma and_opt_returns: "a \<noteq> None \<Longrightarrow> (a = Some True \<Longrightarrow> b \<noteq> None) \<Longrightarrow> and_opt a b \<noteq> None"
  by (cases a) (auto simp: and_opt_def)

lemma all_opt_append: "all_opt f (xs @ ys) = and_opt (all_opt f xs) (all_opt f ys)"
  by (induction xs) (simp_all add: and_opt_assoc)

lemma all_opt_map: "all_opt f (map g xs) = all_opt (\<lambda>x. f (g x)) xs"
  by (induction xs) simp_all

lemma all_opt_cong [fundef_cong]:
  "xs = ys \<Longrightarrow> (\<And>x. x \<in> set ys \<Longrightarrow> f x = g x) \<Longrightarrow> all_opt f xs = all_opt g ys"
  by (induction ys arbitrary: xs) auto

lemma all_opt_True: "all_opt f xs = Some True \<longleftrightarrow> (\<forall>x \<in> set xs. f x = Some True)"
  by (induction xs) auto

lemma all_opt_False: "all_opt f xs = Some False \<Longrightarrow> \<exists>x \<in> set xs. f x = Some False"
  by (induction xs) (auto simp: and_opt_eq_False)

lemma all_opt_returns: "(\<And>x. x \<in> set xs \<Longrightarrow> f x \<noteq> None) \<Longrightarrow> all_opt f xs \<noteq> None"
proof (induction xs)
  case (Cons a xs)
  then have "f a \<noteq> None" and "all_opt f xs \<noteq> None" by auto
  then show ?case by (simp add: and_opt_returns)
qed simp

section \<open>The search\<close>

text \<open>
  What is left to do on an object: a test, or a visit of another object.  A visit keeps the
  current path or starts with an empty one.
\<close>

datatype 'a item = Check bool | Visit bool 'a

definition path :: "bool \<Rightarrow> 'k list \<Rightarrow> 'k list" where
  "path fresh seen = (if fresh then [] else seen)"

definition keep :: "bool \<Rightarrow> 'k set \<Rightarrow> 'k set" where
  "keep fresh S = (if fresh then {} else S)"

lemma path_simps [simp]: "path True seen = []" "path False seen = seen"
  by (simp_all add: path_def)

lemma keep_simps [simp]: "keep True S = {}" "keep False S = S"
  by (simp_all add: keep_def)

lemma set_path [simp]: "set (path fresh seen) = keep fresh (set seen)"
  by (cases fresh) simp_all

lemma keep_mono: "S \<subseteq> T \<Longrightarrow> keep fresh S \<subseteq> keep fresh T"
  by (cases fresh) simp_all

primrec cut_search ::
  "nat \<Rightarrow> ('a \<Rightarrow> bool option) \<Rightarrow> ('a \<Rightarrow> 'k option) \<Rightarrow> ('a \<Rightarrow> 'a item list) \<Rightarrow> 'k list \<Rightarrow> 'a \<Rightarrow> bool option"
where
  "cut_search 0 pre key items seen x = None"
| "cut_search (Suc n) pre key items seen x =
     (case pre x of
        Some b \<Rightarrow> Some b
      | None \<Rightarrow>
          if key x \<in> Some ` set seen then Some True
          else
            (let seen' = (case key x of None \<Rightarrow> seen | Some k \<Rightarrow> k # seen) in
             all_opt (\<lambda>i. case i of
                 Check b \<Rightarrow> Some b
               | Visit fresh y \<Rightarrow> cut_search n pre key items (path fresh seen') y)
               (items x)))"

text \<open>The greatest fixed point, with the keys of \<open>S\<close> taken for granted.\<close>

coinductive holds_upto ::
  "('a \<Rightarrow> bool option) \<Rightarrow> ('a \<Rightarrow> 'k option) \<Rightarrow> ('a \<Rightarrow> 'a item list) \<Rightarrow> 'k set \<Rightarrow> 'a \<Rightarrow> bool"
  for pre key items where
  step: "pre x \<noteq> Some False \<Longrightarrow>
    (pre x = None \<Longrightarrow> key x \<notin> Some ` S \<Longrightarrow>
       Check False \<notin> set (items x) \<and>
       (\<forall>fresh y. Visit fresh y \<in> set (items x) \<longrightarrow>
          holds_upto pre key items (keep fresh S) y)) \<Longrightarrow>
    holds_upto pre key items S x"

lemma holds_upto_pre: "holds_upto pre key items S x \<Longrightarrow> pre x \<noteq> Some False"
  by (erule holds_upto.cases) blast

lemma holds_upto_parts:
  assumes "holds_upto pre key items S x" and "pre x = None" and "key x \<notin> Some ` S"
  shows "Check False \<notin> set (items x)"
    and "Visit fresh y \<in> set (items x) \<Longrightarrow> holds_upto pre key items (keep fresh S) y"
  using assms by (auto elim: holds_upto.cases)

lemma holds_upto_decided: "pre x = Some True \<Longrightarrow> holds_upto pre key items S x"
  by (rule holds_upto.step) simp_all

lemma holds_upto_cut: "pre x \<noteq> Some False \<Longrightarrow> key x \<in> Some ` S \<Longrightarrow> holds_upto pre key items S x"
  by (rule holds_upto.step) simp_all

lemma holds_upto_mono:
  assumes "holds_upto pre key items S x" and "S \<subseteq> T"
  shows "holds_upto pre key items T x"
proof -
  define R where "R T y \<longleftrightarrow> (\<exists>S. holds_upto pre key items S y \<and> S \<subseteq> T)" for T y
  have "holds_upto pre key items T y" if "R T y" for T y
    using that
  proof (coinduction arbitrary: T y rule: holds_upto.coinduct)
    case (holds_upto T y)
    then obtain S where S: "holds_upto pre key items S y" "S \<subseteq> T" by (auto simp: R_def)
    have out: "key y \<notin> Some ` S" if "key y \<notin> Some ` T" using that S(2) by blast
    have "R (keep fresh T) z"
      if "pre y = None" "key y \<notin> Some ` T" "Visit fresh z \<in> set (items y)" for fresh z
      unfolding R_def
      using holds_upto_parts(2) [OF S(1) that(1) out [OF that(2)] that(3)] keep_mono [OF S(2)] by blast
    with holds_upto_pre [OF S(1)] holds_upto_parts(1) [OF S(1) _ out] show ?case by simp
  qed
  moreover have "R T x" using assms by (auto simp: R_def)
  ultimately show ?thesis by blast
qed

text \<open>
  What a search relies on: the key of an object that is not decided at once determines what
  is left to do.
\<close>

locale keyed_search =
  fixes pre :: "'a \<Rightarrow> bool option" and key :: "'a \<Rightarrow> 'k option" and items :: "'a \<Rightarrow> 'a item list"
  assumes key_items:
    "pre x = None \<Longrightarrow> pre y = None \<Longrightarrow> key x = Some k \<Longrightarrow> key y = Some k \<Longrightarrow> items x = items y"
begin

abbreviation granted :: "'k set \<Rightarrow> 'a \<Rightarrow> bool" where
  "granted \<equiv> holds_upto pre key items"

text \<open>An object may be taken for granted while its own parts are shown.\<close>

lemma accumulate:
  assumes x: "pre x = None" "key x = Some k" "Check False \<notin> set (items x)"
    and visits: "\<And>fresh y. Visit fresh y \<in> set (items x) \<Longrightarrow> granted (keep fresh (insert k S)) y"
  shows "granted S x"
proof -
  define R where "R T y \<longleftrightarrow> T = S \<and> (y = x \<or> granted (insert k S) y) \<or> granted T y" for T y
  have parts: "R (keep fresh S) z" if "Visit fresh z \<in> set (items x)" for fresh z
    using visits [OF that] by (cases fresh) (simp_all add: R_def)
  have "granted T y" if "R T y" for T y
    using that
  proof (coinduction arbitrary: T y rule: holds_upto.coinduct)
    case (holds_upto T y)
    then consider "T = S" "y = x" | "T = S" "granted (insert k S) y" | "granted T y"
      by (auto simp: R_def)
    then have "pre y \<noteq> Some False \<and> (pre y = None \<longrightarrow> key y \<notin> Some ` T \<longrightarrow>
        Check False \<notin> set (items y) \<and>
        (\<forall>fresh z. Visit fresh z \<in> set (items y) \<longrightarrow> R (keep fresh T) z))"
    proof cases
      case 1
      from x(3) parts show ?thesis unfolding 1 using x(1) by simp
    next
      case 2
      show ?thesis
      proof (cases "pre y = None \<and> key y = Some k")
        case True
        then have "items y = items x" using key_items x(1,2) by blast
        with x parts True 2(1) show ?thesis by simp
      next
        case False
        have "R (keep fresh T) z"
          if "pre y = None" "key y \<notin> Some ` T" "Visit fresh z \<in> set (items y)" for fresh z
          using holds_upto_parts(2) [OF 2(2) that(1) _ that(3)] that(1,2) False 2(1)
          by (cases fresh) (auto simp: R_def)
        moreover have "Check False \<notin> set (items y)" if "pre y = None" "key y \<notin> Some ` T"
          using holds_upto_parts(1) [OF 2(2) that(1)] that False 2(1) by auto
        ultimately show ?thesis using holds_upto_pre [OF 2(2)] by simp
      qed
    next
      case 3
      have "R (keep fresh T) z"
        if "pre y = None" "key y \<notin> Some ` T" "Visit fresh z \<in> set (items y)" for fresh z
        using holds_upto_parts(2) [OF 3 that] by (simp add: R_def)
      with holds_upto_pre [OF 3] holds_upto_parts(1) [OF 3] show ?thesis by simp
    qed
    then show ?case by simp
  qed
  moreover have "R S x" by (simp add: R_def)
  ultimately show ?thesis by blast
qed

lemma search_sound: "cut_search n pre key items seen x = Some b \<Longrightarrow> b \<longleftrightarrow> granted (set seen) x"
proof (induction n arbitrary: seen x b)
  case (Suc n)
  show ?case
  proof (cases "pre x")
    case (Some p)
    with Suc.prems have "pre x = Some b" by simp
    then show ?thesis by (cases b) (auto dest: holds_upto_pre intro: holds_upto_decided)
  next
    case None
    show ?thesis
    proof (cases "key x \<in> Some ` set seen")
      case True
      with None Suc.prems show ?thesis by (simp add: holds_upto_cut)
    next
      case False
      define seen' where "seen' = (case key x of None \<Rightarrow> seen | Some k \<Rightarrow> k # seen)"
      define run where "run i = (case i of Check b \<Rightarrow> Some b
          | Visit fresh y \<Rightarrow> cut_search n pre key items (path fresh seen') y)" for i
      have result: "all_opt run (items x) = Some b"
        using Suc.prems None False unfolding seen'_def run_def by simp
      have visit: "p \<longleftrightarrow> granted (keep fresh (set seen')) y" if "run (Visit fresh y) = Some p" for fresh y p
        using that Suc.IH [of "path fresh seen'" y p] by (simp add: run_def)
      have bigger: "set seen \<subseteq> set seen'" by (auto simp: seen'_def split: option.split)
      show ?thesis
      proof (cases b)
        case True
        with result have all: "\<forall>i \<in> set (items x). run i = Some True" by (simp add: all_opt_True)
        have checks: "Check False \<notin> set (items x)" using all by (force simp: run_def)
        have visits: "granted (keep fresh (set seen')) y" if "Visit fresh y \<in> set (items x)" for fresh y
          using all that visit by blast
        have "granted (set seen) x"
        proof (cases "key x")
          case None
          with visits checks show ?thesis
            by (intro holds_upto.step) (simp_all add: seen'_def \<open>pre x = None\<close>)
        next
          case (Some k)
          with visits have "granted (keep fresh (insert k (set seen))) y"
            if "Visit fresh y \<in> set (items x)" for fresh y
            using that by (fastforce simp: seen'_def)
          from accumulate [OF \<open>pre x = None\<close> Some checks this] show ?thesis .
        qed
        with True show ?thesis by simp
      next
        case False
        with result obtain i where i: "i \<in> set (items x)" "run i = Some False"
          using all_opt_False by force
        have "\<not> granted (set seen) x"
        proof
          assume "granted (set seen) x"
          note parts = holds_upto_parts [OF this None \<open>key x \<notin> Some ` set seen\<close>]
          show False
          proof (cases i)
            case (Check c)
            with i parts(1) show False by (simp add: run_def)
          next
            case (Visit fresh y)
            with i visit have "\<not> granted (keep fresh (set seen')) y" by blast
            moreover have "granted (keep fresh (set seen)) y" using parts(2) i(1) Visit by blast
            ultimately show False by (metis holds_upto_mono keep_mono bigger)
          qed
        qed
        with False show ?thesis by simp
      qed
    qed
  qed
qed simp

end

text \<open>
  The search ends on an object of a set \<open>D\<close> that is closed under visits, if its keys come
  from a finite set, an object without a key has nothing left to visit, and a visit with an
  empty path goes down in rank.
\<close>

lemma search_returns:
  assumes closed: "\<And>x fresh y. x \<in> D \<Longrightarrow> pre x = None \<Longrightarrow> Visit fresh y \<in> set (items x) \<Longrightarrow> y \<in> D"
    and finite: "finite K"
    and keyed: "\<And>x fresh y. x \<in> D \<Longrightarrow> pre x = None \<Longrightarrow> Visit fresh y \<in> set (items x) \<Longrightarrow>
      \<exists>k \<in> K. key x = Some k"
    and down: "\<And>x fresh y. x \<in> D \<Longrightarrow> pre x = None \<Longrightarrow> Visit fresh y \<in> set (items x) \<Longrightarrow>
      (if fresh then rank y < rank x else rank y \<le> (rank x :: nat))"
    and "x \<in> D" and "rank x * (card K + 1) + card (K - set seen) < n"
  shows "cut_search n pre key items seen x \<noteq> None"
  using assms(5,6)
proof (induction n arbitrary: seen x)
  case (Suc n)
  show ?case
  proof (cases "pre x = None \<and> key x \<notin> Some ` set seen")
    case False
    then show ?thesis by (auto split: option.split)
  next
    case True
    define seen' where "seen' = (case key x of None \<Rightarrow> seen | Some k \<Rightarrow> k # seen)"
    have "cut_search n pre key items (path fresh seen') y \<noteq> None"
      if visit: "Visit fresh y \<in> set (items x)" for fresh y
    proof -
      obtain k where k: "k \<in> K" "key x = Some k" using keyed [OF Suc.prems(1) _ visit] True by auto
      have less: "card (K - set seen') < card (K - set seen)"
        using k True finite by (auto simp: seen'_def intro!: psubset_card_mono)
      have "rank y * (card K + 1) + card (K - set (path fresh seen')) < n"
      proof (cases fresh)
        case True
        with down [OF Suc.prems(1) _ visit] \<open>pre x = None \<and> _\<close> have "Suc (rank y) \<le> rank x" by simp
        then have "Suc (rank y) * (card K + 1) \<le> rank x * (card K + 1)" by (rule mult_le_mono1)
        with True Suc.prems(2) less show ?thesis by simp
      next
        case False
        with down [OF Suc.prems(1) _ visit] \<open>pre x = None \<and> _\<close> have "rank y \<le> rank x" by simp
        then have "rank y * (card K + 1) \<le> rank x * (card K + 1)" by (rule mult_le_mono1)
        with False Suc.prems(2) less show ?thesis by simp
      qed
      moreover have "y \<in> D" using closed [OF Suc.prems(1) _ visit] True by simp
      ultimately show ?thesis using Suc.IH by blast
    qed
    then have "all_opt (\<lambda>i. case i of Check b \<Rightarrow> Some b
        | Visit fresh y \<Rightarrow> cut_search n pre key items (path fresh seen') y) (items x) \<noteq> None"
      by (intro all_opt_returns) (auto split: item.split)
    with True show ?thesis unfolding seen'_def by simp
  qed
qed simp

text \<open>
  With nothing taken for granted the fixed point is reachability: an object holds if no
  object that can be visited from it fails at once or on a test.
\<close>

inductive visits :: "('a \<Rightarrow> bool option) \<Rightarrow> ('a \<Rightarrow> 'a item list) \<Rightarrow> 'a \<Rightarrow> 'a \<Rightarrow> bool"
  for pre items where
  refl: "visits pre items x x"
| visit: "visits pre items x y \<Longrightarrow> pre y = None \<Longrightarrow> Visit fresh z \<in> set (items y) \<Longrightarrow>
    visits pre items x z"

definition fails :: "('a \<Rightarrow> bool option) \<Rightarrow> ('a \<Rightarrow> 'a item list) \<Rightarrow> 'a \<Rightarrow> bool" where
  "fails pre items x \<longleftrightarrow> pre x = Some False \<or> pre x = None \<and> Check False \<in> set (items x)"

lemma holds_upto_reach:
  fixes key :: "'a \<Rightarrow> 'k option"
  shows "holds_upto pre key items {} x \<longleftrightarrow> \<not> (\<exists>y. visits pre items x y \<and> fails pre items y)"
proof
  assume holds: "holds_upto pre key items {} x"
  have "holds_upto pre key items {} y" if "visits pre items x y" for y
    using that holds
  proof induction
    case (visit x y fresh z)
    from holds_upto_parts(2) [OF visit.IH [OF visit.prems] visit.hyps(2) _ visit.hyps(3)]
    show ?case by (cases fresh) simp_all
  qed
  moreover have "\<not> fails pre items y" if "holds_upto pre key items {} y" for y
    using holds_upto_pre [OF that] holds_upto_parts(1) [OF that] by (auto simp: fails_def)
  ultimately show "\<not> (\<exists>y. visits pre items x y \<and> fails pre items y)" by blast
next
  assume clean: "\<not> (\<exists>y. visits pre items x y \<and> fails pre items y)"
  define R where "R S y \<longleftrightarrow> S = {} \<and> visits pre items x y" for S :: "'k set" and y
  have "holds_upto pre key items S y" if "R S y" for S y
    using that
  proof (coinduction arbitrary: S y rule: holds_upto.coinduct)
    case (holds_upto S y)
    then have y: "visits pre items x y" "S = {}" by (simp_all add: R_def)
    with clean have "\<not> fails pre items y" by blast
    moreover have "R (keep fresh {}) z" if "pre y = None" "Visit fresh z \<in> set (items y)" for fresh z
      using visits.visit [OF y(1) that] by (cases fresh) (simp_all add: R_def)
    ultimately show ?case by (auto simp: y(2) fails_def)
  qed
  moreover have "R {} x" by (simp add: R_def visits.refl)
  ultimately show "holds_upto pre key items {} x" by blast
qed

end
