(* ===== verification/Type_View.thy ===== *)
theory Type_View
  imports Types Cycle_Search
begin

text \<open>
  The read side of the type algebra: \<^verbatim>\<open>src/compiler/types/view.go\<close>, \<^verbatim>\<open>numeric.go\<close> and the queries
  \<^verbatim>\<open>IsInterface\<close>, \<^verbatim>\<open>IsFunction\<close> and \<^verbatim>\<open>methodKey\<close> of \<^verbatim>\<open>query.go\<close>.

  A view is a table, which may be nil, and a reference.  The table is read as a value: the
  index and the cache it may fill do not change what it answers (theory Types).  A
  predicate that recurses over the nodes carries fuel; \<open>None\<close> is the fuel running out.
\<close>

section \<open>Numeric types\<close>

datatype NumericKind = NumericSigned | NumericUnsigned | NumericFloat | NumericComplex

text \<open>\<open>None\<close> is \<^verbatim>\<open>(NumericInvalid, 0, false)\<close>.\<close>

fun primitiveNumericInfo :: "PrimitiveKind \<Rightarrow> (NumericKind \<times> nat) option" where
  "primitiveNumericInfo PrimitiveInt = Some (NumericSigned, 64)"
| "primitiveNumericInfo PrimitiveInt8 = Some (NumericSigned, 8)"
| "primitiveNumericInfo PrimitiveInt16 = Some (NumericSigned, 16)"
| "primitiveNumericInfo PrimitiveInt32 = Some (NumericSigned, 32)"
| "primitiveNumericInfo PrimitiveInt64 = Some (NumericSigned, 64)"
| "primitiveNumericInfo PrimitiveUint = Some (NumericUnsigned, 64)"
| "primitiveNumericInfo PrimitiveUint8 = Some (NumericUnsigned, 8)"
| "primitiveNumericInfo PrimitiveUint16 = Some (NumericUnsigned, 16)"
| "primitiveNumericInfo PrimitiveUint32 = Some (NumericUnsigned, 32)"
| "primitiveNumericInfo PrimitiveUint64 = Some (NumericUnsigned, 64)"
| "primitiveNumericInfo PrimitiveUintptr = Some (NumericUnsigned, 64)"
| "primitiveNumericInfo PrimitiveFloat32 = Some (NumericFloat, 32)"
| "primitiveNumericInfo PrimitiveFloat64 = Some (NumericFloat, 64)"
| "primitiveNumericInfo PrimitiveComplex64 = Some (NumericComplex, 64)"
| "primitiveNumericInfo PrimitiveComplex128 = Some (NumericComplex, 128)"
| "primitiveNumericInfo _ = None"

record NumericInfo =
  num_type :: TypeRef
  num_primitive :: PrimitiveKind
  num_kind :: NumericKind
  num_bits :: nat

definition table_underlying :: "TypeTable option \<Rightarrow> TypeRef \<Rightarrow> TypeRef" where
  "table_underlying table ref = (case table of None \<Rightarrow> ref | Some t \<Rightarrow> fst (Underlying ref t))"

definition table_node :: "TypeTable option \<Rightarrow> TypeRef \<Rightarrow> TypeNode option" where
  "table_node table ref = (case table of None \<Rightarrow> None | Some t \<Rightarrow> fst (nodeForRef ref t))"

definition NumericTypeInfo :: "TypeTable option \<Rightarrow> TypeRef \<Rightarrow> NumericInfo option" where
  "NumericTypeInfo table ref0 =
     (if \<not> Valid ref0 then None
      else
        (let ref = table_underlying table ref0 in
         if ref_kind ref \<noteq> KPrimitive then None
         else map_option (\<lambda>(kind, bits).
                  \<lparr>num_type = ref, num_primitive = ref_primitive ref, num_kind = kind, num_bits = bits\<rparr>)
                (primitiveNumericInfo (ref_primitive ref))))"

definition numeric_kind :: "TypeTable option \<Rightarrow> TypeRef \<Rightarrow> NumericKind option" where
  "numeric_kind table ref = map_option num_kind (NumericTypeInfo table ref)"

definition IsNumericType :: "TypeTable option \<Rightarrow> TypeRef \<Rightarrow> bool" where
  "IsNumericType table ref = (NumericTypeInfo table ref \<noteq> None)"

definition IsSignedIntegerType :: "TypeTable option \<Rightarrow> TypeRef \<Rightarrow> bool" where
  "IsSignedIntegerType table ref = (numeric_kind table ref = Some NumericSigned)"

definition IsUnsignedIntegerType :: "TypeTable option \<Rightarrow> TypeRef \<Rightarrow> bool" where
  "IsUnsignedIntegerType table ref = (numeric_kind table ref = Some NumericUnsigned)"

definition IsIntegerType :: "TypeTable option \<Rightarrow> TypeRef \<Rightarrow> bool" where
  "IsIntegerType table ref = (numeric_kind table ref \<in> {Some NumericSigned, Some NumericUnsigned})"

definition IsFloatType :: "TypeTable option \<Rightarrow> TypeRef \<Rightarrow> bool" where
  "IsFloatType table ref = (numeric_kind table ref = Some NumericFloat)"

definition IsComplexType :: "TypeTable option \<Rightarrow> TypeRef \<Rightarrow> bool" where
  "IsComplexType table ref = (numeric_kind table ref = Some NumericComplex)"

definition IsPrimitiveType :: "TypeTable option \<Rightarrow> TypeRef \<Rightarrow> bool" where
  "IsPrimitiveType table ref0 =
     (Valid ref0 \<and>
      (let ref = table_underlying table ref0 in
       ref_kind ref = KPrimitive \<and>
       (ref_primitive ref \<in> {PrimitiveBool, PrimitiveString} \<or> IsNumericType table ref)))"

section \<open>Queries on the table\<close>

definition blank_node_of :: "Kind \<Rightarrow> TypeNode" where
  "blank_node_of kind =
     \<lparr>node_id = [], node_kind = kind, node_name = [], node_primitive = PrimitiveInvalid,
      node_identity = TypeKey [] [], node_alias = False, node_alias_target = zero_ref,
      node_underlying = zero_ref, node_elem = zero_ref, node_key = zero_ref, node_length = 0,
      node_direction = ChannelInvalid, node_signature = None, node_tuple = [], node_fields = [],
      node_methods = [], node_terms = [], node_type_set = False, node_constraint = zero_ref,
      node_base = zero_ref, node_type_args = []\<rparr>"

definition IsInterface :: "TypeRef \<Rightarrow> TypeTable \<Rightarrow> TypeNode option" where
  "IsInterface ref t =
     (let u = fst (Underlying ref t) in
      if ref_kind ref = KNamed \<and> ref_kind u = KAny then Some (blank_node_of KInterface)
      else if ref_kind u \<noteq> KInterface then None
      else case fst (nodeForRef u t) of
             None \<Rightarrow> None
           | Some shape \<Rightarrow>
               (case if ref_kind ref = KNamed then fst (nodeForRef ref t) else None of
                  None \<Rightarrow> Some shape
                | Some named \<Rightarrow>
                    Some (if node_methods named \<noteq> [] then shape\<lparr>node_methods := node_methods named\<rparr>
                          else shape)))"

definition IsFunction :: "TypeRef \<Rightarrow> TypeTable \<Rightarrow> FunctionSignature option" where
  "IsFunction ref t =
     (let u = fst (Underlying ref t) in
      if ref_kind u \<noteq> KFunction \<or> ref_node u = [] then None
      else case fst (Node u t) of None \<Rightarrow> None | Some node \<Rightarrow> node_signature node)"

definition exported :: "string \<Rightarrow> bool" where
  "exported name = (CHR ''A'' \<le> hd name \<and> hd name \<le> CHR ''Z'')"

definition methodKey :: "type_method \<Rightarrow> string" where
  "methodKey m =
     (if tm_module_path m = [] \<or> tm_name m = [] \<or> exported (tm_name m) then tm_name m
      else tm_module_path m @ '':'' @ tm_name m)"

section \<open>Views\<close>

definition View_Shape :: "TypeTable option \<Rightarrow> TypeRef \<Rightarrow> Kind" where
  "View_Shape table ref =
     (if \<not> Valid ref then KInvalid
      else
        (let u = table_underlying table ref in
         if ref_kind ref = KNamed \<and> ref_kind u = KAny then KInterface else ref_kind u))"

definition View_IsNamed :: "TypeRef \<Rightarrow> bool" where
  "View_IsNamed ref = (ref_kind ref = KNamed)"

definition View_IsAlias :: "TypeTable option \<Rightarrow> TypeRef \<Rightarrow> bool" where
  "View_IsAlias table ref =
     (ref_kind ref = KNamed \<and> (case table_node table ref of None \<Rightarrow> False | Some node \<Rightarrow> node_alias node))"

definition View_Primitive :: "TypeTable option \<Rightarrow> TypeRef \<Rightarrow> PrimitiveKind option" where
  "View_Primitive table ref =
     (let u = table_underlying table ref in
      if ref_kind u \<noteq> KPrimitive then None else Some (ref_primitive u))"

definition underlyingNode :: "TypeTable option \<Rightarrow> TypeRef \<Rightarrow> TypeNode option" where
  "underlyingNode table ref = table_node table (table_underlying table ref)"

definition View_Constraint :: "TypeTable option \<Rightarrow> TypeRef \<Rightarrow> TypeRef option" where
  "View_Constraint table ref =
     (if ref_kind ref \<noteq> KTypeParameter then None
      else case table_node table ref of
             None \<Rightarrow> None
           | Some node \<Rightarrow>
               if node_kind node = KTypeParameter \<and> Valid (node_constraint node)
               then Some (node_constraint node) else None)"

definition View_TypeSetTerms :: "TypeTable option \<Rightarrow> TypeRef \<Rightarrow> TypeTerm list option" where
  "View_TypeSetTerms table ref =
     (case underlyingNode table ref of
        None \<Rightarrow> None
      | Some node \<Rightarrow>
          if node_kind node \<noteq> KInterface \<or> \<not> node_type_set node \<or> node_terms node = [] then None
          else Some (node_terms node))"

definition View_ComparableConstraint :: "TypeTable option \<Rightarrow> TypeRef \<Rightarrow> bool" where
  "View_ComparableConstraint table ref =
     (case underlyingNode table ref of
        None \<Rightarrow> False
      | Some node \<Rightarrow> node_kind node = KInterface \<and> node_type_set node \<and> node_name node = ''comparable'')"

definition View_Elem :: "TypeTable option \<Rightarrow> TypeRef \<Rightarrow> TypeRef option" where
  "View_Elem table ref =
     (case underlyingNode table ref of
        None \<Rightarrow> None
      | Some node \<Rightarrow>
          if node_kind node \<in> {KSlice, KPointer, KWaitable} \<and> Valid (node_elem node)
          then Some (node_elem node) else None)"

definition View_Array :: "TypeTable option \<Rightarrow> TypeRef \<Rightarrow> (int \<times> TypeRef) option" where
  "View_Array table ref =
     (case underlyingNode table ref of
        None \<Rightarrow> None
      | Some node \<Rightarrow>
          if node_kind node \<noteq> KArray \<or> \<not> Valid (node_elem node) then None
          else Some (node_length node, node_elem node))"

definition View_Map :: "TypeTable option \<Rightarrow> TypeRef \<Rightarrow> (TypeRef \<times> TypeRef) option" where
  "View_Map table ref =
     (case underlyingNode table ref of
        None \<Rightarrow> None
      | Some node \<Rightarrow>
          if node_kind node \<noteq> KMap \<or> \<not> Valid (node_key node) \<or> \<not> Valid (node_elem node) then None
          else Some (node_key node, node_elem node))"

definition View_Waitable :: "TypeTable option \<Rightarrow> TypeRef \<Rightarrow> (ChannelDir \<times> TypeRef) option" where
  "View_Waitable table ref =
     (case underlyingNode table ref of
        None \<Rightarrow> None
      | Some node \<Rightarrow>
          if node_kind node \<noteq> KWaitable \<or> \<not> Valid (node_elem node) then None
          else Some (node_direction node, node_elem node))"

definition View_Function :: "TypeTable option \<Rightarrow> TypeRef \<Rightarrow> FunctionSignature option" where
  "View_Function table ref =
     (if View_Primitive table ref = Some PrimitiveFunction
      then Some \<lparr>sig_params = [], sig_results = [], sig_variadic = False\<rparr>
      else case table of None \<Rightarrow> None | Some t \<Rightarrow> IsFunction ref t)"

definition View_StructFields :: "TypeTable option \<Rightarrow> TypeRef \<Rightarrow> struct_field list option" where
  "View_StructFields table ref =
     (case (case table_node table ref of
              None \<Rightarrow> None
            | Some node \<Rightarrow> if node_kind node = KNamed \<and> node_fields node \<noteq> []
                           then Some (node_fields node) else None) of
        Some fs \<Rightarrow> Some fs
      | None \<Rightarrow>
          (case underlyingNode table ref of
             None \<Rightarrow> None
           | Some node \<Rightarrow> if node_kind node \<noteq> KStruct then None else Some (node_fields node)))"

definition View_Interface ::
  "TypeTable option \<Rightarrow> TypeRef \<Rightarrow> (type_method list \<times> TypeTerm list \<times> bool) option" where
  "View_Interface table ref =
     (if ref_kind ref = KNamed \<and> ref_kind (table_underlying table ref) = KAny then Some ([], [], False)
      else case table of
             None \<Rightarrow> None
           | Some t \<Rightarrow>
               map_option (\<lambda>node. (node_methods node, node_terms node, node_type_set node))
                 (IsInterface ref t))"

definition View_Nilable :: "TypeTable option \<Rightarrow> TypeRef \<Rightarrow> bool" where
  "View_Nilable table ref =
     (Valid ref \<and>
      (ref_kind ref = KAny \<or>
       (case View_Primitive table ref of
          Some p \<Rightarrow> p \<in> {PrimitiveFunction, PrimitiveWaitToken, PrimitiveWaitSet}
        | None \<Rightarrow> View_Shape table ref \<in> {KSlice, KMap, KPointer, KWaitable, KFunction, KInterface})))"

definition View_Ordered :: "TypeTable option \<Rightarrow> TypeRef \<Rightarrow> bool" where
  "View_Ordered table ref =
     (case View_Primitive table ref of
        None \<Rightarrow> False
      | Some p \<Rightarrow>
          p = PrimitiveString \<or>
          (case primitiveNumericInfo p of None \<Rightarrow> False | Some (kind, _) \<Rightarrow> kind \<noteq> NumericComplex))"

section \<open>Comparable types\<close>

text \<open>\<open>seen\<close> are the nodes on the path to the reference, the last one first.\<close>

primrec comparable :: "nat \<Rightarrow> TypeTable option \<Rightarrow> bool \<Rightarrow> string list \<Rightarrow> TypeRef \<Rightarrow> bool option" where
  "comparable 0 table strict seen ref = None"
| "comparable (Suc n) table strict seen ref =
     (if \<not> Valid ref then Some False
      else if ref_kind ref = KAny then Some (\<not> strict)
      else case View_Primitive table ref of
             Some p \<Rightarrow> Some (p \<in> {PrimitiveBool, PrimitiveString} \<or> primitiveNumericInfo p \<noteq> None)
           | None \<Rightarrow>
               (let u = table_underlying table ref in
                if ref_node u \<noteq> [] \<and> ref_node u \<in> set seen then Some True
                else
                  (let seen' = (if ref_node u \<noteq> [] then ref_node u # seen else seen) in
                   case underlyingNode table ref of
                     None \<Rightarrow> Some False
                   | Some node \<Rightarrow>
                       if node_kind node \<in> {KPointer, KWaitable} then Some True
                       else if node_kind node = KInterface then Some (\<not> strict)
                       else if node_kind node = KArray
                       then comparable n table strict seen' (node_elem node)
                       else if node_kind node = KStruct
                       then all_opt (\<lambda>f. comparable n table strict seen' (sf_type f)) (node_fields node)
                       else Some False)))"

definition View_Comparable :: "nat \<Rightarrow> TypeTable option \<Rightarrow> TypeRef \<Rightarrow> bool option" where
  "View_Comparable n table ref = comparable n table False [] ref"

definition View_StrictlyComparable :: "nat \<Rightarrow> TypeTable option \<Rightarrow> TypeRef \<Rightarrow> bool option" where
  "View_StrictlyComparable n table ref = comparable n table True [] ref"


section \<open>Comparability as a search\<close>

definition cmp_pre :: "TypeTable option \<Rightarrow> bool \<Rightarrow> TypeRef \<Rightarrow> bool option" where
  "cmp_pre table strict ref =
     (if \<not> Valid ref then Some False
      else if ref_kind ref = KAny then Some (\<not> strict)
      else map_option (\<lambda>p. p \<in> {PrimitiveBool, PrimitiveString} \<or> primitiveNumericInfo p \<noteq> None)
             (View_Primitive table ref))"

definition cmp_key :: "TypeTable option \<Rightarrow> TypeRef \<Rightarrow> string option" where
  "cmp_key table ref =
     (let u = table_underlying table ref in if ref_node u = [] then None else Some (ref_node u))"

definition cmp_parts :: "TypeNode \<Rightarrow> TypeRef list" where
  "cmp_parts node =
     (case node_kind node of
        KArray \<Rightarrow> [node_elem node] | KStruct \<Rightarrow> map sf_type (node_fields node) | _ \<Rightarrow> [])"

definition cmp_leaf :: "bool \<Rightarrow> TypeNode \<Rightarrow> bool" where
  "cmp_leaf strict node =
     (case node_kind node of
        KPointer \<Rightarrow> True | KWaitable \<Rightarrow> True | KInterface \<Rightarrow> \<not> strict
      | KArray \<Rightarrow> True | KStruct \<Rightarrow> True | _ \<Rightarrow> False)"

definition cmp_items :: "TypeTable option \<Rightarrow> bool \<Rightarrow> TypeRef \<Rightarrow> TypeRef item list" where
  "cmp_items table strict ref =
     (case underlyingNode table ref of
        None \<Rightarrow> [Check False]
      | Some node \<Rightarrow> Check (cmp_leaf strict node) # map (Visit False) (cmp_parts node))"

lemma comparable_search:
  "comparable n table strict seen ref =
   cut_search n (cmp_pre table strict) (cmp_key table) (cmp_items table strict) seen ref"
proof (induction n arbitrary: seen ref)
  case (Suc n)
  show ?case
  proof (cases "cmp_pre table strict ref")
    case (Some b)
    then show ?thesis by (auto simp: cmp_pre_def split: if_splits)
  next
    case None
    then have pre: "Valid ref" "ref_kind ref \<noteq> KAny" "View_Primitive table ref = None"
      by (auto simp: cmp_pre_def split: if_splits)
    have key: "cmp_key table ref \<in> Some ` set seen \<longleftrightarrow>
        ref_node (table_underlying table ref) \<noteq> [] \<and> ref_node (table_underlying table ref) \<in> set seen"
      by (auto simp: cmp_key_def Let_def)
    have path: "(case cmp_key table ref of None \<Rightarrow> seen | Some k \<Rightarrow> k # seen) =
        (if ref_node (table_underlying table ref) \<noteq> [] then ref_node (table_underlying table ref) # seen
         else seen)"
      by (simp add: cmp_key_def Let_def)
    show ?thesis
    proof (cases "underlyingNode table ref")
      case None
      then show ?thesis using pre \<open>cmp_pre table strict ref = None\<close> key
        by (simp add: cmp_items_def Let_def)
    next
      case (Some node)
      then show ?thesis using pre \<open>cmp_pre table strict ref = None\<close> key path
        by (cases "node_kind node")
          (simp_all add: cmp_items_def cmp_leaf_def cmp_parts_def Let_def Suc.IH all_opt_map)
    qed
  qed
qed simp

lemma table_node_by_id: "ref_node r \<noteq> [] \<Longrightarrow> ref_node r = ref_node s \<Longrightarrow> table_node table r = table_node table s"
  by (cases table) (auto simp: table_node_def nodeForRef_def Node_def split: option.split prod.split)

interpretation cmp: keyed_search "cmp_pre table strict" "cmp_key table" "cmp_items table strict"
  for table strict
proof
  fix x y k
  assume "cmp_key table x = Some k" and "cmp_key table y = Some k"
  then have "underlyingNode table x = underlyingNode table y"
    by (auto simp: cmp_key_def underlyingNode_def Let_def intro: table_node_by_id split: if_splits)
  then show "cmp_items table strict x = cmp_items table strict y" by (simp add: cmp_items_def)
qed

text \<open>Parts: the element of an array and the fields of a struct, through the underlying types.\<close>

inductive part_of :: "TypeTable option \<Rightarrow> TypeRef \<Rightarrow> TypeRef \<Rightarrow> bool" for table where
  self: "part_of table ref ref"
| part: "part_of table ref r \<Longrightarrow> Valid r \<Longrightarrow> ref_kind r \<noteq> KAny \<Longrightarrow> View_Primitive table r = None \<Longrightarrow>
    underlyingNode table r = Some node \<Longrightarrow> c \<in> set (cmp_parts node) \<Longrightarrow> part_of table ref c"

definition incomparable :: "TypeTable option \<Rightarrow> bool \<Rightarrow> TypeRef \<Rightarrow> bool" where
  "incomparable table strict ref =
     (\<not> Valid ref \<or>
      (if ref_kind ref = KAny then strict
       else case View_Primitive table ref of
              Some p \<Rightarrow> p \<notin> {PrimitiveBool, PrimitiveString} \<and> primitiveNumericInfo p = None
            | None \<Rightarrow>
                (case underlyingNode table ref of
                   None \<Rightarrow> True | Some node \<Rightarrow> \<not> cmp_leaf strict node)))"

lemma cmp_pre_None:
  "cmp_pre table strict r = None \<longleftrightarrow> Valid r \<and> ref_kind r \<noteq> KAny \<and> View_Primitive table r = None"
  by (auto simp: cmp_pre_def)

lemma cmp_items_visit:
  "Visit fresh c \<in> set (cmp_items table strict r) \<longleftrightarrow>
   \<not> fresh \<and> (\<exists>node. underlyingNode table r = Some node \<and> c \<in> set (cmp_parts node))"
  by (auto simp: cmp_items_def split: option.split)

lemma part_of_visits: "visits (cmp_pre table strict) (cmp_items table strict) ref r \<longleftrightarrow> part_of table ref r"
proof
  show "visits (cmp_pre table strict) (cmp_items table strict) ref r \<Longrightarrow> part_of table ref r"
  proof (induction rule: visits.induct)
    case (visit x y fresh z)
    then show ?case unfolding cmp_pre_None cmp_items_visit by (blast intro: part_of.part)
  qed (rule part_of.self)
  show "part_of table ref r \<Longrightarrow> visits (cmp_pre table strict) (cmp_items table strict) ref r"
  proof (induction rule: part_of.induct)
    case (part ref r node c)
    then have "cmp_pre table strict r = None" and "Visit False c \<in> set (cmp_items table strict r)"
      unfolding cmp_pre_None cmp_items_visit by blast+
    with part.IH show ?case by (rule visits.visit)
  qed (rule visits.refl)
qed

lemma not_numeric: "(\<forall>kind bits. primitiveNumericInfo p \<noteq> Some (kind, bits)) \<longleftrightarrow> primitiveNumericInfo p = None"
  by (cases "primitiveNumericInfo p") auto

lemma incomparable_fails: "fails (cmp_pre table strict) (cmp_items table strict) r \<longleftrightarrow> incomparable table strict r"
  by (cases "View_Primitive table r"; cases "underlyingNode table r")
    (auto simp: fails_def incomparable_def cmp_pre_def cmp_items_def not_numeric)

text \<open>
  A struct or an array that carries the identity of a named type can be reached by its name
  alone, and then no node id stops the recursion.
\<close>

definition anonymous_composites :: "TypeTable \<Rightarrow> bool" where
  "anonymous_composites t =
     list_all (\<lambda>n. node_kind n \<in> {KArray, KStruct} \<longrightarrow> emptyTypeKey (node_identity n)) (Nodes t)"

lemma comparable_returns:
  assumes "indexed t" and "anonymous_composites t" and "length (Nodes t) < n"
  shows "comparable n (Some t) strict [] ref \<noteq> None"
proof -
  have node: "\<exists>k \<in> node_id ` set (Nodes t). cmp_key (Some t) x = Some k"
    if part: "Visit fresh c \<in> set (cmp_items (Some t) strict x)" for fresh c x
  proof -
    obtain node where node: "underlyingNode (Some t) x = Some node" "c \<in> set (cmp_parts node)"
      using part cmp_items_visit by blast
    then have kind: "node_kind node \<in> {KArray, KStruct}"
      by (auto simp: cmp_parts_def split: Kind.splits)
    define u where "u = table_underlying (Some t) x"
    have found: "lookup_ref (Nodes t) u = Some node"
      using node(1) assms(1) by (simp add: underlyingNode_def u_def table_node_def nodeForRef_indexed)
    then have mem: "node \<in> set (Nodes t)" by (rule lookup_ref_in)
    have "ref_node u \<noteq> []"
    proof
      assume "ref_node u = []"
      with found have "ref_kind u = KNamed" "\<not> emptyTypeKey (ref_named u)" "node_identity node = ref_named u"
        by (auto simp: lookup_ref_def find_Some_iff split: if_splits)
      with mem kind assms(2) show False by (auto simp: anonymous_composites_def list_all_iff)
    qed
    moreover from this found have "node_id node = ref_node u"
      by (auto simp: lookup_ref_def find_node_def find_Some_iff split: if_splits)
    moreover from this have "ref_node u \<in> node_id ` set (Nodes t)" using mem by (metis imageI)
    ultimately show ?thesis by (simp add: cmp_key_def Let_def u_def [symmetric])
  qed
  have "card (node_id ` set (Nodes t)) \<le> length (Nodes t)"
    by (meson card_image_le card_length finite_set le_trans)
  with assms(3) show ?thesis
    unfolding comparable_search
  proof (intro search_returns [where D = UNIV and K = "node_id ` set (Nodes t)" and rank = "\<lambda>_. 0"])
    show "\<exists>k \<in> node_id ` set (Nodes t). cmp_key (Some t) x = Some k"
      if "Visit fresh y \<in> set (cmp_items (Some t) strict x)" for x fresh y
      using node [OF that] .
  qed (auto simp: cmp_items_visit)
qed


section \<open>A sample table\<close>

text \<open>A struct of an array of the struct: the cycle is cut and the type is comparable.\<close>

definition array_node :: TypeNode where
  "array_node = (blank_node_of KArray)
     \<lparr>node_id := ''a'', node_elem := zero_ref\<lparr>ref_kind := KStruct, ref_node := ''s''\<rparr>\<rparr>"

definition struct_node :: TypeNode where
  "struct_node = (blank_node_of KStruct)
     \<lparr>node_id := ''s'',
      node_fields := [\<lparr>sf_name = ''f'', sf_type = zero_ref\<lparr>ref_kind := KArray, ref_node := ''a''\<rparr>,
                       sf_tag = [], sf_embedded = False\<rparr>]\<rparr>"

definition cyclic_table :: TypeTable where
  "cyclic_table = snd (index \<lparr>Nodes = [array_node, struct_node], byID = Map.empty,
     byName = Map.empty, owned = False, underlying_cache = Map.empty\<rparr>)"

lemma cyclic_table_indexed: "indexed cyclic_table" and cyclic_table_nodes: "Nodes cyclic_table = [array_node, struct_node]"
proof -
  let ?t = "\<lparr>Nodes = [array_node, struct_node], byID = Map.empty, byName = Map.empty, owned = False,
      underlying_cache = Map.empty\<rparr>"
  have "index ?t = (None, cyclic_table)"
    by (simp add: cyclic_table_def index_def array_node_def struct_node_def blank_node_of_def emptyTypeKey_def)
  from index_ok [OF this] show "indexed cyclic_table" and "Nodes cyclic_table = [array_node, struct_node]"
    by simp_all
qed


text \<open>
  The validation of a table accepts a struct with an identity of its own that has itself as a
  field, by its name.  \<^verbatim>\<open>Comparable\<close> calls itself on it for ever.
\<close>

definition self_ref :: TypeRef where
  "self_ref = zero_ref\<lparr>ref_kind := KNamed, ref_named := TypeKey ''m'' ''T''\<rparr>"

definition self_node :: TypeNode where
  "self_node = (blank_node_of KStruct)
     \<lparr>node_id := ''s'', node_identity := TypeKey ''m'' ''T'',
      node_fields := [\<lparr>sf_name = ''f'', sf_type = self_ref, sf_tag = [], sf_embedded = False\<rparr>]\<rparr>"

definition self_table :: TypeTable where
  "self_table = \<lparr>Nodes = [self_node], byID = [''s'' \<mapsto> 0], byName = [TypeKey ''m'' ''T'' \<mapsto> ''s''],
     owned = True, underlying_cache = Map.empty\<rparr>"

lemma self_table_validated: "fst (the (ValidateTable self_table)) = None"
  by code_simp

lemma comparable_diverges: "View_Comparable n (Some self_table) self_ref = None"
proof -
  have facts: "Valid self_ref" "ref_kind self_ref \<noteq> KAny" "View_Primitive (Some self_table) self_ref = None"
    "table_underlying (Some self_table) self_ref = self_ref" "ref_node self_ref = []"
    "underlyingNode (Some self_table) self_ref = Some self_node"
    by code_simp+
  have "comparable n (Some self_table) False seen self_ref = None" for seen
    by (induction n) (use facts in \<open>simp_all add: Let_def self_node_def blank_node_of_def\<close>)
  then show ?thesis by (simp add: View_Comparable_def)
qed

end
