(* ===== verification/Relations.thy ===== *)
theory Relations
  imports Type_View
begin

text \<open>
  The relations between types: \<^verbatim>\<open>src/compiler/types/relations.go\<close>.  Identity is decided by a
  search over pairs of references that cuts cycles with the pairs on its path; the
  comparison of two signatures starts with an empty path.

  A result is its code, \<open>RelationOK\<close> for a relation that holds.  The recursive functions
  carry fuel; \<open>None\<close> is the fuel running out.
\<close>

section \<open>Results\<close>

datatype RelationCode =
    RelationOK | RelationInvalid | RelationNotIdentical | RelationUnderlyingMismatch
  | RelationBothTypesNamed | RelationNotAssignable | RelationInterfaceTypeSet
  | RelationMissingMethod | RelationMethodSignatureMismatch | RelationSignatureArityMismatch
  | RelationSignatureVariadicMismatch | RelationNotNilable | RelationNotComparable
  | RelationNotStrictlyComparable | RelationNotOrdered

record Relations =
  rel_table :: "TypeTable option"
  rel_ignoreTags :: bool

definition NewRelations :: "TypeTable option \<Rightarrow> Relations" where
  "NewRelations table = \<lparr>rel_table = table, rel_ignoreTags = False\<rparr>"

definition ok :: "RelationCode option \<Rightarrow> bool option" where
  "ok = map_option (\<lambda>c. c = RelationOK)"

section \<open>Lookups\<close>

definition rel_nodeForRef :: "Relations \<Rightarrow> TypeRef \<Rightarrow> TypeNode option" where
  "rel_nodeForRef r ref = table_node (rel_table r) ref"

definition rel_underlying :: "Relations \<Rightarrow> TypeRef \<Rightarrow> TypeRef" where
  "rel_underlying r ref = table_underlying (rel_table r) ref"

text \<open>
  The loop of \<^verbatim>\<open>aliasTarget\<close>; \<open>None\<close> is the fuel running out, which does not happen: an
  iteration that goes on has seen one more node of the table.
\<close>

fun alias_walk :: "nat \<Rightarrow> Relations \<Rightarrow> TypeRef \<Rightarrow> string list \<Rightarrow> TypeRef \<Rightarrow> TypeRef option" where
  "alias_walk 0 r start seen ref = None"
| "alias_walk (Suc n) r start seen ref =
     (case rel_nodeForRef r ref of
        None \<Rightarrow> Some ref
      | Some node \<Rightarrow>
          if \<not> node_alias node \<or> \<not> Valid (node_alias_target node) then Some ref
          else if node_id node \<in> set seen then Some start
          else alias_walk n r start (node_id node # seen) (node_alias_target node))"

definition walk_fuel :: "Relations \<Rightarrow> nat" where
  "walk_fuel r = (case rel_table r of None \<Rightarrow> 0 | Some t \<Rightarrow> length (Nodes t)) + 2"

definition aliasTarget :: "Relations \<Rightarrow> TypeRef \<Rightarrow> TypeRef" where
  "aliasTarget r ref = (case alias_walk (walk_fuel r) r ref [] ref of None \<Rightarrow> ref | Some u \<Rightarrow> u)"

definition ResolveAlias :: "Relations \<Rightarrow> TypeRef \<Rightarrow> TypeRef" where
  "ResolveAlias r ref = aliasTarget r ref"

definition typeKey :: "Relations \<Rightarrow> TypeRef \<Rightarrow> TypeKey" where
  "typeKey r ref =
     (case rel_nodeForRef r ref of
        None \<Rightarrow> ref_named ref
      | Some node \<Rightarrow> if emptyTypeKey (node_identity node) then ref_named ref else node_identity node)"

definition isNamed :: "Relations \<Rightarrow> TypeRef \<Rightarrow> bool" where
  "isNamed r ref = (ref_kind (aliasTarget r ref) = KNamed)"

definition interfaceNode :: "Relations \<Rightarrow> TypeRef \<Rightarrow> TypeNode option" where
  "interfaceNode r ref = (case rel_table r of None \<Rightarrow> None | Some t \<Rightarrow> IsInterface ref t)"

definition functionSignature :: "Relations \<Rightarrow> TypeRef \<Rightarrow> FunctionSignature option" where
  "functionSignature r ref = (case rel_table r of None \<Rightarrow> None | Some t \<Rightarrow> IsFunction ref t)"

definition waitableInfo :: "Relations \<Rightarrow> TypeRef \<Rightarrow> (ChannelDir \<times> TypeRef) option" where
  "waitableInfo r ref0 =
     (let ref = rel_underlying r ref0 in
      if ref_kind ref \<noteq> KWaitable \<or> ref_node ref = [] then None
      else map_option (\<lambda>node. (node_direction node, node_elem node)) (rel_nodeForRef r ref))"

section \<open>Identity\<close>

text \<open>
  The parts of the recursion take it as an argument: \<open>here\<close> keeps the current path,
  \<open>afresh\<close> starts with an empty one.
\<close>

type_synonym decide = "TypeRef \<Rightarrow> TypeRef \<Rightarrow> bool option"

definition Identical_by :: "decide \<Rightarrow> TypeRef \<Rightarrow> TypeRef \<Rightarrow> RelationCode option" where
  "Identical_by afresh left right =
     (if \<not> Valid left \<or> \<not> Valid right then Some RelationInvalid
      else map_option (\<lambda>b. if b then RelationOK else RelationNotIdentical) (afresh left right))"

definition SignatureIdentical_by ::
  "decide \<Rightarrow> FunctionSignature \<Rightarrow> FunctionSignature \<Rightarrow> RelationCode option" where
  "SignatureIdentical_by afresh left right =
     (if sig_variadic left \<noteq> sig_variadic right then Some RelationSignatureVariadicMismatch
      else if length (sig_params left) \<noteq> length (sig_params right) \<or>
              length (sig_results left) \<noteq> length (sig_results right)
      then Some RelationSignatureArityMismatch
      else map_option (\<lambda>b. if b then RelationOK else RelationNotIdentical)
             (and_opt
                (all_opt (\<lambda>(x, y). ok (Identical_by afresh x y)) (zip (sig_params left) (sig_params right)))
                (all_opt (\<lambda>(x, y). ok (Identical_by afresh x y)) (zip (sig_results left) (sig_results right)))))"

definition identicalFields ::
  "bool \<Rightarrow> decide \<Rightarrow> struct_field list \<Rightarrow> struct_field list \<Rightarrow> bool option" where
  "identicalFields ignoreTags here left right =
     (if length left \<noteq> length right then Some False
      else all_opt (\<lambda>(f, g).
             and_opt
               (Some (sf_name f = sf_name g \<and> (ignoreTags \<or> sf_tag f = sf_tag g) \<and>
                      sf_embedded f = sf_embedded g))
               (here (sf_type f) (sf_type g)))
           (zip left right))"

definition identicalInterface :: "decide \<Rightarrow> decide \<Rightarrow> TypeNode \<Rightarrow> TypeNode \<Rightarrow> bool option" where
  "identicalInterface here afresh left right =
     (if node_type_set left \<noteq> node_type_set right \<or>
         length (node_methods left) \<noteq> length (node_methods right) \<or>
         length (node_terms left) \<noteq> length (node_terms right)
      then Some False
      else and_opt
        (all_opt (\<lambda>(m, k).
             and_opt (Some (methodKey m = methodKey k))
               (ok (SignatureIdentical_by afresh (tm_signature m) (tm_signature k))))
           (zip (node_methods left) (node_methods right)))
        (all_opt (\<lambda>(x, y).
             and_opt (Some (term_approx x = term_approx y \<and> term_union x = term_union y))
               (here (term_type x) (term_type y)))
           (zip (node_terms left) (node_terms right))))"

definition identicalNode :: "bool \<Rightarrow> decide \<Rightarrow> decide \<Rightarrow> TypeNode \<Rightarrow> TypeNode \<Rightarrow> bool option" where
  "identicalNode ignoreTags here afresh left right =
     (if node_kind left \<noteq> node_kind right then Some False
      else case node_kind left of
             KSlice \<Rightarrow> here (node_elem left) (node_elem right)
           | KPointer \<Rightarrow> here (node_elem left) (node_elem right)
           | KArray \<Rightarrow>
               and_opt (Some (0 \<le> node_length left \<and> 0 \<le> node_length right \<and>
                              node_length left = node_length right))
                 (here (node_elem left) (node_elem right))
           | KMap \<Rightarrow>
               and_opt (here (node_key left) (node_key right)) (here (node_elem left) (node_elem right))
           | KWaitable \<Rightarrow>
               and_opt (Some (node_direction left = node_direction right))
                 (here (node_elem left) (node_elem right))
           | KFunction \<Rightarrow>
               (case (node_signature left, node_signature right) of
                  (Some s, Some s') \<Rightarrow> ok (SignatureIdentical_by afresh s s')
                | _ \<Rightarrow> Some (node_signature left = None \<and> node_signature right = None))
           | KTuple \<Rightarrow>
               (if length (node_tuple left) \<noteq> length (node_tuple right) then Some False
                else all_opt (\<lambda>(x, y). here x y) (zip (node_tuple left) (node_tuple right)))
           | KStruct \<Rightarrow> identicalFields ignoreTags here (node_fields left) (node_fields right)
           | KInterface \<Rightarrow> identicalInterface here afresh left right
           | _ \<Rightarrow> Some False)"

primrec identical ::
  "nat \<Rightarrow> Relations \<Rightarrow> (TypeRef \<times> TypeRef) list \<Rightarrow> TypeRef \<Rightarrow> TypeRef \<Rightarrow> bool option" where
  "identical 0 r seen left0 right0 = None"
| "identical (Suc n) r seen left0 right0 =
     (let left = aliasTarget r left0; right = aliasTarget r right0 in
      if left = right then Some True
      else if ref_kind left \<noteq> ref_kind right then Some False
      else if (left, right) \<in> set seen then Some True
      else if ref_kind left = KNamed then Some (typeKey r left = typeKey r right)
      else case (rel_nodeForRef r left, rel_nodeForRef r right) of
             (None, None) \<Rightarrow> Some (left = right)
           | (Some leftNode, Some rightNode) \<Rightarrow>
               identicalNode (rel_ignoreTags r) (\<lambda>x y. identical n r ((left, right) # seen) x y)
                 (\<lambda>x y. identical n r [] x y) leftNode rightNode
           | _ \<Rightarrow> Some False)"

definition Identical :: "nat \<Rightarrow> Relations \<Rightarrow> TypeRef \<Rightarrow> TypeRef \<Rightarrow> RelationCode option" where
  "Identical n r left right = Identical_by (identical n r []) left right"

definition SignatureIdentical ::
  "nat \<Rightarrow> Relations \<Rightarrow> FunctionSignature \<Rightarrow> FunctionSignature \<Rightarrow> RelationCode option" where
  "SignatureIdentical n r left right = SignatureIdentical_by (identical n r []) left right"

definition UnderlyingIdentical :: "nat \<Rightarrow> Relations \<Rightarrow> TypeRef \<Rightarrow> TypeRef \<Rightarrow> RelationCode option" where
  "UnderlyingIdentical n r left right =
     (if \<not> Valid left \<or> \<not> Valid right then Some RelationInvalid
      else map_option (\<lambda>b. if b then RelationOK else RelationUnderlyingMismatch)
             (identical n r [] (rel_underlying r left) (rel_underlying r right)))"

definition UnderlyingIdenticalIgnoringTags ::
  "nat \<Rightarrow> Relations \<Rightarrow> TypeRef \<Rightarrow> TypeRef \<Rightarrow> RelationCode option" where
  "UnderlyingIdenticalIgnoringTags n r left right =
     UnderlyingIdentical n \<lparr>rel_table = rel_table r, rel_ignoreTags = True\<rparr> left right"

section \<open>Method sets\<close>

definition methodSetBase :: "Relations \<Rightarrow> TypeRef \<Rightarrow> TypeRef \<times> bool" where
  "methodSetBase r ref0 =
     (let ref = aliasTarget r ref0; pointer = (View_Shape (rel_table r) ref = KPointer) in
      (case if pointer then View_Elem (rel_table r) ref else None of
         None \<Rightarrow> ref | Some elem \<Rightarrow> aliasTarget r elem, pointer))"

definition directMethodSet :: "Relations \<Rightarrow> TypeRef \<Rightarrow> bool \<Rightarrow> type_method list" where
  "directMethodSet r ref pointer =
     (case rel_nodeForRef r (aliasTarget r ref) of
        None \<Rightarrow> []
      | Some node \<Rightarrow>
          filter (\<lambda>m. \<not> (Valid (tm_receiver m) \<and> \<not> pointer \<and>
                         View_Shape (rel_table r) (tm_receiver m) = KPointer))
            (node_methods node))"

definition embeddedMethodSetFields :: "Relations \<Rightarrow> TypeRef \<Rightarrow> struct_field list" where
  "embeddedMethodSetFields r ref =
     (case View_StructFields (rel_table r) (aliasTarget r ref) of
        None \<Rightarrow> [] | Some fs \<Rightarrow> filter sf_embedded fs)"

record frontierItem =
  fi_typ :: TypeRef
  fi_pointer :: bool
  fi_seen :: "TypeRef list"

definition next_items :: "Relations \<Rightarrow> frontierItem \<Rightarrow> frontierItem list" where
  "next_items r item =
     concat (map (\<lambda>field.
         (case methodSetBase r (sf_type field) of
            (base, pointer) \<Rightarrow>
              if base \<in> set (fi_seen item) then []
              else [\<lparr>fi_typ = base, fi_pointer = pointer \<or> fi_pointer item,
                     fi_seen = base # fi_seen item\<rparr>]))
       (embeddedMethodSetFields r (fi_typ item)))"

text \<open>
  The candidates of one depth as the list of their keys and signatures in order: the map
  \<^verbatim>\<open>counts\<close> is how often a key occurs, the map \<^verbatim>\<open>candidates\<close> holds the last signature.
  A key that is available already is passed over.  At depth 0 nothing is available, so the
  removal of doubled keys there finds none.
\<close>

definition level_candidates ::
  "Relations \<Rightarrow> (string \<rightharpoonup> FunctionSignature) \<Rightarrow> frontierItem list \<Rightarrow> (string \<times> FunctionSignature) list"
where
  "level_candidates r available frontier =
     filter (\<lambda>(key, _). available key = None)
       (map (\<lambda>m. (methodKey m, tm_signature m))
          (concat (map (\<lambda>item. directMethodSet r (fi_typ item) (fi_pointer item)) frontier)))"

definition add_candidates ::
  "(string \<times> FunctionSignature) list \<Rightarrow> (string \<rightharpoonup> FunctionSignature) \<Rightarrow> (string \<rightharpoonup> FunctionSignature)"
where
  "add_candidates candidates available =
     (\<lambda>key. if length (filter (\<lambda>c. fst c = key) candidates) = 1 then map_of candidates key
            else available key)"

fun method_levels ::
  "nat \<Rightarrow> Relations \<Rightarrow> frontierItem list \<Rightarrow> (string \<rightharpoonup> FunctionSignature) \<Rightarrow>
   (string \<rightharpoonup> FunctionSignature) option" where
  "method_levels n r [] available = Some available"
| "method_levels 0 r (item # items) available = None"
| "method_levels (Suc n) r (item # items) available =
     method_levels n r (concat (map (next_items r) (item # items)))
       (add_candidates (level_candidates r available (item # items)) available)"

definition interface_methods :: "TypeNode \<Rightarrow> (string \<rightharpoonup> FunctionSignature)" where
  "interface_methods node = map_of (rev (map (\<lambda>m. (methodKey m, tm_signature m)) (node_methods node)))"

definition methodSet :: "nat \<Rightarrow> Relations \<Rightarrow> TypeRef \<Rightarrow> TypeNode option \<Rightarrow> (string \<rightharpoonup> FunctionSignature) option" where
  "methodSet n r source sourceNode =
     (case sourceNode of
        Some node \<Rightarrow> Some (interface_methods node)
      | None \<Rightarrow>
          (case methodSetBase r source of
             (base, pointer) \<Rightarrow>
               method_levels n r [\<lparr>fi_typ = base, fi_pointer = pointer, fi_seen = [base]\<rparr>] Map.empty))"

section \<open>Implementation and assignability\<close>

fun check_methods ::
  "nat \<Rightarrow> Relations \<Rightarrow> (string \<rightharpoonup> FunctionSignature) \<Rightarrow> type_method list \<Rightarrow> RelationCode option" where
  "check_methods n r available [] = Some RelationOK"
| "check_methods n r available (m # ms) =
     (case available (methodKey m) of
        None \<Rightarrow> Some RelationMissingMethod
      | Some candidate \<Rightarrow>
          (case ok (SignatureIdentical n r candidate (tm_signature m)) of
             None \<Rightarrow> None
           | Some False \<Rightarrow> Some RelationMethodSignatureMismatch
           | Some True \<Rightarrow> check_methods n r available ms))"

definition Implements :: "nat \<Rightarrow> Relations \<Rightarrow> TypeRef \<Rightarrow> TypeRef \<Rightarrow> RelationCode option" where
  "Implements n r source target =
     (if \<not> Valid source \<or> \<not> Valid target then Some RelationInvalid
      else if ref_kind target = KAny then Some RelationOK
      else case interfaceNode r target of
             None \<Rightarrow> Some RelationNotAssignable
           | Some targetNode \<Rightarrow>
               if node_type_set targetNode then Some RelationInterfaceTypeSet
               else
                 (let sourceNode = interfaceNode r source in
                  if (case sourceNode of None \<Rightarrow> False | Some node \<Rightarrow> node_type_set node)
                  then Some RelationInterfaceTypeSet
                  else case methodSet n r source sourceNode of
                         None \<Rightarrow> None
                       | Some available \<Rightarrow> check_methods n r available (node_methods targetNode)))"

definition bind_ok :: "RelationCode option \<Rightarrow> (bool \<Rightarrow> RelationCode option) \<Rightarrow> RelationCode option" where
  "bind_ok c k = (case ok c of None \<Rightarrow> None | Some b \<Rightarrow> k b)"

definition waitable_assignable ::
  "nat \<Rightarrow> Relations \<Rightarrow> TypeRef \<Rightarrow> TypeRef \<Rightarrow> RelationCode option" where
  "waitable_assignable n r source target =
     (case (waitableInfo r source, waitableInfo r target) of
        (Some (direction, elem), Some (_, elem')) \<Rightarrow>
          if direction \<noteq> ChannelBoth then Some RelationNotAssignable
          else bind_ok (Identical n r elem elem') (\<lambda>same.
                 Some (if same \<and> (\<not> isNamed r source \<or> \<not> isNamed r target) then RelationOK
                       else RelationNotAssignable))
      | _ \<Rightarrow> Some RelationNotAssignable)"

definition Assignable :: "nat \<Rightarrow> Relations \<Rightarrow> TypeRef \<Rightarrow> TypeRef \<Rightarrow> RelationCode option" where
  "Assignable n r source target =
     (if \<not> Valid source \<or> \<not> Valid target then Some RelationInvalid
      else if ref_kind target = KAny then Some RelationOK
      else bind_ok (Identical n r source target) (\<lambda>same.
        if same then Some RelationOK
        else if (case interfaceNode r target of None \<Rightarrow> False | Some node \<Rightarrow> \<not> node_type_set node)
        then Implements n r source target
        else if interfaceNode r source \<noteq> None then Some RelationNotAssignable
        else bind_ok (UnderlyingIdentical n r source target) (\<lambda>underlying.
          if underlying then
            Some (if \<not> isNamed r source \<or> \<not> isNamed r target then RelationOK
                  else RelationBothTypesNamed)
          else
            (case (functionSignature r source, functionSignature r target) of
               (None, None) \<Rightarrow> waitable_assignable n r source target
             | (Some s, Some s') \<Rightarrow>
                 bind_ok (SignatureIdentical n r s s') (\<lambda>same.
                   Some (if same then RelationOK else RelationNotAssignable))
             | _ \<Rightarrow> Some RelationNotAssignable))))"

definition relation_of :: "RelationCode \<Rightarrow> bool \<Rightarrow> RelationCode" where
  "relation_of code b = (if b then RelationOK else code)"

definition NilAssignable :: "Relations \<Rightarrow> TypeRef \<Rightarrow> RelationCode" where
  "NilAssignable r target = relation_of RelationNotNilable (View_Nilable (rel_table r) target)"

definition Comparable :: "nat \<Rightarrow> Relations \<Rightarrow> TypeRef \<Rightarrow> RelationCode option" where
  "Comparable n r ref = map_option (relation_of RelationNotComparable) (View_Comparable n (rel_table r) ref)"

definition StrictlyComparable :: "nat \<Rightarrow> Relations \<Rightarrow> TypeRef \<Rightarrow> RelationCode option" where
  "StrictlyComparable n r ref =
     map_option (relation_of RelationNotStrictlyComparable) (View_StrictlyComparable n (rel_table r) ref)"

definition MapKeyAllowed :: "nat \<Rightarrow> Relations \<Rightarrow> TypeRef \<Rightarrow> RelationCode option" where
  "MapKeyAllowed n r ref = Comparable n r ref"

definition Ordered :: "Relations \<Rightarrow> TypeRef \<Rightarrow> RelationCode" where
  "Ordered r ref = relation_of RelationNotOrdered (View_Ordered (rel_table r) ref)"


section \<open>Identity as a search\<close>

definition pairs_items :: "(TypeRef \<times> TypeRef) list \<Rightarrow> (TypeRef \<times> TypeRef) item list" where
  "pairs_items ps = concat (map (\<lambda>(x, y). [Check (Valid x \<and> Valid y), Visit True (x, y)]) ps)"

definition signature_items ::
  "FunctionSignature \<Rightarrow> FunctionSignature \<Rightarrow> (TypeRef \<times> TypeRef) item list" where
  "signature_items s s' =
     Check (sig_variadic s = sig_variadic s') #
     Check (length (sig_params s) = length (sig_params s') \<and>
            length (sig_results s) = length (sig_results s')) #
     pairs_items (zip (sig_params s) (sig_params s')) @
     pairs_items (zip (sig_results s) (sig_results s'))"

definition field_items :: "bool \<Rightarrow> struct_field \<Rightarrow> struct_field \<Rightarrow> (TypeRef \<times> TypeRef) item list" where
  "field_items ignoreTags f g =
     [Check (sf_name f = sf_name g \<and> (ignoreTags \<or> sf_tag f = sf_tag g) \<and> sf_embedded f = sf_embedded g),
      Visit False (sf_type f, sf_type g)]"

definition term_items :: "TypeTerm \<Rightarrow> TypeTerm \<Rightarrow> (TypeRef \<times> TypeRef) item list" where
  "term_items x y =
     [Check (term_approx x = term_approx y \<and> term_union x = term_union y),
      Visit False (term_type x, term_type y)]"

definition method_items :: "type_method \<Rightarrow> type_method \<Rightarrow> (TypeRef \<times> TypeRef) item list" where
  "method_items m k = Check (methodKey m = methodKey k) # signature_items (tm_signature m) (tm_signature k)"

definition zip_items :: "('b \<Rightarrow> 'b \<Rightarrow> 'a item list) \<Rightarrow> 'b list \<Rightarrow> 'b list \<Rightarrow> 'a item list" where
  "zip_items f xs ys = concat (map (\<lambda>(x, y). f x y) (zip xs ys))"

definition node_items :: "bool \<Rightarrow> TypeNode \<Rightarrow> TypeNode \<Rightarrow> (TypeRef \<times> TypeRef) item list" where
  "node_items ignoreTags left right =
     (if node_kind left \<noteq> node_kind right then [Check False]
      else case node_kind left of
             KSlice \<Rightarrow> [Visit False (node_elem left, node_elem right)]
           | KPointer \<Rightarrow> [Visit False (node_elem left, node_elem right)]
           | KArray \<Rightarrow>
               [Check (0 \<le> node_length left \<and> 0 \<le> node_length right \<and> node_length left = node_length right),
                Visit False (node_elem left, node_elem right)]
           | KMap \<Rightarrow>
               [Visit False (node_key left, node_key right), Visit False (node_elem left, node_elem right)]
           | KWaitable \<Rightarrow>
               [Check (node_direction left = node_direction right),
                Visit False (node_elem left, node_elem right)]
           | KFunction \<Rightarrow>
               (case (node_signature left, node_signature right) of
                  (Some s, Some s') \<Rightarrow> signature_items s s'
                | _ \<Rightarrow> [Check (node_signature left = None \<and> node_signature right = None)])
           | KTuple \<Rightarrow>
               Check (length (node_tuple left) = length (node_tuple right)) #
               zip_items (\<lambda>x y. [Visit False (x, y)]) (node_tuple left) (node_tuple right)
           | KStruct \<Rightarrow>
               Check (length (node_fields left) = length (node_fields right)) #
               zip_items (field_items ignoreTags) (node_fields left) (node_fields right)
           | KInterface \<Rightarrow>
               Check (node_type_set left = node_type_set right \<and>
                      length (node_methods left) = length (node_methods right) \<and>
                      length (node_terms left) = length (node_terms right)) #
               zip_items method_items (node_methods left) (node_methods right) @
               zip_items term_items (node_terms left) (node_terms right)
           | _ \<Rightarrow> [Check False])"

definition id_pre :: "Relations \<Rightarrow> TypeRef \<times> TypeRef \<Rightarrow> bool option" where
  "id_pre r p =
     (let left = aliasTarget r (fst p); right = aliasTarget r (snd p) in
      if left = right then Some True
      else if ref_kind left \<noteq> ref_kind right then Some False else None)"

definition id_key :: "Relations \<Rightarrow> TypeRef \<times> TypeRef \<Rightarrow> (TypeRef \<times> TypeRef) option" where
  "id_key r p = Some (aliasTarget r (fst p), aliasTarget r (snd p))"

definition id_items :: "Relations \<Rightarrow> TypeRef \<times> TypeRef \<Rightarrow> (TypeRef \<times> TypeRef) item list" where
  "id_items r p =
     (let left = aliasTarget r (fst p); right = aliasTarget r (snd p) in
      if ref_kind left = KNamed then [Check (typeKey r left = typeKey r right)]
      else case (rel_nodeForRef r left, rel_nodeForRef r right) of
             (None, None) \<Rightarrow> [Check (left = right)]
           | (Some leftNode, Some rightNode) \<Rightarrow> node_items (rel_ignoreTags r) leftNode rightNode
           | _ \<Rightarrow> [Check False])"

definition run_item :: "decide \<Rightarrow> decide \<Rightarrow> (TypeRef \<times> TypeRef) item \<Rightarrow> bool option" where
  "run_item here afresh i =
     (case i of Check b \<Rightarrow> Some b | Visit fresh p \<Rightarrow> (if fresh then afresh else here) (fst p) (snd p))"

lemma run_item_simps [simp]:
  "run_item here afresh (Check b) = Some b"
  "run_item here afresh (Visit False (x, y)) = here x y"
  "run_item here afresh (Visit True (x, y)) = afresh x y"
  by (simp_all add: run_item_def)

lemma all_opt_concat: "all_opt f (concat (map g xs)) = all_opt (\<lambda>x. all_opt f (g x)) xs"
  by (induction xs) (simp_all add: all_opt_append)

lemma run_zip_items: "all_opt f (zip_items g xs ys) = all_opt (\<lambda>(x, y). all_opt f (g x y)) (zip xs ys)"
  by (simp add: zip_items_def all_opt_concat case_prod_beta')

lemma ok_Identical_by: "ok (Identical_by afresh x y) = and_opt (Some (Valid x \<and> Valid y)) (afresh x y)"
  by (cases "afresh x y") (auto simp: Identical_by_def ok_def)

lemma run_pairs_items:
  "all_opt (run_item here afresh) (pairs_items ps) = all_opt (\<lambda>(x, y). ok (Identical_by afresh x y)) ps"
  by (simp add: pairs_items_def all_opt_concat case_prod_beta' ok_Identical_by run_item_def)

lemma ok_of_bool: "ok (map_option (\<lambda>b. if b then RelationOK else RelationNotIdentical) x) = x"
  by (cases x) (auto simp: ok_def)

lemma run_signature_items:
  "all_opt (run_item here afresh) (signature_items s s') = ok (SignatureIdentical_by afresh s s')"
proof (cases "sig_variadic s = sig_variadic s' \<and> length (sig_params s) = length (sig_params s') \<and>
    length (sig_results s) = length (sig_results s')")
  case True
  then show ?thesis
    by (simp add: signature_items_def SignatureIdentical_by_def all_opt_append run_pairs_items ok_of_bool)
qed (auto simp: signature_items_def SignatureIdentical_by_def ok_def)

lemma run_field_items:
  "all_opt (run_item here afresh) (field_items ignoreTags f g) =
   and_opt (Some (sf_name f = sf_name g \<and> (ignoreTags \<or> sf_tag f = sf_tag g) \<and> sf_embedded f = sf_embedded g))
     (here (sf_type f) (sf_type g))"
  by (simp add: field_items_def)

lemma run_term_items:
  "all_opt (run_item here afresh) (term_items x y) =
   and_opt (Some (term_approx x = term_approx y \<and> term_union x = term_union y))
     (here (term_type x) (term_type y))"
  by (simp add: term_items_def)

lemma run_method_items:
  "all_opt (run_item here afresh) (method_items m k) =
   and_opt (Some (methodKey m = methodKey k)) (ok (SignatureIdentical_by afresh (tm_signature m) (tm_signature k)))"
  by (simp add: method_items_def run_signature_items)

lemma and_opt_guard: "and_opt (Some p) b = (if p then b else Some False)"
  by (cases p) simp_all

lemma run_node_items:
  "all_opt (run_item here afresh) (node_items ignoreTags left right) =
   identicalNode ignoreTags here afresh left right"
proof (cases "node_kind left = node_kind right")
  case True
  then have right: "node_kind right = node_kind left" by simp
  show ?thesis
    unfolding node_items_def identicalNode_def right
    by (cases "node_kind left")
      (simp_all add: identicalFields_def identicalInterface_def run_zip_items run_field_items
        run_term_items run_method_items run_signature_items all_opt_append and_opt_guard
        split: option.split)
qed (simp add: node_items_def identicalNode_def)

lemma identical_search:
  "identical n r seen left right = cut_search n (id_pre r) (id_key r) (id_items r) seen (left, right)"
proof (induction n arbitrary: seen left right)
  case (Suc n)
  have run: "all_opt (\<lambda>i. case i of Check b \<Rightarrow> Some b
        | Visit fresh p \<Rightarrow> cut_search n (id_pre r) (id_key r) (id_items r) (path fresh seen') p) items =
      all_opt (run_item (identical n r seen') (identical n r [])) items" for seen' items
    by (intro all_opt_cong) (auto simp: run_item_def Suc.IH path_def split: item.split)
  define l where "l = aliasTarget r left"
  define l' where "l' = aliasTarget r right"
  have pre: "id_pre r (left, right) =
      (if l = l' then Some True else if ref_kind l \<noteq> ref_kind l' then Some False else None)"
    by (simp add: id_pre_def l_def l'_def)
  have key: "id_key r (left, right) = Some (l, l')" by (simp add: id_key_def l_def l'_def)
  have items: "id_items r (left, right) =
      (if ref_kind l = KNamed then [Check (typeKey r l = typeKey r l')]
       else case (rel_nodeForRef r l, rel_nodeForRef r l') of
              (None, None) \<Rightarrow> [Check (l = l')]
            | (Some leftNode, Some rightNode) \<Rightarrow> node_items (rel_ignoreTags r) leftNode rightNode
            | _ \<Rightarrow> [Check False])"
    unfolding id_items_def l_def l'_def Let_def fst_conv snd_conv by (simp split: option.split)
  have "all_opt (run_item (identical n r ((l, l') # seen)) (identical n r [])) (id_items r (left, right)) =
      (if ref_kind l = KNamed then Some (typeKey r l = typeKey r l')
       else case (rel_nodeForRef r l, rel_nodeForRef r l') of
              (None, None) \<Rightarrow> Some (l = l')
            | (Some leftNode, Some rightNode) \<Rightarrow>
                identicalNode (rel_ignoreTags r) (identical n r ((l, l') # seen)) (identical n r [])
                  leftNode rightNode
            | _ \<Rightarrow> Some False)"
    unfolding items by (auto simp: run_node_items split: option.split)
  then show ?case
    by (simp add: pre key run l_def [symmetric] l'_def [symmetric] image_iff)
qed simp

interpretation identity: keyed_search "id_pre r" "id_key r" "id_items r" for r
proof
  fix x y k
  assume "id_key r x = Some k" and "id_key r y = Some k"
  then show "id_items r x = id_items r y" by (auto simp: id_key_def id_items_def)
qed


section \<open>What identity means\<close>

text \<open>
  Two types are the same when they are the same reference up to aliases, two names of one
  declared type, or nodes of one kind whose corresponding parts are the same: the greatest
  such relation, so that cyclic types are compared by what can be seen of them.
\<close>

definition same_signature ::
  "(TypeRef \<Rightarrow> TypeRef \<Rightarrow> bool) \<Rightarrow> FunctionSignature \<Rightarrow> FunctionSignature \<Rightarrow> bool" where
  "same_signature R s s' \<longleftrightarrow>
     sig_variadic s = sig_variadic s' \<and>
     list_all2 (\<lambda>x y. Valid x \<and> Valid y \<and> R x y) (sig_params s) (sig_params s') \<and>
     list_all2 (\<lambda>x y. Valid x \<and> Valid y \<and> R x y) (sig_results s) (sig_results s')"

definition same_field :: "bool \<Rightarrow> (TypeRef \<Rightarrow> TypeRef \<Rightarrow> bool) \<Rightarrow> struct_field \<Rightarrow> struct_field \<Rightarrow> bool" where
  "same_field ignoreTags R f g \<longleftrightarrow>
     sf_name f = sf_name g \<and> (ignoreTags \<or> sf_tag f = sf_tag g) \<and> sf_embedded f = sf_embedded g \<and>
     R (sf_type f) (sf_type g)"

definition same_method :: "(TypeRef \<Rightarrow> TypeRef \<Rightarrow> bool) \<Rightarrow> type_method \<Rightarrow> type_method \<Rightarrow> bool" where
  "same_method R m k \<longleftrightarrow> methodKey m = methodKey k \<and> same_signature R (tm_signature m) (tm_signature k)"

definition same_term :: "(TypeRef \<Rightarrow> TypeRef \<Rightarrow> bool) \<Rightarrow> TypeTerm \<Rightarrow> TypeTerm \<Rightarrow> bool" where
  "same_term R x y \<longleftrightarrow>
     term_approx x = term_approx y \<and> term_union x = term_union y \<and> R (term_type x) (term_type y)"

definition same_node :: "bool \<Rightarrow> (TypeRef \<Rightarrow> TypeRef \<Rightarrow> bool) \<Rightarrow> TypeNode \<Rightarrow> TypeNode \<Rightarrow> bool" where
  "same_node ignoreTags R left right \<longleftrightarrow>
     node_kind left = node_kind right \<and>
     (case node_kind left of
        KSlice \<Rightarrow> R (node_elem left) (node_elem right)
      | KPointer \<Rightarrow> R (node_elem left) (node_elem right)
      | KArray \<Rightarrow>
          0 \<le> node_length left \<and> 0 \<le> node_length right \<and> node_length left = node_length right \<and>
          R (node_elem left) (node_elem right)
      | KMap \<Rightarrow> R (node_key left) (node_key right) \<and> R (node_elem left) (node_elem right)
      | KWaitable \<Rightarrow>
          node_direction left = node_direction right \<and> R (node_elem left) (node_elem right)
      | KFunction \<Rightarrow> rel_option (same_signature R) (node_signature left) (node_signature right)
      | KTuple \<Rightarrow> list_all2 R (node_tuple left) (node_tuple right)
      | KStruct \<Rightarrow> list_all2 (same_field ignoreTags R) (node_fields left) (node_fields right)
      | KInterface \<Rightarrow>
          node_type_set left = node_type_set right \<and>
          list_all2 (same_method R) (node_methods left) (node_methods right) \<and>
          list_all2 (same_term R) (node_terms left) (node_terms right)
      | _ \<Rightarrow> False)"

definition same_ref :: "Relations \<Rightarrow> (TypeRef \<Rightarrow> TypeRef \<Rightarrow> bool) \<Rightarrow> TypeRef \<Rightarrow> TypeRef \<Rightarrow> bool" where
  "same_ref r R left right \<longleftrightarrow>
     left = right \<or>
     ref_kind left = ref_kind right \<and>
     (if ref_kind left = KNamed then typeKey r left = typeKey r right
      else (\<exists>leftNode rightNode. rel_nodeForRef r left = Some leftNode \<and>
              rel_nodeForRef r right = Some rightNode \<and>
              same_node (rel_ignoreTags r) R leftNode rightNode))"

lemma same_signature_mono: "R \<le> R' \<Longrightarrow> same_signature R s s' \<Longrightarrow> same_signature R' s s'"
  unfolding same_signature_def by (auto elim!: list_all2_mono)

lemma same_node_mono:
  assumes "R \<le> R'" and "same_node ignoreTags R left right"
  shows "same_node ignoreTags R' left right"
proof -
  have R: "R x y \<Longrightarrow> R' x y" for x y using assms(1) by (simp add: le_fun_def)
  have signature: "same_signature R s s' \<Longrightarrow> same_signature R' s s'" for s s'
    by (rule same_signature_mono [OF assms(1)])
  have "list_all2 R xs ys \<Longrightarrow> list_all2 R' xs ys" for xs ys by (erule list_all2_mono) (rule R)
  moreover have "list_all2 (same_field ignoreTags R) xs ys \<Longrightarrow> list_all2 (same_field ignoreTags R') xs ys" for xs ys
    by (erule list_all2_mono) (auto simp: same_field_def R)
  moreover have "rel_option (same_signature R) x y \<Longrightarrow> rel_option (same_signature R') x y" for x y
    by (erule option.rel_mono_strong) (rule signature)
  moreover have "list_all2 (same_method R) xs ys \<Longrightarrow> list_all2 (same_method R') xs ys" for xs ys
    by (erule list_all2_mono) (auto simp: same_method_def signature)
  moreover have "list_all2 (same_term R) xs ys \<Longrightarrow> list_all2 (same_term R') xs ys" for xs ys
    by (erule list_all2_mono) (auto simp: same_term_def R)
  ultimately show ?thesis
    using assms(2) R unfolding same_node_def by (cases "node_kind left") simp_all
qed

lemma same_ref_mono [mono]: "R \<le> R' \<Longrightarrow> same_ref r R left right \<longrightarrow> same_ref r R' left right"
  unfolding same_ref_def using same_node_mono by (auto split: if_splits)

coinductive same :: "Relations \<Rightarrow> TypeRef \<Rightarrow> TypeRef \<Rightarrow> bool" for r where
  same: "same_ref r (same r) (aliasTarget r left) (aliasTarget r right) \<Longrightarrow> same r left right"


lemma same_unfold: "same r left right \<longleftrightarrow> same_ref r (same r) (aliasTarget r left) (aliasTarget r right)"
  by (subst same.simps) simp

text \<open>The items of a pair hold exactly when the relation of the nodes holds.\<close>

definition items_hold :: "(TypeRef \<Rightarrow> TypeRef \<Rightarrow> bool) \<Rightarrow> (TypeRef \<times> TypeRef) item list \<Rightarrow> bool" where
  "items_hold R items \<longleftrightarrow>
     Check False \<notin> set items \<and> (\<forall>fresh x y. Visit fresh (x, y) \<in> set items \<longrightarrow> R x y)"

lemma items_hold_simps [simp]:
  "items_hold R []"
  "items_hold R (Check b # items) \<longleftrightarrow> b \<and> items_hold R items"
  "items_hold R (Visit fresh p # items) \<longleftrightarrow> R (fst p) (snd p) \<and> items_hold R items"
  "items_hold R (items @ items') \<longleftrightarrow> items_hold R items \<and> items_hold R items'"
  by (cases p; auto simp: items_hold_def)+

lemma items_hold_zip:
  "items_hold R (zip_items f xs ys) \<longleftrightarrow> (\<forall>(x, y) \<in> set (zip xs ys). items_hold R (f x y))"
proof -
  have "items_hold R (concat (map (\<lambda>(x, y). f x y) ps)) \<longleftrightarrow> (\<forall>(x, y) \<in> set ps. items_hold R (f x y))" for ps
    by (induction ps) auto
  then show ?thesis by (simp add: zip_items_def)
qed

lemma items_hold_pairs:
  "items_hold R (pairs_items ps) \<longleftrightarrow> (\<forall>(x, y) \<in> set ps. Valid x \<and> Valid y \<and> R x y)"
  unfolding pairs_items_def by (induction ps) auto

lemma signature_items_hold: "items_hold R (signature_items s s') \<longleftrightarrow> same_signature R s s'"
  by (auto simp: signature_items_def same_signature_def items_hold_pairs list_all2_iff)

lemma node_items_hold: "items_hold R (node_items ignoreTags left right) \<longleftrightarrow> same_node ignoreTags R left right"
proof (cases "node_kind left = node_kind right")
  case True
  then have right: "node_kind right = node_kind left" by simp
  show ?thesis
    unfolding node_items_def same_node_def right
    by (cases "node_kind left")
      (auto simp: items_hold_zip signature_items_hold list_all2_iff field_items_def same_field_def
        method_items_def same_method_def term_items_def same_term_def split: option.split)
qed (simp add: node_items_def same_node_def)

lemma id_items_hold:
  assumes "id_pre r (left, right) = None"
  shows "items_hold R (id_items r (left, right)) \<longleftrightarrow>
    same_ref r R (aliasTarget r left) (aliasTarget r right)"
  using assms
  by (auto simp: id_pre_def id_items_def same_ref_def Let_def node_items_hold split: if_splits option.splits)

lemma same_holds: "holds_upto (id_pre r) (id_key r) (id_items r) {} (left, right) \<longleftrightarrow> same r left right"
proof
  assume "same r left right"
  define R where "R S p \<longleftrightarrow> S = {} \<and> same r (fst p) (snd p)"
    for S :: "(TypeRef \<times> TypeRef) set" and p
  have "holds_upto (id_pre r) (id_key r) (id_items r) S p" if "R S p" for S p
    using that
  proof (coinduction arbitrary: S p rule: holds_upto.coinduct)
    case (holds_upto S p)
    obtain x y where p: "p = (x, y)" by (cases p)
    have same: "same_ref r (same r) (aliasTarget r x) (aliasTarget r y)"
      using holds_upto by (simp add: R_def p same_unfold)
    then have "id_pre r p \<noteq> Some False" by (auto simp: id_pre_def p same_ref_def Let_def)
    moreover have "items_hold (same r) (id_items r p)" if "id_pre r p = None"
      using id_items_hold that same unfolding p by blast
    ultimately show ?case using holds_upto by (auto simp: R_def items_hold_def keep_def)
  qed
  with \<open>same r left right\<close> show "holds_upto (id_pre r) (id_key r) (id_items r) {} (left, right)"
    by (simp add: R_def)
next
  assume "holds_upto (id_pre r) (id_key r) (id_items r) {} (left, right)"
  then show "same r left right"
  proof (coinduction arbitrary: left right)
    case same
    define R where "R x y \<longleftrightarrow> holds_upto (id_pre r) (id_key r) (id_items r) {} (x, y) \<or> same r x y" for x y
    have "same_ref r R (aliasTarget r left) (aliasTarget r right)"
    proof (cases "id_pre r (left, right) = None")
      case True
      have "items_hold R (id_items r (left, right))"
        using holds_upto_parts [OF same True]
        by (auto simp: items_hold_def R_def keep_def split: if_splits)
      then show ?thesis using id_items_hold [OF True] by blast
    next
      case False
      then show ?thesis using holds_upto_pre [OF same]
        by (auto simp: id_pre_def same_ref_def Let_def split: if_splits)
    qed
    then show ?case unfolding R_def by simp
  qed
qed


section \<open>Identity is an equivalence\<close>

lemma same_signature_sym: "same_signature R s s' \<Longrightarrow> same_signature (\<lambda>x y. R y x) s' s"
  unfolding same_signature_def by (auto simp: list_all2_conv_all_nth)

lemma same_node_sym: "same_node ignoreTags R left right \<Longrightarrow> same_node ignoreTags (\<lambda>x y. R y x) right left"
  unfolding same_node_def
  by (cases "node_kind left"; cases "node_signature left"; cases "node_signature right")
    (auto simp: list_all2_conv_all_nth same_field_def same_method_def same_term_def same_signature_sym)

lemma same_ref_sym: "same_ref r R left right \<Longrightarrow> same_ref r (\<lambda>x y. R y x) right left"
  unfolding same_ref_def using same_node_sym by (auto split: if_splits)

lemma same_sym: "same r left right \<Longrightarrow> same r right left"
proof (coinduction arbitrary: left right)
  case same
  from same_unfold [THEN iffD1, OF this] have "same_ref r (\<lambda>x y. same r y x) (aliasTarget r right) (aliasTarget r left)"
    by (rule same_ref_sym)
  then show ?case by (auto elim: same_ref_mono [THEN mp, rotated])
qed

lemma same_refl: "same r left left"
  by (rule same) (simp add: same_ref_def)

lemma list_all2_relcomp:
  "list_all2 P xs ys \<Longrightarrow> list_all2 Q ys zs \<Longrightarrow> (\<And>x y z. P x y \<Longrightarrow> Q y z \<Longrightarrow> S x z) \<Longrightarrow> list_all2 S xs zs"
  by (auto simp: list_all2_conv_all_nth)

lemma same_signature_trans:
  assumes "same_signature R s s'" and "same_signature R' s' s''"
  shows "same_signature (R OO R') s s''"
proof -
  have "list_all2 (\<lambda>x y. Valid x \<and> Valid y \<and> (R OO R') x y) xs zs"
    if "list_all2 (\<lambda>x y. Valid x \<and> Valid y \<and> R x y) xs ys"
      and "list_all2 (\<lambda>x y. Valid x \<and> Valid y \<and> R' x y) ys zs" for xs ys zs
    using that by (rule list_all2_relcomp) auto
  with assms show ?thesis unfolding same_signature_def by blast
qed

lemma same_field_trans: "same_field i R f g \<Longrightarrow> same_field i R' g h \<Longrightarrow> same_field i (R OO R') f h"
  unfolding same_field_def by auto

lemma same_method_trans: "same_method R m k \<Longrightarrow> same_method R' k l \<Longrightarrow> same_method (R OO R') m l"
  unfolding same_method_def by (auto intro: same_signature_trans)

lemma same_term_trans: "same_term R x y \<Longrightarrow> same_term R' y z \<Longrightarrow> same_term (R OO R') x z"
  unfolding same_term_def by auto

lemma same_node_trans:
  assumes "same_node i R a b" and "same_node i R' b c"
  shows "same_node i (R OO R') a c"
proof -
  have kinds: "node_kind b = node_kind a" "node_kind c = node_kind a"
    using assms by (simp_all add: same_node_def)
  have refs: "list_all2 R xs ys \<Longrightarrow> list_all2 R' ys zs \<Longrightarrow> list_all2 (R OO R') xs zs" for xs ys zs
    by (erule (1) list_all2_relcomp) auto
  have signatures: "rel_option (same_signature R) x y \<Longrightarrow> rel_option (same_signature R') y z \<Longrightarrow>
      rel_option (same_signature (R OO R')) x z" for x y z
    by (cases x; cases y; cases z) (auto intro: same_signature_trans)
  have struct_fields: "list_all2 (same_field i R) xs ys \<Longrightarrow> list_all2 (same_field i R') ys zs \<Longrightarrow>
      list_all2 (same_field i (R OO R')) xs zs" for xs ys zs
    by (erule (1) list_all2_relcomp) (auto intro: same_field_trans)
  have methods: "list_all2 (same_method R) xs ys \<Longrightarrow> list_all2 (same_method R') ys zs \<Longrightarrow>
      list_all2 (same_method (R OO R')) xs zs" for xs ys zs
    by (erule (1) list_all2_relcomp) (auto intro: same_method_trans)
  have terms: "list_all2 (same_term R) xs ys \<Longrightarrow> list_all2 (same_term R') ys zs \<Longrightarrow>
      list_all2 (same_term (R OO R')) xs zs" for xs ys zs
    by (erule (1) list_all2_relcomp) (auto intro: same_term_trans)
  from assms show ?thesis
    unfolding same_node_def kinds
    by (cases "node_kind a") (auto intro: refs signatures struct_fields methods terms)
qed

lemma same_ref_trans:
  assumes "same_ref r R a b" and "same_ref r R' b c"
  shows "same_ref r (\<lambda>x z. R x z \<or> R' x z \<or> (R OO R') x z) a c"
proof (cases "a = b \<or> b = c")
  case True
  have "R \<le> (\<lambda>x z. R x z \<or> R' x z \<or> (R OO R') x z)" and "R' \<le> (\<lambda>x z. R x z \<or> R' x z \<or> (R OO R') x z)"
    by auto
  with True assms same_ref_mono show ?thesis by blast
next
  case False
  have "R OO R' \<le> (\<lambda>x z. R x z \<or> R' x z \<or> (R OO R') x z)" by auto
  moreover have "same_ref r (R OO R') a c"
    using assms False unfolding same_ref_def by (auto intro: same_node_trans split: if_splits)
  ultimately show ?thesis using same_ref_mono by blast
qed

lemma same_trans:
  assumes "same r a b" and "same r b c"
  shows "same r a c"
proof -
  have "(same r OO same r) a c" using assms by blast
  then show ?thesis
  proof (coinduction arbitrary: a c)
    case same
    then obtain b where "same r a b" and "same r b c" by blast
    from same_ref_trans [OF this [THEN same_unfold [THEN iffD1]]]
    have "same_ref r (\<lambda>x z. same r x z \<or> same r x z \<or> (same r OO same r) x z) (aliasTarget r a) (aliasTarget r c)" .
    then show ?case by (auto elim: same_ref_mono [THEN mp, rotated])
  qed
qed


section \<open>The search for identity ends\<close>

definition table_refs :: "TypeTable \<Rightarrow> TypeRef list" where
  "table_refs t = concat (map nodeRefs (Nodes t))"

text \<open>The parts of a node that are compared on the current path, and with an empty path.\<close>

definition path_parts :: "TypeNode \<Rightarrow> TypeRef list" where
  "path_parts node =
     (case node_kind node of
        KSlice \<Rightarrow> [node_elem node] | KPointer \<Rightarrow> [node_elem node] | KArray \<Rightarrow> [node_elem node]
      | KWaitable \<Rightarrow> [node_elem node] | KMap \<Rightarrow> [node_key node, node_elem node]
      | KTuple \<Rightarrow> node_tuple node | KStruct \<Rightarrow> map sf_type (node_fields node)
      | KInterface \<Rightarrow> map term_type (node_terms node) | _ \<Rightarrow> [])"

definition signature_refs :: "FunctionSignature \<Rightarrow> TypeRef list" where
  "signature_refs s = sig_params s @ sig_results s"

definition fresh_parts :: "TypeNode \<Rightarrow> TypeRef list" where
  "fresh_parts node =
     (case node_kind node of
        KFunction \<Rightarrow> (case node_signature node of None \<Rightarrow> [] | Some s \<Rightarrow> signature_refs s)
      | KInterface \<Rightarrow> concat (map (\<lambda>m. signature_refs (tm_signature m)) (node_methods node))
      | _ \<Rightarrow> [])"

text \<open>
  No type contains itself through a signature without a name in between: a rank of the
  resolved references that does not grow along the parts and falls at every signature.
\<close>

definition signature_ranked :: "Relations \<Rightarrow> (TypeRef \<Rightarrow> nat) \<Rightarrow> bool" where
  "signature_ranked r rk \<longleftrightarrow>
     (\<forall>x node. rel_nodeForRef r x = Some node \<longrightarrow> ref_kind x \<noteq> KNamed \<longrightarrow>
        (\<forall>c \<in> set (path_parts node). rk (aliasTarget r c) \<le> rk x) \<and>
        (\<forall>c \<in> set (fresh_parts node). rk (aliasTarget r c) < rk x))"

lemma pairs_items_visit:
  "Visit fresh p \<in> set (pairs_items ps) \<longleftrightarrow> fresh \<and> p \<in> set ps"
  by (induction ps) (auto simp: pairs_items_def)

lemma signature_items_visit:
  "Visit fresh (x, y) \<in> set (signature_items s s') \<Longrightarrow>
   fresh \<and> x \<in> set (signature_refs s) \<and> y \<in> set (signature_refs s')"
  by (auto simp: signature_items_def pairs_items_visit signature_refs_def
      dest: set_zip_leftD set_zip_rightD)

lemma zip_items_visit:
  "Visit fresh p \<in> set (zip_items f xs ys) \<Longrightarrow>
   \<exists>x \<in> set xs. \<exists>y \<in> set ys. Visit fresh p \<in> set (f x y)"
  unfolding zip_items_def using set_zip_leftD [of _ _ xs ys] set_zip_rightD [of _ _ xs ys] by fastforce

lemma node_items_visit:
  assumes "Visit fresh (x, y) \<in> set (node_items ignoreTags left right)"
  shows "if fresh then x \<in> set (fresh_parts left) \<and> y \<in> set (fresh_parts right)
    else x \<in> set (path_parts left) \<and> y \<in> set (path_parts right)"
proof -
  have right: "node_kind right = node_kind left"
    using assms by (auto simp: node_items_def split: if_splits)
  show ?thesis
    using assms unfolding node_items_def fresh_parts_def path_parts_def right
    by (cases "node_kind left")
      (auto simp: field_items_def term_items_def method_items_def split: option.splits
        dest!: zip_items_visit signature_items_visit)
qed

lemma parts_are_refs: "set (path_parts node) \<union> set (fresh_parts node) \<subseteq> set (nodeRefs node)"
  unfolding path_parts_def fresh_parts_def nodeRefs_def signature_refs_def
  by (cases "node_kind node") (auto split: option.splits)

lemma rel_node_in_table:
  assumes "rel_table r = Some t" and "indexed t" and "rel_nodeForRef r x = Some node"
  shows "node \<in> set (Nodes t)" and "set (nodeRefs node) \<subseteq> set (table_refs t)"
proof -
  have "lookup_ref (Nodes t) x = Some node"
    using assms by (simp add: rel_nodeForRef_def table_node_def nodeForRef_indexed)
  then show "node \<in> set (Nodes t)" by (rule lookup_ref_in)
  then show "set (nodeRefs node) \<subseteq> set (table_refs t)" by (auto simp: table_refs_def)
qed

lemma alias_walk_in:
  assumes "rel_table r = Some t" and "indexed t" and "alias_walk n r start seen ref = Some u"
  shows "u \<in> {start, ref} \<union> set (table_refs t)"
  using assms(3)
proof (induction n arbitrary: seen ref)
  case (Suc n)
  have "node_alias_target node \<in> set (table_refs t)" if "rel_nodeForRef r ref = Some node" for node
    using rel_node_in_table(2) [OF assms(1,2) that] by (auto simp: nodeRefs_def)
  with Suc show ?case by (fastforce split: option.splits if_splits)
qed simp

lemma aliasTarget_in:
  "rel_table r = Some t \<Longrightarrow> indexed t \<Longrightarrow> aliasTarget r x \<in> insert x (set (table_refs t))"
  unfolding aliasTarget_def using alias_walk_in [of r t _ x "[]" x] by (auto split: option.split)

text \<open>The fuel of the loop of \<^verbatim>\<open>aliasTarget\<close> is enough.\<close>

lemma alias_walk_returns:
  assumes "rel_table r = Some t" and "indexed t"
    and "distinct seen" and "set seen \<subseteq> node_id ` set (Nodes t)" and "length (Nodes t) < n + length seen"
  shows "alias_walk n r start seen ref \<noteq> None"
  using assms(3-)
proof (induction n arbitrary: seen ref)
  case 0
  have "length seen = card (set seen)" using 0(1) by (simp add: distinct_card)
  also have "\<dots> \<le> card (node_id ` set (Nodes t))" using 0(2) by (intro card_mono) auto
  also have "\<dots> \<le> length (Nodes t)" by (meson card_image_le card_length finite_set le_trans)
  finally show ?case using 0(3) by simp
next
  case (Suc n)
  show ?case
  proof (cases "rel_nodeForRef r ref")
    case (Some node)
    then have "node_id node \<in> node_id ` set (Nodes t)"
      using rel_node_in_table(1) [OF assms(1,2)] by blast
    then show ?thesis using Some Suc by auto
  qed simp
qed

lemma aliasTarget_walk:
  assumes "rel_table r = Some t" and "indexed t"
  shows "alias_walk (walk_fuel r) r x [] x = Some (aliasTarget r x)"
  using alias_walk_returns [OF assms, of "[]" "walk_fuel r" x x] assms(1)
  by (auto simp: aliasTarget_def walk_fuel_def)

definition identity_fuel :: "TypeTable \<Rightarrow> nat \<Rightarrow> nat" where
  "identity_fuel t rank = (rank + 1) * ((length (table_refs t) + 2) ^ 2 + 1)"

lemma id_items_visit:
  assumes "id_pre r p = None" and "Visit fresh (x, y) \<in> set (id_items r p)"
  obtains leftNode rightNode where
    "rel_nodeForRef r (aliasTarget r (fst p)) = Some leftNode" "ref_kind (aliasTarget r (fst p)) \<noteq> KNamed"
    "rel_nodeForRef r (aliasTarget r (snd p)) = Some rightNode"
    "Visit fresh (x, y) \<in> set (node_items (rel_ignoreTags r) leftNode rightNode)"
  using assms by (auto simp: id_items_def Let_def split: if_splits option.splits)

lemma identical_returns:
  assumes table: "rel_table r = Some t" "indexed t" and ranked: "signature_ranked r rk"
    and fuel: "identity_fuel t (rk (aliasTarget r left)) \<le> n"
  shows "identical n r [] left right \<noteq> None"
proof -
  define U where "U = insert left (insert right (set (table_refs t)))"
  define K where "K = aliasTarget r ` U \<times> aliasTarget r ` U"
  have "card U \<le> length (table_refs t) + 2"
    unfolding U_def using card_length [of "table_refs t"]
    by (simp add: card_insert_if) 
  then have "card (aliasTarget r ` U) \<le> length (table_refs t) + 2"
    using card_image_le [of U "aliasTarget r"] by (simp add: U_def)
  then have "card K \<le> (length (table_refs t) + 2) ^ 2"
    unfolding K_def card_cartesian_product power2_eq_square by (intro mult_le_mono)
  moreover have "finite K" by (simp add: K_def U_def)
  ultimately have K: "finite K" "card K \<le> (length (table_refs t) + 2) ^ 2" by simp_all
  have bound: "rk (aliasTarget r left) * (card K + 1) + card (K - set []) < n"
  proof -
    define N where "N = (length (table_refs t) + 2) ^ 2"
    have "rk (aliasTarget r left) * (card K + 1) \<le> rk (aliasTarget r left) * (N + 1)"
      using K(2) unfolding N_def by simp
    moreover have "rk (aliasTarget r left) * (N + 1) + (N + 1) \<le> n"
      using fuel by (simp only: identity_fuel_def N_def add_mult_distrib mult_1)
    moreover have "card (K - set []) \<le> N" using K(2) by (simp add: N_def)
    ultimately show ?thesis by linarith
  qed
  show ?thesis
    unfolding identical_search
  proof (rule search_returns [where D = "U \<times> U" and K = K and rank = "\<lambda>p. rk (aliasTarget r (fst p))"])
    fix p fresh q
    assume p: "p \<in> U \<times> U" and pre: "id_pre r p = None" and visit: "Visit fresh q \<in> set (id_items r p)"
    obtain x y where q: "q = (x, y)" by (cases q)
    from pre visit [unfolded q] obtain leftNode rightNode
      where nodes: "rel_nodeForRef r (aliasTarget r (fst p)) = Some leftNode"
        "ref_kind (aliasTarget r (fst p)) \<noteq> KNamed"
        "rel_nodeForRef r (aliasTarget r (snd p)) = Some rightNode"
      and item: "Visit fresh (x, y) \<in> set (node_items (rel_ignoreTags r) leftNode rightNode)"
      by (rule id_items_visit)
    note parts = node_items_visit [OF item]
    have "x \<in> set (nodeRefs leftNode)" and "y \<in> set (nodeRefs rightNode)"
      using parts parts_are_refs [of leftNode] parts_are_refs [of rightNode] by (auto split: if_splits)
    then have "x \<in> set (table_refs t)" and "y \<in> set (table_refs t)"
      using rel_node_in_table(2) [OF table] nodes by blast+
    then show "q \<in> U \<times> U" by (simp add: q U_def)
    show "if fresh then rk (aliasTarget r (fst q)) < rk (aliasTarget r (fst p))
        else rk (aliasTarget r (fst q)) \<le> rk (aliasTarget r (fst p))"
      using ranked nodes(1,2) parts unfolding signature_ranked_def q by (auto split: if_splits)
    show "\<exists>k \<in> K. id_key r p = Some k"
      using p by (auto simp: id_key_def K_def)
  qed (use K bound in \<open>auto simp: U_def\<close>)
qed

section \<open>Properties of identity\<close>




section \<open>Assignability\<close>

text \<open>What the table and the fuel have to offer to all comparisons.\<close>

definition decidable_with :: "nat \<Rightarrow> Relations \<Rightarrow> bool" where
  "decidable_with n r \<longleftrightarrow>
     (\<exists>t rk d. rel_table r = Some t \<and> indexed t \<and> signature_ranked r rk \<and>
        (\<forall>x. rk x \<le> d) \<and> identity_fuel t d + length (table_refs t) < n)"

lemma identity_fuel_mono: "k \<le> d \<Longrightarrow> identity_fuel t k \<le> identity_fuel t d"
  unfolding identity_fuel_def by (rule mult_le_mono1) simp

lemma decidable_identical:
  assumes "decidable_with n r"
  shows "identical n r [] x y = Some (same r x y)"
proof -
  obtain t rk d where table: "rel_table r = Some t" "indexed t" "signature_ranked r rk"
    and d: "\<forall>x. rk x \<le> d" "identity_fuel t d + length (table_refs t) < n"
    using assms unfolding decidable_with_def by blast
  have "identity_fuel t (rk (aliasTarget r x)) \<le> n"
    using identity_fuel_mono [of "rk (aliasTarget r x)" d t] d by fastforce
  from identical_returns [OF table this] obtain b where b: "identical n r [] x y = Some b" by blast
  with identity.search_sound [of n r "[]" "(x, y)" b] show ?thesis
    by (simp add: identical_search same_holds)
qed

lemma decidable_Identical:
  "decidable_with n r \<Longrightarrow> ok (Identical n r x y) = Some (Valid x \<and> Valid y \<and> same r x y)"
  by (auto simp: Identical_def Identical_by_def ok_def decidable_identical)

lemma decidable_SignatureIdentical:
  assumes "decidable_with n r"
  shows "ok (SignatureIdentical n r s s') = Some (same_signature (same r) s s')"
proof -
  have pairs: "all_opt (\<lambda>(x, y). ok (Identical_by (identical n r []) x y)) ps =
      Some (\<forall>(x, y) \<in> set ps. Valid x \<and> Valid y \<and> same r x y)" for ps
    using decidable_Identical [OF assms]
    by (induction ps) (auto simp: Identical_def and_opt_guard)
  show ?thesis
    unfolding SignatureIdentical_def SignatureIdentical_by_def pairs same_signature_def list_all2_iff
    by (auto simp: ok_def and_opt_guard)
qed

text \<open>The frontier of a method set grows paths without repetition, so it empties.\<close>

lemma field_base_in:
  assumes "rel_table r = Some t" and "indexed t" and "item \<in> set (next_items r old)"
  shows "fi_typ item \<in> set (table_refs t) \<and> fi_typ item \<notin> set (fi_seen old) \<and>
    fi_seen item = fi_typ item # fi_seen old"
proof -
  obtain f where f: "f \<in> set (embeddedMethodSetFields r (fi_typ old))"
    and item: "fi_typ item = fst (methodSetBase r (sf_type f))" "fi_typ item \<notin> set (fi_seen old)"
      "fi_seen item = fi_typ item # fi_seen old"
    using assms(3) unfolding next_items_def case_prod_beta' by (auto split: if_splits)
  obtain fs where fs: "View_StructFields (rel_table r) (aliasTarget r (fi_typ old)) = Some fs" "f \<in> set fs"
    using f by (cases "View_StructFields (rel_table r) (aliasTarget r (fi_typ old))")
      (auto simp: embeddedMethodSetFields_def intro: that)
  from fs(1) obtain x node where node: "rel_nodeForRef r x = Some node" "fs = node_fields node"
    unfolding View_StructFields_def rel_nodeForRef_def underlyingNode_def
    by (auto split: option.splits if_splits)
  have "sf_type f \<in> set (nodeRefs node)" using fs(2) node(2) by (auto simp: nodeRefs_def)
  then have "sf_type f \<in> set (table_refs t)"
    using rel_node_in_table(2) [OF assms(1,2) node(1)] by blast
  moreover have "elem \<in> set (table_refs t)" if elem: "View_Elem (rel_table r) y = Some elem" for y elem
  proof -
    obtain node where node: "rel_nodeForRef r (table_underlying (rel_table r) y) = Some node" "elem = node_elem node"
      using elem by (cases "underlyingNode (rel_table r) y")
        (auto simp: View_Elem_def underlyingNode_def rel_nodeForRef_def split: if_splits)
    have "elem \<in> set (nodeRefs node)" by (simp add: node(2) nodeRefs_def)
    then show ?thesis using rel_node_in_table(2) [OF assms(1,2) node(1)] by blast
  qed
  moreover have "aliasTarget r y \<in> set (table_refs t)" if "y \<in> set (table_refs t)" for y
    using aliasTarget_in [OF assms(1,2), of y] that by auto
  ultimately have "fst (methodSetBase r (sf_type f)) \<in> set (table_refs t)"
    by (auto simp: methodSetBase_def Let_def split: option.split)
  with item show ?thesis by simp
qed

lemma method_levels_return:
  assumes "rel_table r = Some t" and "indexed t" and "finite A" and "set (table_refs t) \<subseteq> A"
    and "\<forall>item \<in> set frontier. distinct (fi_seen item) \<and> set (fi_seen item) \<subseteq> A \<and> length (fi_seen item) = k"
    and "card A < n + k"
  shows "method_levels n r frontier available \<noteq> None"
  using assms(5,6)
proof (induction n arbitrary: frontier available k)
  case 0
  have "frontier = []"
  proof (rule ccontr)
    assume "frontier \<noteq> []"
    then obtain item where item: "item \<in> set frontier" by (cases frontier) auto
    then have "k = card (set (fi_seen item))" using 0(1) distinct_card by fastforce
    also have "\<dots> \<le> card A" using 0(1) item by (intro card_mono assms(3)) auto
    finally show False using 0(2) by simp
  qed
  then show ?case by simp
next
  case (Suc n)
  have "method_levels n r (concat (map (next_items r) frontier)) available' \<noteq> None" for available'
  proof (rule Suc.IH)
    show "\<forall>item \<in> set (concat (map (next_items r) frontier)).
        distinct (fi_seen item) \<and> set (fi_seen item) \<subseteq> A \<and> length (fi_seen item) = Suc k"
      using Suc.prems(1) field_base_in [OF assms(1,2)] assms(4) by fastforce
    show "card A < n + Suc k" using Suc.prems(2) by simp
  qed
  then show ?case by (cases frontier) simp_all
qed

lemma methodSet_returns:
  assumes "decidable_with n r"
  shows "methodSet n r source sourceNode \<noteq> None"
proof -
  obtain t where table: "rel_table r = Some t" "indexed t" and n: "length (table_refs t) + 1 < n"
    using assms unfolding decidable_with_def identity_fuel_def by fastforce
  obtain base pointer where base: "methodSetBase r source = (base, pointer)" by fastforce
  have "card (insert base (set (table_refs t))) \<le> length (table_refs t) + 1"
    using card_length [of "base # table_refs t"] by simp
  then have "method_levels n r [\<lparr>fi_typ = base, fi_pointer = pointer, fi_seen = [base]\<rparr>] Map.empty \<noteq> None"
    using n by (intro method_levels_return [OF table, where A = "insert base (set (table_refs t))" and k = 1]) auto
  then show ?thesis by (simp add: methodSet_def base split: option.split)
qed

lemma check_methods_return: "decidable_with n r \<Longrightarrow> check_methods n r available ms \<noteq> None"
  using decidable_SignatureIdentical [of n r]
  by (induction ms) (auto split: option.split bool.split)

lemma Implements_returns: "decidable_with n r \<Longrightarrow> Implements n r source target \<noteq> None"
  using methodSet_returns [of n r] check_methods_return [of n r]
  unfolding Implements_def Let_def by (auto split: option.split simp del: not_None_eq)

text \<open>A node with a signature is a function type and no alias.\<close>

definition plain_functions :: "TypeTable \<Rightarrow> bool" where
  "plain_functions t =
     list_all (\<lambda>n. node_signature n \<noteq> None \<longrightarrow> node_kind n = KFunction \<and> \<not> node_alias n) (Nodes t)"

text \<open>The rules for a target and a source that are no interfaces.\<close>

definition assignable_to :: "Relations \<Rightarrow> TypeRef \<Rightarrow> TypeRef \<Rightarrow> bool" where
  "assignable_to r source target \<longleftrightarrow>
     same r source target \<or>
     (\<not> isNamed r source \<or> \<not> isNamed r target) \<and>
     (same r (rel_underlying r source) (rel_underlying r target) \<or>
      (\<exists>elem dir elem'. waitableInfo r source = Some (ChannelBoth, elem) \<and>
         waitableInfo r target = Some (dir, elem') \<and> Valid elem \<and> Valid elem' \<and> same r elem elem'))"


lemma function_node:
  assumes "rel_table r = Some t" and "indexed t" and "plain_functions t"
    and "functionSignature r x = Some s"
  obtains node where "rel_nodeForRef r (rel_underlying r x) = Some node" "node_signature node = Some s"
    "node_kind node = KFunction" "aliasTarget r (rel_underlying r x) = rel_underlying r x"
    "ref_kind (rel_underlying r x) = KFunction"
proof -
  define u where "u = rel_underlying r x"
  have u: "ref_kind u = KFunction" "ref_node u \<noteq> []" "\<exists>node. fst (Node u t) = Some node \<and> node_signature node = Some s"
    using assms(1,4)
    by (auto simp: functionSignature_def IsFunction_def Let_def u_def rel_underlying_def table_underlying_def
        split: if_splits option.splits)
  then obtain node where node: "rel_nodeForRef r u = Some node" "node_signature node = Some s"
    using assms(1) by (auto simp: rel_nodeForRef_def table_node_def nodeForRef_def)
  then have "node \<in> set (Nodes t)" using rel_node_in_table(1) [OF assms(1,2)] by blast
  with node(2) assms(3) have kind: "node_kind node = KFunction" "\<not> node_alias node"
    by (auto simp: plain_functions_def list_all_iff)
  have "aliasTarget r u = u"
    using node kind(2) by (simp add: aliasTarget_def walk_fuel_def)
  with that node kind(1) u(1) show thesis unfolding u_def by blast
qed

lemma function_signatures_same:
  assumes "rel_table r = Some t" and "indexed t" and "plain_functions t"
    and "functionSignature r x = Some s" and "functionSignature r y = Some s'"
    and "same_signature (same r) s s'"
  shows "same r (rel_underlying r x) (rel_underlying r y)"
proof -
  obtain node where "rel_nodeForRef r (rel_underlying r x) = Some node" "node_signature node = Some s"
    "node_kind node = KFunction" "aliasTarget r (rel_underlying r x) = rel_underlying r x"
    "ref_kind (rel_underlying r x) = KFunction"
    by (rule function_node [OF assms(1-4)])
  moreover obtain node' where "rel_nodeForRef r (rel_underlying r y) = Some node'" "node_signature node' = Some s'"
    "node_kind node' = KFunction" "aliasTarget r (rel_underlying r y) = rel_underlying r y"
    "ref_kind (rel_underlying r y) = KFunction"
    by (rule function_node [OF assms(1-3,5)])
  ultimately show ?thesis
    using assms(6) by (intro same) (simp add: same_ref_def same_node_def)
qed

lemma waitable_no_function:
  assumes "functionSignature r x \<noteq> None"
  shows "waitableInfo r x = None"
  using assms
  by (auto simp: functionSignature_def IsFunction_def waitableInfo_def Let_def rel_underlying_def
      table_underlying_def split: option.splits if_splits)

lemma waitable_exact:
  assumes "decidable_with n r"
  shows "waitable_assignable n r source target =
    Some (if (\<not> isNamed r source \<or> \<not> isNamed r target) \<and>
      (\<exists>elem dir elem'. waitableInfo r source = Some (ChannelBoth, elem) \<and>
         waitableInfo r target = Some (dir, elem') \<and> Valid elem \<and> Valid elem' \<and> same r elem elem')
     then RelationOK else RelationNotAssignable)"
  unfolding waitable_assignable_def bind_ok_def decidable_Identical [OF assms]
  by (cases "waitableInfo r source"; cases "waitableInfo r target") auto



section \<open>Sample tables\<close>

text \<open>Two slices, each of which has itself as its element.\<close>

definition node_of :: "Kind \<Rightarrow> string \<Rightarrow> TypeRef" where
  "node_of kind i = zero_ref\<lparr>ref_kind := kind, ref_node := i\<rparr>"

definition loop_slice :: "string \<Rightarrow> TypeNode" where
  "loop_slice i = (blank_node_of KSlice)\<lparr>node_id := i, node_elem := node_of KSlice i\<rparr>"

definition slice_table :: TypeTable where
  "slice_table = \<lparr>Nodes = [loop_slice ''a'', loop_slice ''b''], byID = [''a'' \<mapsto> 0, ''b'' \<mapsto> 1],
     byName = Map.empty, owned = True, underlying_cache = Map.empty\<rparr>"

definition slice_relations :: Relations where
  "slice_relations = NewRelations (Some slice_table)"

lemma slice_relations_table: "rel_table slice_relations = Some slice_table"
  by (simp add: slice_relations_def NewRelations_def)

lemma slice_table_indexed: "indexed slice_table"
proof -
  let ?t = "slice_table\<lparr>byID := Map.empty, owned := False\<rparr>"
  have "index ?t = (None, slice_table)"
    by (simp add: slice_table_def index_def loop_slice_def blank_node_of_def emptyTypeKey_def)
  from index_ok [OF this] show ?thesis by simp
qed

lemma slice_table_ranked: "signature_ranked slice_relations (\<lambda>_. 0)"
  using rel_node_in_table(1) [OF slice_relations_table slice_table_indexed]
  by (fastforce simp: signature_ranked_def slice_table_def loop_slice_def blank_node_of_def fresh_parts_def)

lemma slice_table_fuel: "identity_fuel slice_table 0 + length (table_refs slice_table) < 300"
  by (simp add: identity_fuel_def table_refs_def slice_table_def nodeRefs_def loop_slice_def
      blank_node_of_def power2_eq_square)

lemma loop_slices_same: "same slice_relations (node_of KSlice ''a'') (node_of KSlice ''b'')"
proof -
  have "identical 3 slice_relations [] (node_of KSlice ''a'') (node_of KSlice ''b'') = Some True"
    by code_simp
  with identity.search_sound [of 3 slice_relations "[]" "(node_of KSlice ''a'', node_of KSlice ''b'')" True]
  show ?thesis by (simp add: identical_search same_holds)
qed



text \<open>
  Two function types, each with itself as its parameter, are accepted by the validation of
  the table.  The comparison of signatures forgets the path, so \<^verbatim>\<open>Identical\<close> calls itself
  for ever.
\<close>

definition loop_function :: "string \<Rightarrow> TypeNode" where
  "loop_function i = (blank_node_of KFunction)
     \<lparr>node_id := i,
      node_signature := Some \<lparr>sig_params = [node_of KFunction i], sig_results = [], sig_variadic = False\<rparr>\<rparr>"

definition function_table :: TypeTable where
  "function_table = \<lparr>Nodes = [loop_function ''f'', loop_function ''g''], byID = [''f'' \<mapsto> 0, ''g'' \<mapsto> 1],
     byName = Map.empty, owned = True, underlying_cache = Map.empty\<rparr>"

lemma function_table_validated: "fst (the (ValidateTable function_table)) = None"
  by code_simp

lemma identical_diverges:
  "Identical n (NewRelations (Some function_table)) (node_of KFunction ''f'') (node_of KFunction ''g'') = None"
proof -
  let ?r = "NewRelations (Some function_table)"
  have facts: "aliasTarget ?r (node_of KFunction ''f'') = node_of KFunction ''f''"
    "aliasTarget ?r (node_of KFunction ''g'') = node_of KFunction ''g''"
    "rel_nodeForRef ?r (node_of KFunction ''f'') = Some (loop_function ''f'')"
    "rel_nodeForRef ?r (node_of KFunction ''g'') = Some (loop_function ''g'')"
    "Valid (node_of KFunction ''f'')" "Valid (node_of KFunction ''g'')"
    "node_of KFunction ''f'' \<noteq> node_of KFunction ''g''"
    by code_simp+
  have kinds: "ref_kind (node_of KFunction i) = KFunction" for i by (simp add: node_of_def)
  have "identical n ?r [] (node_of KFunction ''f'') (node_of KFunction ''g'') = None"
  proof (induction n)
    case (Suc n)
    then show ?case
      using facts(5,6)
      by (simp add: facts(1-4,7) kinds identicalNode_def loop_function_def blank_node_of_def
          SignatureIdentical_by_def Identical_by_def ok_def Let_def)
  qed simp
  with facts(5,6) show ?thesis by (simp add: Identical_def Identical_by_def)
qed


text \<open>
  \<open>A\<close> and \<open>B\<close> declare \<open>M\<close>, \<open>A\<close> embeds \<open>C\<close>, which declares \<open>M\<close> too, and \<open>T\<close> embeds \<open>A\<close> and \<open>B\<close>.
  At the least depth \<open>M\<close> is ambiguous, so by the rules of the language \<open>T\<close> has no method
  \<open>M\<close>.  The loop over the depths only passes over the doubled candidates and promotes the
  method of \<open>C\<close> one level further down.
\<close>

definition method_M :: type_method where
  "method_M = \<lparr>tm_name = ''M'', tm_receiver = zero_ref,
     tm_signature = \<lparr>sig_params = [], sig_results = [], sig_variadic = False\<rparr>,
     tm_function_id = [], tm_module_path = []\<rparr>"

definition named_node :: "string \<Rightarrow> string \<Rightarrow> type_method list \<Rightarrow> TypeNode" where
  "named_node name body methods = (blank_node_of KNamed)
     \<lparr>node_id := name, node_identity := TypeKey ''m'' name, node_underlying := node_of KStruct body,
      node_methods := methods\<rparr>"

definition embedding :: "string \<Rightarrow> string list \<Rightarrow> TypeNode" where
  "embedding i names = (blank_node_of KStruct)
     \<lparr>node_id := i,
      node_fields := map (\<lambda>name. \<lparr>sf_name = name, sf_type = node_of KNamed name, sf_tag = [],
                                    sf_embedded = True\<rparr>) names\<rparr>"

definition promotion_table :: TypeTable where
  "promotion_table = \<lparr>Nodes = [named_node ''A'' ''a'' [method_M], named_node ''B'' ''b'' [method_M],
       named_node ''C'' ''b'' [method_M], named_node ''T'' ''t'' [],
       embedding ''a'' [''C''], embedding ''b'' [], embedding ''t'' [''A'', ''B'']],
     byID = [''A'' \<mapsto> 0, ''B'' \<mapsto> 1, ''C'' \<mapsto> 2, ''T'' \<mapsto> 3, ''a'' \<mapsto> 4, ''b'' \<mapsto> 5, ''t'' \<mapsto> 6],
     byName = Map.empty, owned = True, underlying_cache = Map.empty\<rparr>"

lemma ambiguous_method_promoted:
  "map_option (\<lambda>available. available ''M'' \<noteq> None)
     (methodSet 9 (NewRelations (Some promotion_table)) (node_of KNamed ''T'') None) = Some True"
  by code_simp

end
