(* ===== verification/Json.thy ===== *)
theory Json
  imports Wire
begin

text \<open>
  What the bytecode package uses of \<^verbatim>\<open>encoding/json\<close>: the scanner, the strings, and the
  decoding of a value into a Go value under \<^verbatim>\<open>DisallowUnknownFields\<close>
  (\<^verbatim>\<open>src/runtime/bytecode/strict_json.go\<close> is the caller).

  The scanner is the push-down automaton of the library: one state, a stack of open arrays
  and objects, one step per byte; what it has read so far is kept in the stack instead of
  being scanned a second time.  A decoder takes the old value of the variable it fills and
  the JSON value; \<open>None\<close> is an error.  The library goes on after a type mismatch and reports
  it at the end; no caller looks at the value then, so the decoders stop there.
\<close>

section \<open>Values and the scanner\<close>

datatype json =
    JNull
  | JBool bool
  | JNumber string
  | JString string
  | JArray "json list"
  | JObject "(string \<times> json) list"

text \<open>The open arrays and objects; the elements are in reverse order.\<close>

datatype json_open =
    OpenArray "json list"
  | OpenObject "(string \<times> json) list"
  | OpenMember "(string \<times> json) list" string

datatype number_state = NumNeg | NumZero | NumInt | NumDot | NumFrac | NumExp | NumExpSign | NumExpDigits

datatype scan_mode =
    AtValue
  | AtValueOrEnd
  | AtKeyOrEnd
  | AtKey
  | AtColon string
  | AfterValue json
  | InString bool string
  | InEscape bool string
  | InHex nat bool string
  | InNumber number_state string
  | InLiteral string json
  | ScanError

type_synonym scan_state = "json_open list \<times> scan_mode"

definition json_space :: "char \<Rightarrow> bool" where
  "json_space c = (c = CHR '' '' \<or> c = CHR 0x09 \<or> c = CHR 0x0A \<or> c = CHR 0x0D)"

definition json_digit :: "char \<Rightarrow> bool" where
  "json_digit c = (CHR ''0'' \<le> c \<and> c \<le> CHR ''9'')"

definition json_hex :: "char \<Rightarrow> bool" where
  "json_hex c = (json_digit c \<or> (CHR ''a'' \<le> c \<and> c \<le> CHR ''f'') \<or> (CHR ''A'' \<le> c \<and> c \<le> CHR ''F''))"

definition maxNestingDepth :: nat where
  "maxNestingDepth = 10000"

definition push_open :: "json_open \<Rightarrow> scan_mode \<Rightarrow> json_open list \<Rightarrow> scan_state" where
  "push_open f m st = (if length st < maxNestingDepth then (f # st, m) else (st, ScanError))"

section \<open>Strings\<close>

definition utf8_encode :: "nat \<Rightarrow> string" where
  "utf8_encode r =
     map char_of
       (if r < 128 then [r]
        else if r < 2048 then [192 + r div 64, 128 + r mod 64]
        else if r < 65536 then [224 + r div 4096, 128 + r div 64 mod 64, 128 + r mod 64]
        else [240 + r div 262144, 128 + r div 4096 mod 64, 128 + r div 64 mod 64, 128 + r mod 64])"

definition hex_value :: "char \<Rightarrow> nat" where
  "hex_value c =
     (if json_digit c then byte_val c - 48
      else if CHR ''a'' \<le> c then byte_val c - 87 else byte_val c - 55)"

definition hex4 :: "string \<Rightarrow> nat" where
  "hex4 s = foldl (\<lambda>n c. 16 * n + hex_value c) 0 (take 4 s)"

definition replacement :: string where
  "replacement = utf8_encode 65533"

definition escape_value :: "char \<Rightarrow> char" where
  "escape_value c =
     (if c = CHR ''b'' then CHR 0x08 else if c = CHR ''f'' then CHR 0x0C
      else if c = CHR ''n'' then CHR 0x0A else if c = CHR ''r'' then CHR 0x0D
      else if c = CHR ''t'' then CHR 0x09 else c)"

definition is_surrogate :: "nat \<Rightarrow> bool" where
  "is_surrogate r = (55296 \<le> r \<and> r < 57344)"

text \<open>\<^verbatim>\<open>utf16.DecodeRune\<close>: \<open>None\<close> unless the two units are a pair.\<close>

definition surrogate_pair :: "nat \<Rightarrow> nat \<Rightarrow> nat option" where
  "surrogate_pair hi lo =
     (if 55296 \<le> hi \<and> hi < 56320 \<and> 56320 \<le> lo \<and> lo < 57344
      then Some ((hi - 55296) * 1024 + (lo - 56320) + 65536) else None)"

definition escaped_unit :: "string \<Rightarrow> nat option" where
  "escaped_unit s =
     (if 6 \<le> length s \<and> take 2 s = [CHR 0x5C, CHR ''u''] \<and> list_all json_hex (take 4 (drop 2 s))
      then Some (hex4 (drop 2 s)) else None)"

function unquote :: "string \<Rightarrow> string" where
  "unquote s =
     (case s of
        [] \<Rightarrow> []
      | c # t \<Rightarrow>
          if c = CHR 0x5C then
            (case t of
               [] \<Rightarrow> []
             | e # u \<Rightarrow>
                 if e = CHR ''u'' then
                   (let r = hex4 u; rest = drop 4 u in
                    if is_surrogate r then
                      (case escaped_unit rest of
                         None \<Rightarrow> replacement @ unquote rest
                       | Some r1 \<Rightarrow>
                           (case surrogate_pair r r1 of
                              None \<Rightarrow> replacement @ unquote rest
                            | Some rune \<Rightarrow> utf8_encode rune @ unquote (drop 6 rest)))
                    else utf8_encode r @ unquote rest)
                 else escape_value e # unquote u)
          else
            (let n = utf8_size s in
             if n = 0 then replacement @ unquote t else take n s @ unquote (drop n s)))"
  by pat_completeness auto
termination
  by (relation "measure length") auto

section \<open>One step of the scanner\<close>

definition begin_value :: "char \<Rightarrow> json_open list \<Rightarrow> scan_mode \<Rightarrow> scan_state" where
  "begin_value c st m =
     (if json_space c then (st, m)
      else if c = CHR ''{'' then push_open (OpenObject []) AtKeyOrEnd st
      else if c = CHR ''['' then push_open (OpenArray []) AtValueOrEnd st
      else if c = CHR 0x22 then (st, InString False [])
      else if c = CHR ''-'' then (st, InNumber NumNeg [c])
      else if c = CHR ''0'' then (st, InNumber NumZero [c])
      else if json_digit c then (st, InNumber NumInt [c])
      else if c = CHR ''t'' then (st, InLiteral ''rue'' (JBool True))
      else if c = CHR ''f'' then (st, InLiteral ''alse'' (JBool False))
      else if c = CHR ''n'' then (st, InLiteral ''ull'' JNull)
      else (st, ScanError))"

fun end_value :: "char \<Rightarrow> json_open list \<Rightarrow> json \<Rightarrow> scan_state" where
  "end_value c [] v = ([], if json_space c then AfterValue v else ScanError)"
| "end_value c (OpenArray vs # st) v =
     (if json_space c then (OpenArray vs # st, AfterValue v)
      else if c = CHR '','' then (OpenArray (v # vs) # st, AtValue)
      else if c = CHR '']'' then (st, AfterValue (JArray (rev (v # vs))))
      else (st, ScanError))"
| "end_value c (OpenMember ms k # st) v =
     (if json_space c then (OpenMember ms k # st, AfterValue v)
      else if c = CHR '','' then (OpenObject ((k, v) # ms) # st, AtKey)
      else if c = CHR ''}'' then (st, AfterValue (JObject (rev ((k, v) # ms))))
      else (st, ScanError))"
| "end_value c (OpenObject ms # st) v = (st, ScanError)"

fun number_step :: "number_state \<Rightarrow> char \<Rightarrow> number_state option" where
  "number_step NumNeg c =
     (if c = CHR ''0'' then Some NumZero else if json_digit c then Some NumInt else None)"
| "number_step NumZero c =
     (if c = CHR ''.'' then Some NumDot else if c = CHR ''e'' \<or> c = CHR ''E'' then Some NumExp else None)"
| "number_step NumInt c =
     (if json_digit c then Some NumInt else if c = CHR ''.'' then Some NumDot
      else if c = CHR ''e'' \<or> c = CHR ''E'' then Some NumExp else None)"
| "number_step NumDot c = (if json_digit c then Some NumFrac else None)"
| "number_step NumFrac c =
     (if json_digit c then Some NumFrac
      else if c = CHR ''e'' \<or> c = CHR ''E'' then Some NumExp else None)"
| "number_step NumExp c =
     (if c = CHR ''+'' \<or> c = CHR ''-'' then Some NumExpSign
      else if json_digit c then Some NumExpDigits else None)"
| "number_step NumExpSign c = (if json_digit c then Some NumExpDigits else None)"
| "number_step NumExpDigits c = (if json_digit c then Some NumExpDigits else None)"

definition number_complete :: "number_state \<Rightarrow> bool" where
  "number_complete s = (s \<in> {NumZero, NumInt, NumFrac, NumExpDigits})"

fun scan_step :: "scan_state \<Rightarrow> char \<Rightarrow> scan_state" where
  "scan_step (st, AtValue) c = begin_value c st AtValue"
| "scan_step (OpenArray vs # st, AtValueOrEnd) c =
     (if c = CHR '']'' then (st, AfterValue (JArray []))
      else begin_value c (OpenArray vs # st) AtValueOrEnd)"
| "scan_step (st, AtKeyOrEnd) c =
     (if json_space c then (st, AtKeyOrEnd)
      else if c = CHR ''}'' then (tl st, AfterValue (JObject []))
      else if c = CHR 0x22 then (st, InString True []) else (st, ScanError))"
| "scan_step (st, AtKey) c =
     (if json_space c then (st, AtKey)
      else if c = CHR 0x22 then (st, InString True []) else (st, ScanError))"
| "scan_step (OpenObject ms # st, AtColon k) c =
     (if json_space c then (OpenObject ms # st, AtColon k)
      else if c = CHR '':'' then (OpenMember ms k # st, AtValue) else (st, ScanError))"
| "scan_step (st, AfterValue v) c = end_value c st v"
| "scan_step (st, InString key raw) c =
     (if c = CHR 0x22 then
        (st, if key then AtColon (unquote (rev raw)) else AfterValue (JString (unquote (rev raw))))
      else if c = CHR 0x5C then (st, InEscape key (c # raw))
      else if byte_val c < (32 :: nat) then (st, ScanError)
      else (st, InString key (c # raw)))"
| "scan_step (st, InEscape key raw) c =
     (if c \<in> set [CHR ''b'', CHR ''f'', CHR ''n'', CHR ''r'', CHR ''t'', CHR 0x5C, CHR ''/'', CHR 0x22]
      then (st, InString key (c # raw))
      else if c = CHR ''u'' then (st, InHex 4 key (c # raw)) else (st, ScanError))"
| "scan_step (st, InHex n key raw) c =
     (if \<not> json_hex c then (st, ScanError)
      else if n \<le> 1 then (st, InString key (c # raw)) else (st, InHex (n - 1) key (c # raw)))"
| "scan_step (st, InNumber ns raw) c =
     (case number_step ns c of
        Some ns' \<Rightarrow> (st, InNumber ns' (c # raw))
      | None \<Rightarrow> if number_complete ns then end_value c st (JNumber (rev raw)) else (st, ScanError))"
| "scan_step (st, InLiteral rest v) c =
     (case rest of
        [] \<Rightarrow> (st, ScanError)
      | x # xs \<Rightarrow> if c \<noteq> x then (st, ScanError)
                   else if xs = [] then (st, AfterValue v) else (st, InLiteral xs v))"
| "scan_step (st, m) c = (st, ScanError)"

fun scan_result :: "scan_state \<Rightarrow> json option" where
  "scan_result ([], AfterValue v) = Some v"
| "scan_result ([], InNumber ns raw) =
     (if number_complete ns then Some (JNumber (rev raw)) else None)"
| "scan_result _ = None"

text \<open>The one JSON value a text holds, \<open>None\<close> when it is no valid JSON (\<^verbatim>\<open>json.Valid\<close>).\<close>

definition json_parse :: "string \<Rightarrow> json option" where
  "json_parse s = scan_result (foldl scan_step ([], AtValue) s)"

section \<open>Decoding into Go values\<close>

type_synonym 'a decoder = "'a \<Rightarrow> json \<Rightarrow> 'a option"

fun dec_string :: "string decoder" where
  "dec_string old (JString s) = Some s"
| "dec_string old JNull = Some old"
| "dec_string old _ = None"

fun dec_bool :: "bool decoder" where
  "dec_bool old (JBool b) = Some b"
| "dec_bool old JNull = Some old"
| "dec_bool old _ = None"

text \<open>\<^verbatim>\<open>int\<close> is 64 bits wide; a \<^verbatim>\<open>uint8\<close> takes no sign.\<close>

fun dec_int :: "int decoder" where
  "dec_int old (JNumber s) = ParseInt64 s"
| "dec_int old JNull = Some old"
| "dec_int old _ = None"

fun dec_uint8 :: "nat decoder" where
  "dec_uint8 old (JNumber s) =
     (case ParseUint s 10 of None \<Rightarrow> None | Some n \<Rightarrow> if n < 256 then Some n else None)"
| "dec_uint8 old JNull = Some old"
| "dec_uint8 old _ = None"

fun dec_items :: "'a decoder \<Rightarrow> 'a \<Rightarrow> 'a list \<Rightarrow> json list \<Rightarrow> 'a list option" where
  "dec_items d zero olds [] = Some []"
| "dec_items d zero olds (j # js) =
     (case d (case olds of [] \<Rightarrow> zero | old # _ \<Rightarrow> old) j of
        None \<Rightarrow> None
      | Some x \<Rightarrow> map_option ((#) x) (dec_items d zero (tl olds) js))"

fun dec_list :: "'a decoder \<Rightarrow> 'a \<Rightarrow> 'a list decoder" where
  "dec_list d zero olds (JArray js) = dec_items d zero olds js"
| "dec_list d zero olds JNull = Some []"
| "dec_list d zero olds _ = None"

text \<open>
  A struct is decoded member by member: the field of exactly the member's name, else the one
  whose name agrees up to case (the Kelvin sign and the long s fold to ASCII letters), else
  an error.
\<close>

fun fold_name :: "string \<Rightarrow> string" where
  "fold_name [] = []"
| "fold_name (c # s) =
     (if byte_val c = (226 :: nat) \<and> map byte_val (take 2 s) = [132 :: nat, 170]
      then CHR ''K'' # fold_name (drop 2 s)
      else if byte_val c = (197 :: nat) \<and> map byte_val (take 1 s) = [191 :: nat]
      then CHR ''S'' # fold_name (drop 1 s)
      else (if CHR ''a'' \<le> c \<and> c \<le> CHR ''z'' then char_of (byte_val c - 32 :: nat) else c)
           # fold_name s)"

definition field_for :: "(string \<times> 'f) list \<Rightarrow> string \<Rightarrow> 'f option" where
  "field_for fs k =
     (case map_of fs k of
        Some f \<Rightarrow> Some f
      | None \<Rightarrow> map_of (map (\<lambda>(n, f). (fold_name n, f)) fs) (fold_name k))"

fun dec_members :: "(string \<times> 'a decoder) list \<Rightarrow> 'a \<Rightarrow> (string \<times> json) list \<Rightarrow> 'a option" where
  "dec_members fs x [] = Some x"
| "dec_members fs x ((k, j) # ms) =
     (case field_for fs k of
        None \<Rightarrow> None
      | Some d \<Rightarrow> (case d x j of None \<Rightarrow> None | Some y \<Rightarrow> dec_members fs y ms))"

fun dec_struct :: "(string \<times> 'a decoder) list \<Rightarrow> 'a decoder" where
  "dec_struct fs x (JObject ms) = dec_members fs x ms"
| "dec_struct fs x JNull = Some x"
| "dec_struct fs x _ = None"

definition field :: "('a \<Rightarrow> 'b) \<Rightarrow> ('b \<Rightarrow> 'a \<Rightarrow> 'a) \<Rightarrow> 'b decoder \<Rightarrow> 'a decoder" where
  "field get put d x j = map_option (\<lambda>v. put v x) (d (get x) j)"

definition strictUnmarshal :: "'a decoder \<Rightarrow> 'a \<Rightarrow> string \<Rightarrow> 'a option" where
  "strictUnmarshal d zero raw =
     (case json_parse raw of None \<Rightarrow> None | Some j \<Rightarrow> d zero j)"

definition DecodeInstructionPayload :: "'a decoder \<Rightarrow> 'a \<Rightarrow> string \<Rightarrow> 'a option" where
  "DecodeInstructionPayload d zero raw = strictUnmarshal d zero (if raw = [] then ''{}'' else raw)"

text \<open>JSON texts of the examples are written with a tilde for the quotation mark.\<close>

definition json_text :: "string \<Rightarrow> string" where
  "json_text s = map (\<lambda>c. if c = CHR ''~'' then CHR 0x22 else c) s"

lemma json_text_Nil [simp]: "json_text s = [] \<longleftrightarrow> s = []"
  by (simp add: json_text_def)

lemma json_parse_sample:
  "json_parse (json_text '' {~a~ : [1, -2.5e3, true, null, ~x~], ~b~:{} } '') =
     Some (JObject [(''a'', JArray [JNumber ''1'', JNumber ''-2.5e3'', JBool True, JNull, JString ''x'']),
                    (''b'', JObject [])])"
  by code_simp

lemma DecodeInstructionPayload_empty: "DecodeInstructionPayload (dec_struct fs) x [] = Some x"
  by (simp add: DecodeInstructionPayload_def strictUnmarshal_def json_parse_def begin_value_def
      json_space_def push_open_def maxNestingDepth_def)

end
