(* ===== verification/Bytecode.thy ===== *)
theory Bytecode
  imports Types Json
begin

text \<open>
  Instructions, their payloads and their effect on the operand stack: the tables of
  \<^verbatim>\<open>src/runtime/bytecode/opcode.go\<close> and \<^verbatim>\<open>opcode_contract.go\<close>, the payload structs of
  \<^verbatim>\<open>payload.go\<close>, the errors of \<^verbatim>\<open>validation_error.go\<close> and \<^verbatim>\<open>instructionStackEffect\<close> of
  \<^verbatim>\<open>stack.go\<close>.

  A payload is the JSON text of the artifact; a struct decodes with the names of its Go
  tags.  The counts are Go \<^verbatim>\<open>int\<close>s of 64 bits and the arithmetic on them wraps around.
  The texts of errors are left out, their codes and paths are kept.
\<close>

section \<open>Errors\<close>

datatype validation_code =
    ValidationArtifactNil | ValidationArtifactFormatUnsupported | ValidationArtifactVersionUnsupported
  | ValidationArtifactOpcodeUnsupported | ValidationRequirementInvalid | ValidationLimitExceeded
  | ValidationFieldMissing | ValidationReferenceUnknown | ValidationOpcodeUnknown
  | ValidationPayloadUnexpected | ValidationPayloadInvalidJSON | ValidationIDDuplicate
  | ValidationLabelDuplicate | ValidationLabelUnknown | ValidationDebugFileDuplicate
  | ValidationReferenceOutOfRange | ValidationSchemaMismatch | ValidationValueUnsupported
  | ValidationTypeMethodDuplicate | ValidationStackUnderflow | ValidationStackUnbalanced
  | ValidationNoSwitchInvalid | ValidationFailed

record ValidationError =
  ve_code :: validation_code
  ve_path :: string

definition newCodedValidationError :: "validation_code \<Rightarrow> string \<Rightarrow> ValidationError" where
  "newCodedValidationError code path = \<lparr>ve_code = code, ve_path = path\<rparr>"

definition newValidationError :: "string \<Rightarrow> ValidationError" where
  "newValidationError path = newCodedValidationError ValidationFailed path"

definition missingValidationError :: "string \<Rightarrow> ValidationError" where
  "missingValidationError path = newCodedValidationError ValidationFieldMissing path"

definition unknownValidationError :: "string \<Rightarrow> ValidationError" where
  "unknownValidationError path = newCodedValidationError ValidationReferenceUnknown path"

definition schemaMismatchValidationError :: "string \<Rightarrow> ValidationError" where
  "schemaMismatchValidationError path = newCodedValidationError ValidationSchemaMismatch path"

definition unsupportedValueValidationError :: "string \<Rightarrow> ValidationError" where
  "unsupportedValueValidationError path = newCodedValidationError ValidationValueUnsupported path"

text \<open>The path of an element of a section: \<^verbatim>\<open>section[i]\<close>.\<close>

definition index_path :: "string \<Rightarrow> nat \<Rightarrow> string" where
  "index_path p i = p @ ''['' @ FormatUint i @ '']''"

section \<open>Opcodes\<close>

record OpcodeSpec =
  spec_op :: string
  spec_payload :: string
  spec_terminal :: bool

definition spec :: "string \<Rightarrow> string \<Rightarrow> bool \<Rightarrow> OpcodeSpec" where
  "spec op p t = \<lparr>spec_op = op, spec_payload = p, spec_terminal = t\<rparr>"

definition opcodeSpecs :: "OpcodeSpec list" where
  "opcodeSpecs =
     [spec ''const'' ''const'' False,
      spec ''zero'' ''type'' False,
      spec ''pop'' '''' False,
      spec ''unary'' ''operator'' False,
      spec ''binary'' ''operator'' False,
      spec ''load_local'' ''local'' False,
      spec ''store_local'' ''local'' False,
      spec ''load_upvalue'' ''upvalue'' False,
      spec ''store_upvalue'' ''upvalue'' False,
      spec ''load_global'' ''global'' False,
      spec ''store_global'' ''global'' False,
      spec ''label'' ''label'' False,
      spec ''jump'' ''jump'' True,
      spec ''jump_if'' ''jump'' False,
      spec ''return'' ''return'' True,
      spec ''panic'' '''' True,
      spec ''recover'' '''' False,
      spec ''defer_push'' ''defer'' False,
      spec ''call_value'' ''call'' False,
      spec ''call_direct'' ''call'' False,
      spec ''tail_call_direct'' ''call'' True,
      spec ''call_interface'' ''call_interface'' False,
      spec ''make_closure'' ''closure'' False,
      spec ''make_sequence'' ''make_sequence'' False,
      spec ''make_map'' ''make_map'' False,
      spec ''make_struct'' ''make_struct'' False,
      spec ''make_slice'' ''make_slice'' False,
      spec ''make_waitable'' ''make_waitable'' False,
      spec ''load_index'' '''' False,
      spec ''load_index_ok'' '''' False,
      spec ''string_rune_at'' '''' False,
      spec ''string_next_rune_index'' '''' False,
      spec ''slice'' '''' False,
      spec ''len'' '''' False,
      spec ''cap'' '''' False,
      spec ''append'' ''count'' False,
      spec ''delete'' '''' False,
      spec ''clear'' '''' False,
      spec ''copy'' '''' False,
      spec ''map_keys'' '''' False,
      spec ''map_iter_init'' ''local'' False,
      spec ''map_iter_next'' ''local'' False,
      spec ''map_iter_close'' ''local'' False,
      spec ''load_field'' ''field'' False,
      spec ''store_index'' '''' False,
      spec ''store_field'' ''field'' False,
      spec ''type_assert'' ''type'' False,
      spec ''type_assert_ok'' ''type'' False,
      spec ''convert'' ''type'' False,
      spec ''address_of'' ''address'' False,
      spec ''load_indirect'' '''' False,
      spec ''store_indirect'' '''' False,
      spec ''waitable_send'' '''' False,
      spec ''waitable_recv'' '''' False,
      spec ''waitable_recv_ok'' '''' False,
      spec ''waitable_can_recv'' '''' False,
      spec ''waitable_try_recv'' '''' False,
      spec ''waitable_try_send'' '''' False,
      spec ''waitable_subscribe_recv'' '''' False,
      spec ''waitable_subscribe_send'' '''' False,
      spec ''waitable_can_send'' '''' False,
      spec ''waitable_close'' '''' False,
      spec ''init_module'' ''init_module'' False,
      spec ''load_export'' ''export'' False,
      spec ''spawn'' ''call'' False,
      spec ''make_wait_token'' '''' False,
      spec ''wait_token_signal'' '''' False,
      spec ''wait_token_cancel'' '''' False,
      spec ''make_wait_set'' '''' False,
      spec ''wait_set_add'' '''' False,
      spec ''wait_set_poll'' '''' False,
      spec ''wait_set_park'' '''' False,
      spec ''wait_set_cancel'' '''' False,
      spec ''call_ffi'' ''call_ffi'' False,
      spec ''call_intrinsic'' ''call_intrinsic'' False]"

definition OpcodeSpecFor :: "string \<Rightarrow> OpcodeSpec option" where
  "OpcodeSpecFor op = find (\<lambda>s. spec_op s = op) opcodeSpecs"

definition IsKnownOpcode :: "string \<Rightarrow> bool" where
  "IsKnownOpcode op = (op \<in> set (map spec_op opcodeSpecs))"

section \<open>Intrinsics\<close>

text \<open>The descriptors of \<^verbatim>\<open>intrinsic.go\<close>, without the type texts the compiler reads.\<close>

datatype IntrinsicEffect =
    IntrinsicPure | IntrinsicMutatesVM | IntrinsicMayCallGuest | IntrinsicMayBlock | IntrinsicReadsRuntime

record IntrinsicDescriptor =
  intr_id :: string
  intr_module :: string
  intr_function :: string
  intr_arg_count :: int
  intr_result_count :: int
  intr_effect :: IntrinsicEffect

definition intrinsic ::
  "string \<Rightarrow> string \<Rightarrow> string \<Rightarrow> int \<Rightarrow> int \<Rightarrow> IntrinsicEffect \<Rightarrow> IntrinsicDescriptor" where
  "intrinsic i m f a r e =
     \<lparr>intr_id = i, intr_module = m, intr_function = f, intr_arg_count = a,
      intr_result_count = r, intr_effect = e\<rparr>"

definition intrinsicDescriptors :: "IntrinsicDescriptor list" where
  "intrinsicDescriptors =
     [intrinsic ''crypto.rand.read'' ''crypto/rand'' ''runtimeRead'' 1 3 IntrinsicMutatesVM,
      intrinsic ''crypto.sha256.block'' ''crypto/sha256'' ''runtimeBlock'' 2 1 IntrinsicPure,
      intrinsic ''ffi.call'' ''ffi'' ''runtimeCall'' 2 3 IntrinsicMayBlock,
      intrinsic ''math.float64_bits'' ''math'' ''runtimeFloat64bits'' 1 1 IntrinsicPure,
      intrinsic ''math.float64_from_bits'' ''math'' ''runtimeFloat64frombits'' 1 1 IntrinsicPure,
      intrinsic ''math.float32_bits'' ''math'' ''runtimeFloat32bits'' 1 1 IntrinsicPure,
      intrinsic ''math.float32_from_bits'' ''math'' ''runtimeFloat32frombits'' 1 1 IntrinsicPure,
      intrinsic ''reflect.type_of'' ''reflect'' ''runtimeTypeOf'' 1 1 IntrinsicPure,
      intrinsic ''reflect.type_descriptor'' ''reflect'' ''runtimeTypeDescriptor'' 1 3 IntrinsicPure,
      intrinsic ''reflect.deep_equal'' ''reflect'' ''runtimeDeepEqual'' 2 1 IntrinsicPure,
      intrinsic ''reflect.same_reference'' ''reflect'' ''runtimeSameReference'' 2 1 IntrinsicPure,
      intrinsic ''reflect.type_field'' ''reflect'' ''runtimeTypeField'' 2 3 IntrinsicPure,
      intrinsic ''reflect.type_method'' ''reflect'' ''runtimeTypeMethod'' 2 3 IntrinsicPure,
      intrinsic ''reflect.array_of'' ''reflect'' ''runtimeArrayOf'' 2 3 IntrinsicPure,
      intrinsic ''reflect.chan_of'' ''reflect'' ''runtimeChanOf'' 2 3 IntrinsicPure,
      intrinsic ''reflect.func_of'' ''reflect'' ''runtimeFuncOf'' 3 3 IntrinsicPure,
      intrinsic ''reflect.struct_of'' ''reflect'' ''runtimeStructOf'' 1 3 IntrinsicPure,
      intrinsic ''reflect.assignable_to'' ''reflect'' ''runtimeAssignableTo'' 2 1 IntrinsicPure,
      intrinsic ''reflect.convertible_to'' ''reflect'' ''runtimeConvertibleTo'' 2 1 IntrinsicPure,
      intrinsic ''reflect.implements'' ''reflect'' ''runtimeImplements'' 2 1 IntrinsicPure,
      intrinsic ''reflect.pointer_to'' ''reflect'' ''runtimePointerTo'' 1 3 IntrinsicPure,
      intrinsic ''reflect.slice_of'' ''reflect'' ''runtimeSliceOf'' 1 3 IntrinsicPure,
      intrinsic ''reflect.map_of'' ''reflect'' ''runtimeMapOf'' 2 3 IntrinsicPure,
      intrinsic ''reflect.value_of'' ''reflect'' ''runtimeValueOf'' 1 1 IntrinsicPure,
      intrinsic ''reflect.value_elem'' ''reflect'' ''runtimeValueElem'' 1 3 IntrinsicPure,
      intrinsic ''reflect.value_addr'' ''reflect'' ''runtimeValueAddr'' 1 3 IntrinsicPure,
      intrinsic ''reflect.value_slice'' ''reflect'' ''runtimeValueSlice'' 3 3 IntrinsicPure,
      intrinsic ''reflect.value_slice3'' ''reflect'' ''runtimeValueSlice3'' 4 3 IntrinsicPure,
      intrinsic ''reflect.value_current'' ''reflect'' ''runtimeValueCurrent'' 1 3 IntrinsicPure,
      intrinsic ''reflect.value_equal'' ''reflect'' ''runtimeValueEqual'' 2 3 IntrinsicPure,
      intrinsic ''reflect.value_convert'' ''reflect'' ''runtimeValueConvert'' 2 3 IntrinsicPure,
      intrinsic ''reflect.value_append'' ''reflect'' ''runtimeValueAppend'' 2 3 IntrinsicMutatesVM,
      intrinsic ''reflect.value_append_slice'' ''reflect'' ''runtimeValueAppendSlice'' 2 3 IntrinsicMutatesVM,
      intrinsic ''reflect.value_copy'' ''reflect'' ''runtimeValueCopy'' 2 3 IntrinsicMutatesVM,
      intrinsic ''reflect.value_set_len'' ''reflect'' ''runtimeValueSetLen'' 2 2 IntrinsicMutatesVM,
      intrinsic ''reflect.value_set_cap'' ''reflect'' ''runtimeValueSetCap'' 2 2 IntrinsicMutatesVM,
      intrinsic ''reflect.value_grow'' ''reflect'' ''runtimeValueGrow'' 2 2 IntrinsicMutatesVM,
      intrinsic ''reflect.value_field_by_index'' ''reflect'' ''runtimeValueFieldByIndex'' 2 3 IntrinsicPure,
      intrinsic ''reflect.value_index'' ''reflect'' ''runtimeValueIndex'' 2 3 IntrinsicPure,
      intrinsic ''reflect.value_set'' ''reflect'' ''runtimeValueSet'' 2 2 IntrinsicMutatesVM,
      intrinsic ''reflect.value_swap'' ''reflect'' ''runtimeValueSwap'' 3 2 IntrinsicMutatesVM,
      intrinsic ''reflect.value_set_map_index'' ''reflect'' ''runtimeValueSetMapIndex'' 3 2 IntrinsicMutatesVM,
      intrinsic ''reflect.value_method'' ''reflect'' ''runtimeValueMethod'' 2 3 IntrinsicPure,
      intrinsic ''reflect.value_call'' ''reflect'' ''runtimeValueCall'' 3 3 IntrinsicMayCallGuest,
      intrinsic ''reflect.make_func'' ''reflect'' ''runtimeMakeFunc'' 2 3 IntrinsicPure,
      intrinsic ''reflect.value_recv'' ''reflect'' ''runtimeValueRecv'' 1 4 IntrinsicMayBlock,
      intrinsic ''reflect.make_chan'' ''reflect'' ''runtimeMakeChan'' 2 3 IntrinsicMutatesVM,
      intrinsic ''reflect.value_send'' ''reflect'' ''runtimeValueSend'' 2 2 IntrinsicMayBlock,
      intrinsic ''reflect.value_try_recv'' ''reflect'' ''runtimeValueTryRecv'' 1 4 IntrinsicMutatesVM,
      intrinsic ''reflect.value_try_send'' ''reflect'' ''runtimeValueTrySend'' 2 3 IntrinsicMutatesVM,
      intrinsic ''reflect.value_close'' ''reflect'' ''runtimeValueClose'' 1 2 IntrinsicMutatesVM,
      intrinsic ''reflect.select'' ''reflect'' ''runtimeSelect'' 1 5 IntrinsicMayBlock,
      intrinsic ''reflect.zero'' ''reflect'' ''runtimeZero'' 1 3 IntrinsicPure,
      intrinsic ''reflect.new'' ''reflect'' ''runtimeNew'' 1 3 IntrinsicPure,
      intrinsic ''reflect.make_slice'' ''reflect'' ''runtimeMakeSlice'' 3 3 IntrinsicPure,
      intrinsic ''reflect.make_map'' ''reflect'' ''runtimeMakeMap'' 1 3 IntrinsicPure,
      intrinsic ''time.now'' ''time'' ''runtimeNow'' 0 2 IntrinsicReadsRuntime,
      intrinsic ''time.timer_start'' ''time'' ''runtimeTimerStart'' 3 0 IntrinsicMutatesVM,
      intrinsic ''time.timer_stop'' ''time'' ''runtimeTimerStop'' 1 1 IntrinsicMutatesVM]"

text \<open>The maps are filled in order, so a later descriptor of the same key wins.\<close>

definition Intrinsic :: "string \<Rightarrow> IntrinsicDescriptor option" where
  "Intrinsic i = find (\<lambda>d. intr_id d = i) (rev intrinsicDescriptors)"

definition IntrinsicForSource :: "string \<Rightarrow> string \<Rightarrow> IntrinsicDescriptor option" where
  "IntrinsicForSource m f =
     find (\<lambda>d. intr_module d @ CHR 0x00 # intr_function d = m @ CHR 0x00 # f) (rev intrinsicDescriptors)"

section \<open>Instructions and payloads\<close>

record Instruction =
  inst_op :: string
  inst_payload :: string

definition kind_of_byte :: "nat \<Rightarrow> Kind" where
  "kind_of_byte n =
     (if n < 16 then
        [KInvalid, KVoid, KAny, KPrimitive, KNamed, KSlice, KArray, KMap, KPointer, KWaitable,
         KFunction, KTuple, KStruct, KInterface, KTypeParameter, KInstance] ! n
      else KUnknown n)"

definition primitive_of_byte :: "nat \<Rightarrow> PrimitiveKind" where
  "primitive_of_byte n =
     (if n < 22 then
        [PrimitiveInvalid, PrimitiveBool, PrimitiveString, PrimitiveInt, PrimitiveInt8,
         PrimitiveInt16, PrimitiveInt32, PrimitiveInt64, PrimitiveUint, PrimitiveUint8,
         PrimitiveUint16, PrimitiveUint32, PrimitiveUint64, PrimitiveUintptr, PrimitiveFloat32,
         PrimitiveFloat64, PrimitiveComplex64, PrimitiveComplex128, PrimitiveError,
         PrimitiveFunction, PrimitiveWaitToken, PrimitiveWaitSet] ! n
      else PrimitiveUnknown n)"

definition dec_enum :: "(nat \<Rightarrow> 'a) \<Rightarrow> 'a decoder" where
  "dec_enum f old j = (if j = JNull then Some old else map_option f (dec_uint8 0 j))"

definition dec_type_key :: "TypeKey decoder" where
  "dec_type_key = dec_struct
     [(''module_path'', field key_module (\<lambda>v k. TypeKey v (key_decl k)) dec_string),
      (''decl_id'', field key_decl (\<lambda>v k. TypeKey (key_module k) v) dec_string)]"

definition dec_type_ref :: "TypeRef decoder" where
  "dec_type_ref = dec_struct
     [(''kind'', field ref_kind (\<lambda>v r. r\<lparr>ref_kind := v\<rparr>) (dec_enum kind_of_byte)),
      (''primitive'', field ref_primitive (\<lambda>v r. r\<lparr>ref_primitive := v\<rparr>) (dec_enum primitive_of_byte)),
      (''named'', field ref_named (\<lambda>v r. r\<lparr>ref_named := v\<rparr>) dec_type_key),
      (''node'', field ref_node (\<lambda>v r. r\<lparr>ref_node := v\<rparr>) dec_string)]"

record ConstPayload =
  cst_constant :: string

definition zero_const :: ConstPayload where
  "zero_const = \<lparr>cst_constant = []\<rparr>"

definition dec_const :: "ConstPayload decoder" where
  "dec_const = dec_struct
     [(''constant'', field cst_constant (\<lambda>v p. p\<lparr>cst_constant := v\<rparr>) dec_string)]"

record LocalPayload =
  lcp_local :: string
  lcp_rebind :: bool

definition zero_local :: LocalPayload where
  "zero_local = \<lparr>lcp_local = [], lcp_rebind = False\<rparr>"

definition dec_local :: "LocalPayload decoder" where
  "dec_local = dec_struct
     [(''local'', field lcp_local (\<lambda>v p. p\<lparr>lcp_local := v\<rparr>) dec_string),
      (''rebind'', field lcp_rebind (\<lambda>v p. p\<lparr>lcp_rebind := v\<rparr>) dec_bool)]"

record UpvaluePayload =
  uvp_upvalue :: string

definition zero_upvalue :: UpvaluePayload where
  "zero_upvalue = \<lparr>uvp_upvalue = []\<rparr>"

definition dec_upvalue :: "UpvaluePayload decoder" where
  "dec_upvalue = dec_struct
     [(''upvalue'', field uvp_upvalue (\<lambda>v p. p\<lparr>uvp_upvalue := v\<rparr>) dec_string)]"

record GlobalPayload =
  glp_global :: string

definition zero_global :: GlobalPayload where
  "zero_global = \<lparr>glp_global = []\<rparr>"

definition dec_global :: "GlobalPayload decoder" where
  "dec_global = dec_struct
     [(''global'', field glp_global (\<lambda>v p. p\<lparr>glp_global := v\<rparr>) dec_string)]"

record AddressPathSegment =
  seg_kind :: string
  seg_field :: string
  seg_local :: string

definition zero_segment :: AddressPathSegment where
  "zero_segment = \<lparr>seg_kind = [], seg_field = [], seg_local = []\<rparr>"

definition dec_segment :: "AddressPathSegment decoder" where
  "dec_segment = dec_struct
     [(''kind'', field seg_kind (\<lambda>v p. p\<lparr>seg_kind := v\<rparr>) dec_string),
      (''field'', field seg_field (\<lambda>v p. p\<lparr>seg_field := v\<rparr>) dec_string),
      (''local'', field seg_local (\<lambda>v p. p\<lparr>seg_local := v\<rparr>) dec_string)]"

record AddressPayload =
  adr_module_path :: string
  adr_export :: string
  adr_kind :: string
  adr_local :: string
  adr_upvalue :: string
  adr_global :: string
  adr_path :: "AddressPathSegment list"

definition zero_address :: AddressPayload where
  "zero_address = \<lparr>adr_module_path = [], adr_export = [], adr_kind = [], adr_local = [], adr_upvalue = [], adr_global = [], adr_path = []\<rparr>"

definition dec_address :: "AddressPayload decoder" where
  "dec_address = dec_struct
     [(''module_path'', field adr_module_path (\<lambda>v p. p\<lparr>adr_module_path := v\<rparr>) dec_string),
      (''export'', field adr_export (\<lambda>v p. p\<lparr>adr_export := v\<rparr>) dec_string),
      (''kind'', field adr_kind (\<lambda>v p. p\<lparr>adr_kind := v\<rparr>) dec_string),
      (''local'', field adr_local (\<lambda>v p. p\<lparr>adr_local := v\<rparr>) dec_string),
      (''upvalue'', field adr_upvalue (\<lambda>v p. p\<lparr>adr_upvalue := v\<rparr>) dec_string),
      (''global'', field adr_global (\<lambda>v p. p\<lparr>adr_global := v\<rparr>) dec_string),
      (''path'', field adr_path (\<lambda>v p. p\<lparr>adr_path := v\<rparr>) (dec_list dec_segment zero_segment))]"

record TypePayload =
  typ_type :: TypeRef

definition zero_type :: TypePayload where
  "zero_type = \<lparr>typ_type = zero_ref\<rparr>"

definition dec_type :: "TypePayload decoder" where
  "dec_type = dec_struct
     [(''type'', field typ_type (\<lambda>v p. p\<lparr>typ_type := v\<rparr>) dec_type_ref)]"

record OperatorPayload =
  opp_operator :: string

definition zero_operator :: OperatorPayload where
  "zero_operator = \<lparr>opp_operator = []\<rparr>"

definition dec_operator :: "OperatorPayload decoder" where
  "dec_operator = dec_struct
     [(''operator'', field opp_operator (\<lambda>v p. p\<lparr>opp_operator := v\<rparr>) dec_string)]"

record MakeSequencePayload =
  msq_type :: TypeRef
  msq_element_count :: int

definition zero_make_sequence :: MakeSequencePayload where
  "zero_make_sequence = \<lparr>msq_type = zero_ref, msq_element_count = 0\<rparr>"

definition dec_make_sequence :: "MakeSequencePayload decoder" where
  "dec_make_sequence = dec_struct
     [(''type'', field msq_type (\<lambda>v p. p\<lparr>msq_type := v\<rparr>) dec_type_ref),
      (''element_count'', field msq_element_count (\<lambda>v p. p\<lparr>msq_element_count := v\<rparr>) dec_int)]"

record MakeMapPayload =
  mm_type :: TypeRef
  mm_entry_count :: int
  mm_has_capacity :: bool

definition zero_make_map :: MakeMapPayload where
  "zero_make_map = \<lparr>mm_type = zero_ref, mm_entry_count = 0, mm_has_capacity = False\<rparr>"

definition dec_make_map :: "MakeMapPayload decoder" where
  "dec_make_map = dec_struct
     [(''type'', field mm_type (\<lambda>v p. p\<lparr>mm_type := v\<rparr>) dec_type_ref),
      (''entry_count'', field mm_entry_count (\<lambda>v p. p\<lparr>mm_entry_count := v\<rparr>) dec_int),
      (''has_capacity'', field mm_has_capacity (\<lambda>v p. p\<lparr>mm_has_capacity := v\<rparr>) dec_bool)]"

record MakeStructPayload =
  mst_type :: TypeRef
  mst_fields :: "string list"

definition zero_make_struct :: MakeStructPayload where
  "zero_make_struct = \<lparr>mst_type = zero_ref, mst_fields = []\<rparr>"

definition dec_make_struct :: "MakeStructPayload decoder" where
  "dec_make_struct = dec_struct
     [(''type'', field mst_type (\<lambda>v p. p\<lparr>mst_type := v\<rparr>) dec_type_ref),
      (''fields'', field mst_fields (\<lambda>v p. p\<lparr>mst_fields := v\<rparr>) (dec_list dec_string []))]"

record MakeSlicePayload =
  msl_type :: TypeRef
  msl_has_capacity :: bool

definition zero_make_slice :: MakeSlicePayload where
  "zero_make_slice = \<lparr>msl_type = zero_ref, msl_has_capacity = False\<rparr>"

definition dec_make_slice :: "MakeSlicePayload decoder" where
  "dec_make_slice = dec_struct
     [(''type'', field msl_type (\<lambda>v p. p\<lparr>msl_type := v\<rparr>) dec_type_ref),
      (''has_capacity'', field msl_has_capacity (\<lambda>v p. p\<lparr>msl_has_capacity := v\<rparr>) dec_bool)]"

record MakeWaitablePayload =
  mwt_type :: TypeRef

definition zero_make_waitable :: MakeWaitablePayload where
  "zero_make_waitable = \<lparr>mwt_type = zero_ref\<rparr>"

definition dec_make_waitable :: "MakeWaitablePayload decoder" where
  "dec_make_waitable = dec_struct
     [(''type'', field mwt_type (\<lambda>v p. p\<lparr>mwt_type := v\<rparr>) dec_type_ref)]"

record CountPayload =
  cp_count :: int
  cp_expand :: bool

definition zero_count :: CountPayload where
  "zero_count = \<lparr>cp_count = 0, cp_expand = False\<rparr>"

definition dec_count :: "CountPayload decoder" where
  "dec_count = dec_struct
     [(''count'', field cp_count (\<lambda>v p. p\<lparr>cp_count := v\<rparr>) dec_int),
      (''expand'', field cp_expand (\<lambda>v p. p\<lparr>cp_expand := v\<rparr>) dec_bool)]"

record FieldPayload =
  fp_field :: string

definition zero_field_name :: FieldPayload where
  "zero_field_name = \<lparr>fp_field = []\<rparr>"

definition dec_field_name :: "FieldPayload decoder" where
  "dec_field_name = dec_struct
     [(''field'', field fp_field (\<lambda>v p. p\<lparr>fp_field := v\<rparr>) dec_string)]"

record ExportPayload =
  exp_module_path :: string
  exp_export :: string

definition zero_export :: ExportPayload where
  "zero_export = \<lparr>exp_module_path = [], exp_export = []\<rparr>"

definition dec_export :: "ExportPayload decoder" where
  "dec_export = dec_struct
     [(''module_path'', field exp_module_path (\<lambda>v p. p\<lparr>exp_module_path := v\<rparr>) dec_string),
      (''export'', field exp_export (\<lambda>v p. p\<lparr>exp_export := v\<rparr>) dec_string)]"

record InitModulePayload =
  im_module_path :: string

definition zero_init_module :: InitModulePayload where
  "zero_init_module = \<lparr>im_module_path = []\<rparr>"

definition dec_init_module :: "InitModulePayload decoder" where
  "dec_init_module = dec_struct
     [(''module_path'', field im_module_path (\<lambda>v p. p\<lparr>im_module_path := v\<rparr>) dec_string)]"

record LabelPayload =
  lbl_label :: string

definition zero_label :: LabelPayload where
  "zero_label = \<lparr>lbl_label = []\<rparr>"

definition dec_label :: "LabelPayload decoder" where
  "dec_label = dec_struct
     [(''label'', field lbl_label (\<lambda>v p. p\<lparr>lbl_label := v\<rparr>) dec_string)]"

record JumpPayload =
  jmp_label :: string

definition zero_jump :: JumpPayload where
  "zero_jump = \<lparr>jmp_label = []\<rparr>"

definition dec_jump :: "JumpPayload decoder" where
  "dec_jump = dec_struct
     [(''label'', field jmp_label (\<lambda>v p. p\<lparr>jmp_label := v\<rparr>) dec_string)]"

record CallPayload =
  call_module_path :: string
  call_function :: string
  call_arg_count :: int
  call_result_count :: int

definition zero_call :: CallPayload where
  "zero_call = \<lparr>call_module_path = [], call_function = [], call_arg_count = 0, call_result_count = 0\<rparr>"

definition dec_call :: "CallPayload decoder" where
  "dec_call = dec_struct
     [(''module_path'', field call_module_path (\<lambda>v p. p\<lparr>call_module_path := v\<rparr>) dec_string),
      (''function'', field call_function (\<lambda>v p. p\<lparr>call_function := v\<rparr>) dec_string),
      (''arg_count'', field call_arg_count (\<lambda>v p. p\<lparr>call_arg_count := v\<rparr>) dec_int),
      (''result_count'', field call_result_count (\<lambda>v p. p\<lparr>call_result_count := v\<rparr>) dec_int)]"

record CallInterfacePayload =
  ci_interface_type :: TypeRef
  ci_method :: string
  ci_arg_count :: int
  ci_result_count :: int

definition zero_call_interface :: CallInterfacePayload where
  "zero_call_interface = \<lparr>ci_interface_type = zero_ref, ci_method = [], ci_arg_count = 0, ci_result_count = 0\<rparr>"

definition dec_call_interface :: "CallInterfacePayload decoder" where
  "dec_call_interface = dec_struct
     [(''interface_type'', field ci_interface_type (\<lambda>v p. p\<lparr>ci_interface_type := v\<rparr>) dec_type_ref),
      (''method'', field ci_method (\<lambda>v p. p\<lparr>ci_method := v\<rparr>) dec_string),
      (''arg_count'', field ci_arg_count (\<lambda>v p. p\<lparr>ci_arg_count := v\<rparr>) dec_int),
      (''result_count'', field ci_result_count (\<lambda>v p. p\<lparr>ci_result_count := v\<rparr>) dec_int)]"

record ClosurePayload =
  clo_module_path :: string
  clo_function :: string
  clo_captures :: "AddressPayload list"

definition zero_closure :: ClosurePayload where
  "zero_closure = \<lparr>clo_module_path = [], clo_function = [], clo_captures = []\<rparr>"

definition dec_closure :: "ClosurePayload decoder" where
  "dec_closure = dec_struct
     [(''module_path'', field clo_module_path (\<lambda>v p. p\<lparr>clo_module_path := v\<rparr>) dec_string),
      (''function'', field clo_function (\<lambda>v p. p\<lparr>clo_function := v\<rparr>) dec_string),
      (''captures'', field clo_captures (\<lambda>v p. p\<lparr>clo_captures := v\<rparr>) (dec_list dec_address zero_address))]"

record ReturnPayload =
  rp_result_count :: int

definition zero_return :: ReturnPayload where
  "zero_return = \<lparr>rp_result_count = 0\<rparr>"

definition dec_return :: "ReturnPayload decoder" where
  "dec_return = dec_struct
     [(''result_count'', field rp_result_count (\<lambda>v p. p\<lparr>rp_result_count := v\<rparr>) dec_int)]"

record DeferPayload =
  dfp_owner_depth :: int

definition zero_defer :: DeferPayload where
  "zero_defer = \<lparr>dfp_owner_depth = 0\<rparr>"

definition dec_defer :: "DeferPayload decoder" where
  "dec_defer = dec_struct
     [(''owner_depth'', field dfp_owner_depth (\<lambda>v p. p\<lparr>dfp_owner_depth := v\<rparr>) dec_int)]"

record CallFFIPayload =
  ffi_arg_count :: int
  ffi_result_count :: int

definition zero_call_ffi :: CallFFIPayload where
  "zero_call_ffi = \<lparr>ffi_arg_count = 0, ffi_result_count = 0\<rparr>"

definition dec_call_ffi :: "CallFFIPayload decoder" where
  "dec_call_ffi = dec_struct
     [(''arg_count'', field ffi_arg_count (\<lambda>v p. p\<lparr>ffi_arg_count := v\<rparr>) dec_int),
      (''result_count'', field ffi_result_count (\<lambda>v p. p\<lparr>ffi_result_count := v\<rparr>) dec_int)]"

record CallIntrinsicPayload =
  in_id :: string
  in_arg_count :: int
  in_result_count :: int

definition zero_call_intrinsic :: CallIntrinsicPayload where
  "zero_call_intrinsic = \<lparr>in_id = [], in_arg_count = 0, in_result_count = 0\<rparr>"

definition dec_call_intrinsic :: "CallIntrinsicPayload decoder" where
  "dec_call_intrinsic = dec_struct
     [(''id'', field in_id (\<lambda>v p. p\<lparr>in_id := v\<rparr>) dec_string),
      (''arg_count'', field in_arg_count (\<lambda>v p. p\<lparr>in_arg_count := v\<rparr>) dec_int),
      (''result_count'', field in_result_count (\<lambda>v p. p\<lparr>in_result_count := v\<rparr>) dec_int)]"

section \<open>Stack effects\<close>

definition int64 :: "int \<Rightarrow> int" where
  "int64 n = (n + 2 ^ 63) mod 2 ^ 64 - 2 ^ 63"

text \<open>
  How many values an instruction needs, the change of the depth, and whether control ends
  there; the errors are those of the payload and of an unknown opcode.
\<close>

type_synonym stack_effect = "int \<times> int \<times> bool"

datatype effect_error = PayloadError | UnknownOpcode string

definition with_payload ::
  "'a decoder \<Rightarrow> 'a \<Rightarrow> string \<Rightarrow> ('a \<Rightarrow> stack_effect) \<Rightarrow> effect_error + stack_effect" where
  "with_payload d zero raw f =
     (case DecodeInstructionPayload d zero raw of None \<Rightarrow> Inl PayloadError | Some p \<Rightarrow> Inr (f p))"

definition fixed :: "int \<Rightarrow> int \<Rightarrow> bool \<Rightarrow> effect_error + stack_effect" where
  "fixed required delta terminal = Inr (required, delta, terminal)"

definition stack_effect_of :: "string \<Rightarrow> string \<Rightarrow> effect_error + stack_effect" where
  "stack_effect_of op raw =
     (if op = ''map_iter_init'' then fixed 1 (-1) False
      else if op = ''map_iter_next'' then fixed 0 3 False
      else if op = ''map_iter_close'' then fixed 0 0 False
      else if op \<in> set [''const'', ''zero'', ''load_local'', ''load_upvalue'',
             ''load_global'', ''make_closure'', ''address_of'', ''make_wait_token'',
             ''make_wait_set'', ''recover''] then fixed 0 1 False
      else if op \<in> set [''pop'', ''store_local'', ''store_upvalue'', ''store_global'',
             ''wait_token_signal'', ''wait_token_cancel'', ''wait_set_cancel'', ''defer_push'',
             ''waitable_close''] then fixed 1 (-1) False
      else if op = ''store_indirect'' then fixed 2 (-2) False
      else if op = ''waitable_send'' then fixed 2 (-2) False
      else if op \<in> set [''waitable_subscribe_recv'', ''waitable_subscribe_send''] then fixed 2 (-2) False
      else if op = ''waitable_try_send'' then fixed 2 (-1) False
      else if op = ''unary'' then fixed 1 0 False
      else if op = ''binary'' then fixed 2 (-1) False
      else if op \<in> set [''load_indirect'', ''type_assert'', ''convert'', ''len'', ''cap'',
             ''map_keys''] then fixed 1 0 False
      else if op = ''type_assert_ok'' then fixed 1 1 False
      else if op = ''make_waitable'' then fixed 1 0 False
      else if op = ''waitable_recv'' then fixed 1 0 False
      else if op = ''waitable_recv_ok'' then fixed 1 1 False
      else if op \<in> set [''waitable_can_recv'', ''waitable_can_send''] then fixed 1 0 False
      else if op = ''waitable_try_recv'' then fixed 1 1 False
      else if op = ''append'' then
        with_payload dec_count zero_count raw
          (\<lambda>p. let need = int64 (cp_count p + 1) in (need, int64 (1 - need), False))
      else if op = ''slice'' then fixed 4 (-3) False
      else if op = ''load_field'' then fixed 1 0 False
      else if op = ''load_index'' then fixed 2 (-1) False
      else if op = ''load_index_ok'' then fixed 2 0 False
      else if op = ''string_rune_at'' then fixed 2 (-1) False
      else if op = ''string_next_rune_index'' then fixed 2 (-1) False
      else if op = ''store_field'' then fixed 2 (-2) False
      else if op = ''store_index'' then fixed 3 (-3) False
      else if op = ''delete'' then fixed 2 (-2) False
      else if op = ''clear'' then fixed 1 (-1) False
      else if op = ''copy'' then fixed 2 (-1) False
      else if op = ''make_sequence'' then
        with_payload dec_make_sequence zero_make_sequence raw
          (\<lambda>p. (msq_element_count p, int64 (1 - msq_element_count p), False))
      else if op = ''make_map'' then
        with_payload dec_make_map zero_make_map raw
          (\<lambda>p. let need0 = int64 (mm_entry_count p * 2);
                   need = (if mm_has_capacity p then int64 (need0 + 1) else need0)
               in (need, int64 (1 - need), False))
      else if op = ''make_struct'' then
        with_payload dec_make_struct zero_make_struct raw
          (\<lambda>p. let need = int (length (mst_fields p)) in (need, int64 (1 - need), False))
      else if op = ''make_slice'' then
        with_payload dec_make_slice zero_make_slice raw
          (\<lambda>p. if msl_has_capacity p then (2, -1, False) else (1, 0, False))
      else if op = ''jump_if'' then fixed 1 (-1) False
      else if op = ''wait_set_add'' then fixed 2 (-1) False
      else if op \<in> set [''wait_set_poll'', ''wait_set_park''] then fixed 1 0 False
      else if op \<in> set [''label'', ''jump'', ''init_module''] then fixed 0 0 (op = ''jump'')
      else if op = ''panic'' then fixed 1 (-1) True
      else if op = ''return'' then
        with_payload dec_return zero_return raw
          (\<lambda>p. (rp_result_count p, int64 (- rp_result_count p), True))
      else if op = ''call_value'' then
        with_payload dec_call zero_call raw
          (\<lambda>p. let need = int64 (call_arg_count p + 1)
               in (need, int64 (call_result_count p - need), False))
      else if op = ''call_direct'' then
        with_payload dec_call zero_call raw
          (\<lambda>p. (call_arg_count p, int64 (call_result_count p - call_arg_count p), False))
      else if op = ''tail_call_direct'' then
        with_payload dec_call zero_call raw
          (\<lambda>p. (call_arg_count p, int64 (- call_arg_count p), True))
      else if op = ''call_interface'' then
        with_payload dec_call_interface zero_call_interface raw
          (\<lambda>p. let need = int64 (ci_arg_count p + 1)
               in (need, int64 (ci_result_count p - need), False))
      else if op = ''spawn'' then
        with_payload dec_call zero_call raw
          (\<lambda>p. let need = int64 (call_arg_count p + 1) in (need, int64 (- need), False))
      else if op = ''call_ffi'' then
        with_payload dec_call_ffi zero_call_ffi raw
          (\<lambda>p. (ffi_arg_count p, int64 (ffi_result_count p - ffi_arg_count p), False))
      else if op = ''call_intrinsic'' then
        with_payload dec_call_intrinsic zero_call_intrinsic raw
          (\<lambda>p. (in_arg_count p, int64 (in_result_count p - in_arg_count p), False))
      else if op = ''load_export'' then fixed 0 1 False
      else Inl (UnknownOpcode op))"

definition instructionStackEffect :: "Instruction \<Rightarrow> effect_error + stack_effect" where
  "instructionStackEffect inst = stack_effect_of (inst_op inst) (inst_payload inst)"

end
