(* ===== verification/Stack.thy ===== *)
theory Stack
  imports Bytecode
begin

text \<open>
  The stack analysis of a function, \<^verbatim>\<open>AnalyzeFunction\<close> of \<^verbatim>\<open>src/runtime/bytecode/stack.go\<close>: a
  work list over the instructions that computes one stack depth per instruction.

  \<open>entry\<close> is the Go slice of depths with \<open>-1\<close> for an instruction not yet reached, \<open>queue\<close>
  the work list.  The loop carries fuel: an instruction whose entry is set to the depth
  \<open>-1\<close> counts as not reached and can be queued again, so the number of iterations is
  bounded by a potential of entries and queue, not by the number of instructions;
  \<open>analysis_fuel\<close> is proved to be enough for every function.
\<close>

section \<open>The analysis\<close>

definition decode_label :: "string \<Rightarrow> string option" where
  "decode_label raw =
     map_option (\<lambda>p. TrimSpace (lbl_label p)) (DecodeInstructionPayload dec_label zero_label raw)"

fun collect_labels ::
  "nat \<Rightarrow> Instruction list \<Rightarrow> (string \<rightharpoonup> nat) \<Rightarrow> ValidationError + (string \<rightharpoonup> nat)" where
  "collect_labels i [] labels = Inr labels"
| "collect_labels i (inst # insts) labels =
     (if inst_op inst \<noteq> ''label'' then collect_labels (i + 1) insts labels
      else
        (let path = index_path ''instructions'' i in
         case decode_label (inst_payload inst) of
           None \<Rightarrow> Inl (newValidationError path)
         | Some label \<Rightarrow>
             if label = [] then Inl (missingValidationError (path @ ''.payload.label''))
             else if labels label \<noteq> None
             then Inl (newCodedValidationError ValidationLabelDuplicate (path @ ''.payload.label''))
             else collect_labels (i + 1) insts (labels(label \<mapsto> i))))"

definition jumpTarget :: "Instruction \<Rightarrow> (string \<rightharpoonup> nat) \<Rightarrow> string \<Rightarrow> ValidationError + nat" where
  "jumpTarget inst labels path =
     (case DecodeInstructionPayload dec_jump zero_jump (inst_payload inst) of
        None \<Rightarrow> Inl (newValidationError path)
      | Some p \<Rightarrow>
          (case labels (TrimSpace (jmp_label p)) of
             Some target \<Rightarrow> Inr target
           | None \<Rightarrow> Inl (newCodedValidationError ValidationLabelUnknown (path @ ''.payload.label''))))"

definition flow_successors ::
  "Instruction list \<Rightarrow> (string \<rightharpoonup> nat) \<Rightarrow> nat \<Rightarrow> ValidationError + nat list" where
  "flow_successors insts labels i =
     (let inst = insts ! i; path = index_path ''instructions'' i;
          following = (if i + 1 < length insts then [i + 1] else []) in
      if inst_op inst = ''jump'' then
        (case jumpTarget inst labels path of Inl e \<Rightarrow> Inl e | Inr target \<Rightarrow> Inr [target])
      else if inst_op inst = ''jump_if'' then
        (case jumpTarget inst labels path of Inl e \<Rightarrow> Inl e | Inr target \<Rightarrow> Inr (target # following))
      else Inr following)"

fun visit :: "int \<Rightarrow> nat list \<Rightarrow> int list \<Rightarrow> nat list \<Rightarrow> ValidationError + int list \<times> nat list" where
  "visit stack [] entry queue = Inr (entry, queue)"
| "visit stack (s # ss) entry queue =
     (if entry ! s = -1 then visit stack ss (entry[s := stack]) (queue @ [s])
      else if entry ! s \<noteq> stack then Inl (schemaMismatchValidationError (index_path ''instructions'' s))
      else visit stack ss entry queue)"

fun analyze_loop ::
  "nat \<Rightarrow> Instruction list \<Rightarrow> (string \<rightharpoonup> nat) \<Rightarrow> int list \<Rightarrow> nat list \<Rightarrow> int \<Rightarrow>
   (ValidationError + int list \<times> int) option" where
  "analyze_loop n insts labels entry [] maxStack = Some (Inr (entry, maxStack))"
| "analyze_loop 0 insts labels entry (i # queue) maxStack = None"
| "analyze_loop (Suc n) insts labels entry (i # queue) maxStack =
     (let path = index_path ''instructions'' i in
      case instructionStackEffect (insts ! i) of
        Inl e \<Rightarrow> Some (Inl (newValidationError path))
      | Inr (required, delta, ends) \<Rightarrow>
          if entry ! i < required
          then Some (Inl (newCodedValidationError ValidationStackUnderflow path))
          else
            (let stack = int64 (entry ! i + delta);
                 maxStack' = (if maxStack < stack then stack else maxStack) in
             if ends then analyze_loop n insts labels entry queue maxStack'
             else case flow_successors insts labels i of
                    Inl e \<Rightarrow> Some (Inl e)
                  | Inr successors \<Rightarrow>
                      (case visit stack successors entry queue of
                         Inl e \<Rightarrow> Some (Inl e)
                       | Inr (entry', queue') \<Rightarrow>
                           analyze_loop n insts labels entry' queue' maxStack')))"

definition analysis_fuel :: "Instruction list \<Rightarrow> nat" where
  "analysis_fuel insts = (length insts + 1) * (length insts + 1)"

definition check_function_end :: "Instruction list \<Rightarrow> int list \<Rightarrow> ValidationError option" where
  "check_function_end insts entry =
     (let l = length insts - 1 in
      if entry ! l = -1 then None
      else case instructionStackEffect (insts ! l) of
             Inl e \<Rightarrow> Some (newValidationError ''instructions'')
           | Inr (required, delta, ends) \<Rightarrow>
               if \<not> ends \<and> int64 (entry ! l + delta) \<noteq> 0
               then Some (newCodedValidationError ValidationStackUnbalanced ''instructions'')
               else None)"

text \<open>The result is the \<^verbatim>\<open>MaxStack\<close> of the Go struct; \<open>None\<close> is the fuel running out.\<close>

definition AnalyzeFunction :: "Instruction list \<Rightarrow> (ValidationError + int) option" where
  "AnalyzeFunction insts =
     (case collect_labels 0 insts Map.empty of
        Inl e \<Rightarrow> Some (Inl e)
      | Inr labels \<Rightarrow>
          if insts = [] then Some (Inr 0)
          else
            (case analyze_loop (analysis_fuel insts) insts labels
                    ((replicate (length insts) (-1))[0 := 0]) [0] 0 of
               None \<Rightarrow> None
             | Some (Inl e) \<Rightarrow> Some (Inl e)
             | Some (Inr (entry, maxStack)) \<Rightarrow>
                 (case check_function_end insts entry of
                    Some e \<Rightarrow> Some (Inl e)
                  | None \<Rightarrow> Some (Inr maxStack))))"

section \<open>Labels and successors\<close>

lemma collect_labels_range:
  assumes "collect_labels i insts labels = Inr labels'"
    and "\<And>l k. labels l = Some k \<Longrightarrow> k < i"
  shows "labels' l = Some k \<Longrightarrow> k < i + length insts"
  using assms
proof (induction insts arbitrary: i labels)
  case (Cons inst insts)
  have "k < i + 1 + length insts" if "collect_labels (i + 1) insts m = Inr labels'"
    and "\<And>l k. m l = Some k \<Longrightarrow> k < i + 1" for m
    using Cons.IH [OF Cons.prems(1) that] .
  with Cons.prems(2,3) show ?case
    by (force simp: Let_def less_Suc_eq split: if_splits option.splits)
qed auto

lemma jumpTarget_label: "jumpTarget inst labels path = Inr t \<Longrightarrow> \<exists>l. labels l = Some t"
  by (auto simp: jumpTarget_def split: option.splits)

lemma flow_successors_range:
  assumes "flow_successors insts labels i = Inr ss" and "\<forall>l k. labels l = Some k \<longrightarrow> k < length insts"
    and "s \<in> set ss"
  shows "s < length insts"
  using assms(1,3) jumpTarget_label assms(2)
  by (auto simp: flow_successors_def Let_def split: if_splits sum.splits) blast+

section \<open>The loop ends\<close>

definition in_int64 :: "int \<Rightarrow> bool" where
  "in_int64 n = (- (2 ^ 63) \<le> n \<and> n < 2 ^ 63)"

lemma int64_range: "in_int64 (int64 n)"
  using pos_mod_bound [of "2 ^ 64 :: int" "n + 2 ^ 63"] pos_mod_sign [of "2 ^ 64 :: int" "n + 2 ^ 63"]
  by (simp add: in_int64_def int64_def)

lemma int64_id: "in_int64 n \<Longrightarrow> int64 n = n"
  by (simp add: in_int64_def int64_def)

definition weight :: "nat \<Rightarrow> nat list \<Rightarrow> nat" where
  "weight n is = sum_list (map (\<lambda>i. n + 1 - i) is)"

definition unreached :: "int list \<Rightarrow> nat list" where
  "unreached entry = filter (\<lambda>j. entry ! j = -1) [0..<length entry]"

lemma weight_simps [simp]:
  "weight n [] = 0" "weight n (i # is) = n + 1 - i + weight n is" "weight n (is @ js) = weight n is + weight n js"
  by (simp_all add: weight_def)

lemma weight_filter_remove:
  assumes "s \<in> set is" and "distinct is"
  shows "weight n (filter P is) =
    weight n (filter (\<lambda>j. P j \<and> j \<noteq> s) is) + (if P s then n + 1 - s else 0)"
  using assms
proof (induction "is")
  case (Cons i "is")
  show ?case
  proof (cases "i = s")
    case True
    then have "filter (\<lambda>j. P j \<and> j \<noteq> s) is = filter P is"
      using Cons.prems(2) by (intro filter_cong) auto
    with True show ?thesis by simp
  qed (use Cons in auto)
qed simp

lemma unreached_update:
  assumes "s < length entry" and "entry ! s = -1"
  shows "weight n (unreached (entry[s := v])) + (if v = -1 then 0 else n + 1 - s) =
    weight n (unreached entry)"
proof -
  have "unreached (entry[s := v]) =
      (if v = -1 then unreached entry
       else filter (\<lambda>j. entry ! j = -1 \<and> j \<noteq> s) [0..<length entry])"
    using assms unfolding unreached_def by (auto simp: nth_list_update intro!: filter_cong)
  then show ?thesis
    using assms weight_filter_remove [of s "[0..<length entry]" n "\<lambda>j. entry ! j = -1"]
    by (auto simp: unreached_def)
qed

lemma visit_potential:
  assumes "visit stack ss entry queue = Inr (entry', queue')" and "set ss \<subseteq> {..<length entry}"
    and "n = length entry"
  shows "weight n (unreached entry') + weight n queue' \<le>
      weight n (unreached entry) + weight n queue + (if stack = -1 then weight n ss else 0)"
    and "length entry' = length entry" and "set queue' \<subseteq> set queue \<union> set ss"
  using assms
proof (induction stack ss entry queue rule: visit.induct)
  case (2 stack s ss entry queue)
  {
    case 1
    show ?case
    proof (cases "entry ! s = -1")
      case True
      have "weight n (unreached (entry[s := stack])) + (if stack = -1 then 0 else n + 1 - s) =
          weight n (unreached entry)"
        using True 1 by (intro unreached_update) auto
      with 2(1) [OF True] 1 True show ?thesis by (auto split: if_splits)
    qed (use 2(4) 1 in \<open>auto split: if_splits\<close>)
  next
    case 2
    then show ?case using \<open>visit stack (s # ss) entry queue = _\<close> 
      "2.IH" by (auto split: if_splits)
  next
    case 3
    then show ?case using "2.IH" by (auto split: if_splits)
  }
qed simp_all

lemma visit_range:
  assumes "visit stack ss entry queue = Inr (entry', queue')" and "in_int64 stack"
    and "\<forall>v \<in> set entry. in_int64 v"
  shows "\<forall>v \<in> set entry'. in_int64 v"
  using assms
  by (induction stack ss entry queue rule: visit.induct)
    (auto split: if_splits dest!: set_update_subset_insert [THEN subsetD])

text \<open>Only an instruction that falls through can leave the depth \<open>-1\<close>.\<close>

lemma minus_one_falls_through:
  assumes "instructionStackEffect (insts ! i) = Inr (required, delta, False)"
    and "required \<le> d" and "in_int64 d" and "int64 (d + delta) = -1"
    and "flow_successors insts labels i = Inr ss"
  shows "ss = [] \<or> ss = [i + 1]"
proof -
  have "inst_op (insts ! i) \<noteq> ''jump''"
    using assms(1) by (auto simp: instructionStackEffect_def stack_effect_of_def fixed_def)
  moreover have "inst_op (insts ! i) \<noteq> ''jump_if''"
  proof
    assume "inst_op (insts ! i) = ''jump_if''"
    then have "required = 1" "delta = -1"
      using assms(1) by (auto simp: instructionStackEffect_def stack_effect_of_def fixed_def)
    with assms(2,3) have "in_int64 (d + delta)" by (simp add: in_int64_def)
    then have "int64 (d + delta) = d - 1" using \<open>delta = -1\<close> by (simp add: int64_id)
    with assms(2,4) \<open>required = 1\<close> show False by simp
  qed
  ultimately show ?thesis using assms(5) by (auto simp: flow_successors_def Let_def split: if_splits)
qed

lemma analyze_loop_total:
  assumes "\<forall>l k. labels l = Some k \<longrightarrow> k < length insts" and "length entry = length insts"
    and "set queue \<subseteq> {..<length insts}" and "\<forall>v \<in> set entry. in_int64 v"
    and "weight (length insts) (unreached entry) + weight (length insts) queue \<le> n"
  shows "analyze_loop n insts labels entry queue m \<noteq> None"
  using assms(2-)
proof (induction n arbitrary: entry queue m)
  case 0
  then show ?case by (cases queue) auto
next
  case (Suc n)
  show ?case
  proof (cases queue)
    case Nil
    then show ?thesis by simp
  next
    case (Cons i q)
    let ?n = "length insts"
    have i: "i < ?n" using Suc.prems(2) Cons by simp
    have wt: "weight ?n (unreached entry) + weight ?n q + (?n + 1 - i) \<le> Suc n"
      using Suc.prems(4) Cons by simp
    have d: "in_int64 (entry ! i)" using Suc.prems(1,3) i by simp
    show ?thesis
    proof (cases "instructionStackEffect (insts ! i)")
      case (Inr eff)
      obtain required delta ends where eff: "eff = (required, delta, ends)" by (cases eff)
      show ?thesis
      proof (cases "entry ! i < required \<or> ends")
        case True
        then show ?thesis
          using Suc.IH [of entry q] Suc.prems Cons Inr eff wt i by (auto simp: Let_def)
      next
        case False
        show ?thesis
        proof (cases "flow_successors insts labels i")
          case succ: (Inr ss)
          show ?thesis
          proof (cases "visit (int64 (entry ! i + delta)) ss entry q")
            case visited: (Inr r)
            obtain entry' q' where r: "r = (entry', q')" by (cases r)
            have sub: "set ss \<subseteq> {..<length entry}"
              using flow_successors_range [OF succ] assms(1) Suc.prems(1) by auto
            note pot = visit_potential [OF visited [unfolded r] sub refl]
            have "weight ?n ss < ?n + 1 - i" if "int64 (entry ! i + delta) = -1"
              using minus_one_falls_through [OF _ _ d that succ, of required] Inr eff False i by auto
            with pot(1) wt Suc.prems(1) i
            have "weight ?n (unreached entry') + weight ?n q' \<le> n"
              by (auto split: if_splits)
            moreover have "set q' \<subseteq> {..<?n}"
              using pot(3) sub Suc.prems(1,2) Cons by auto
            moreover have "\<forall>v \<in> set entry'. in_int64 v"
              using visit_range [OF visited [unfolded r] int64_range Suc.prems(3)] .
            ultimately show ?thesis
              using Suc.IH [of entry' q'] pot(2) Suc.prems(1) Cons Inr eff False succ visited r
              by (simp add: Let_def)
          qed (use Cons Inr eff False succ in \<open>simp add: Let_def\<close>)
        qed (use Cons Inr eff False in \<open>simp add: Let_def\<close>)
      qed
    qed (use Cons in \<open>simp add: Let_def\<close>)
  qed
qed

lemma weight_upt: "weight n [0..<m] \<le> m * (n + 1)"
  by (induction m) (auto simp: weight_def)

lemma weight_le: "weight n (filter P is) \<le> weight n is"
  by (induction "is") (auto simp: weight_def)

lemma AnalyzeFunction_total: "AnalyzeFunction insts \<noteq> None"
proof (cases "collect_labels 0 insts Map.empty")
  case (Inr labels)
  show ?thesis
  proof (cases "insts = []")
    case False
    let ?n = "length insts" and ?entry = "(replicate (length insts) (-1))[0 := 0 :: int]"
    have "weight ?n (unreached ?entry) \<le> ?n * (?n + 1)"
      using weight_le [of ?n "\<lambda>j. ?entry ! j = -1" "[0..<?n]"] weight_upt [of ?n ?n]
      by (simp add: unreached_def)
    then have "analyze_loop (analysis_fuel insts) insts labels ?entry [0] 0 \<noteq> None"
      using collect_labels_range [OF Inr] False
      by (intro analyze_loop_total)
        (auto simp: analysis_fuel_def in_int64_def dest!: set_update_subset_insert [THEN subsetD])
    with Inr False show ?thesis
      by (auto simp: AnalyzeFunction_def split: option.split sum.split)
  qed (simp add: AnalyzeFunction_def Inr)
qed (simp add: AnalyzeFunction_def)

section \<open>What the analysis says of executions\<close>

text \<open>
  The control flow of a function with exact depths: a state is an instruction and the depth
  of the stack before it.  With \<open>jumps\<close> an unconditional jump goes on at its target, as the
  machine does; without, it ends there, as the analysis takes it.
\<close>

inductive reaches :: "bool \<Rightarrow> Instruction list \<Rightarrow> (string \<rightharpoonup> nat) \<Rightarrow> nat \<Rightarrow> int \<Rightarrow> bool"
  for jumps insts labels where
  start: "insts \<noteq> [] \<Longrightarrow> reaches jumps insts labels 0 0"
| step: "reaches jumps insts labels i d \<Longrightarrow>
    instructionStackEffect (insts ! i) = Inr (required, delta, False) \<Longrightarrow>
    flow_successors insts labels i = Inr ss \<Longrightarrow> s \<in> set ss \<Longrightarrow>
    reaches jumps insts labels s (d + delta)"
| jump: "jumps \<Longrightarrow> reaches jumps insts labels i d \<Longrightarrow> inst_op (insts ! i) = ''jump'' \<Longrightarrow>
    flow_successors insts labels i = Inr [s] \<Longrightarrow> reaches jumps insts labels s d"

inductive_cases reaches_step: "reaches jumps insts labels i d"

definition effect_ok :: "Instruction \<Rightarrow> bool" where
  "effect_ok inst =
     (case instructionStackEffect inst of
        Inl e \<Rightarrow> True
      | Inr (required, delta, ends) \<Rightarrow> 0 \<le> required \<and> - required \<le> delta \<and> delta \<le> 2 ^ 31)"

definition small_function :: "Instruction list \<Rightarrow> bool" where
  "small_function insts = (list_all effect_ok insts \<and> length insts \<le> 2 ^ 31)"

definition set_entries :: "int list \<Rightarrow> nat" where
  "set_entries entry = length (filter (\<lambda>v. v \<noteq> -1) entry)"

text \<open>The depths found so far: at least zero, and no more than the reached instructions add.\<close>

definition depths_ok :: "int list \<Rightarrow> bool" where
  "depths_ok entry = (\<forall>v \<in> set entry. v = -1 \<or> 0 \<le> v \<and> v \<le> int (set_entries entry) * 2 ^ 31)"

definition analysed :: "Instruction list \<Rightarrow> (string \<rightharpoonup> nat) \<Rightarrow> int list \<Rightarrow> int \<Rightarrow> nat \<Rightarrow> bool" where
  "analysed insts labels entry m i =
     (\<exists>required delta ends. instructionStackEffect (insts ! i) = Inr (required, delta, ends) \<and>
        required \<le> entry ! i \<and> entry ! i + delta \<le> m \<and>
        (\<not> ends \<longrightarrow> (\<exists>ss. flow_successors insts labels i = Inr ss \<and>
                        (\<forall>s \<in> set ss. entry ! s = entry ! i + delta))))"

definition loop_inv ::
  "Instruction list \<Rightarrow> (string \<rightharpoonup> nat) \<Rightarrow> int list \<Rightarrow> nat list \<Rightarrow> int \<Rightarrow> bool" where
  "loop_inv insts labels entry queue m =
     (length entry = length insts \<and> set queue \<subseteq> {..<length insts} \<and> depths_ok entry \<and>
      (\<forall>v \<in> set entry. v \<le> m) \<and> entry ! 0 = 0 \<and> (\<forall>i \<in> set queue. entry ! i \<noteq> -1) \<and>
      (\<forall>i < length insts. entry ! i = -1 \<or> i \<in> set queue \<or> analysed insts labels entry m i))"

lemma set_entries_update:
  "s < length entry \<Longrightarrow> entry ! s = -1 \<Longrightarrow> v \<noteq> -1 \<Longrightarrow>
   set_entries (entry[s := v]) = Suc (set_entries entry)"
  unfolding set_entries_def
  by (induction entry arbitrary: s) (auto simp: nth_Cons split: nat.splits)

lemma set_entries_bound: "set_entries entry \<le> length entry"
  by (simp add: set_entries_def)

lemma visit_effect:
  assumes "visit v ss entry queue = Inr (entry', queue')" and "set ss \<subseteq> {..<length entry}"
    and "0 \<le> v" and "\<forall>i \<in> set queue. entry ! i \<noteq> -1"
  shows "(\<forall>j < length entry. entry ! j \<noteq> -1 \<longrightarrow> entry' ! j = entry ! j) \<and>
    (\<forall>s \<in> set ss. entry' ! s = v) \<and> set queue \<subseteq> set queue' \<and>
    (\<forall>j < length entry. entry' ! j \<noteq> -1 \<longrightarrow> entry ! j \<noteq> -1 \<or> j \<in> set queue') \<and>
    (\<forall>j \<in> set queue'. entry' ! j \<noteq> -1) \<and> set entry' \<subseteq> insert v (set entry)"
  using assms
proof (induction v ss entry queue rule: visit.induct)
  case (2 v s ss entry queue)
  show ?case
  proof (cases "entry ! s = -1")
    case True
    have "(\<forall>j < length entry. entry[s := v] ! j \<noteq> -1 \<longrightarrow> entry' ! j = entry[s := v] ! j) \<and>
        (\<forall>t \<in> set ss. entry' ! t = v) \<and> set (queue @ [s]) \<subseteq> set queue' \<and>
        (\<forall>j < length entry. entry' ! j \<noteq> -1 \<longrightarrow> entry[s := v] ! j \<noteq> -1 \<or> j \<in> set queue') \<and>
        (\<forall>j \<in> set queue'. entry' ! j \<noteq> -1) \<and> set entry' \<subseteq> insert v (set (entry[s := v]))"
      using "2.IH"(1) [OF True] "2.prems" True
      by (auto simp: nth_list_update split: if_splits)
    moreover have "set (entry[s := v]) \<subseteq> insert v (set entry)" by (rule set_update_subset_insert)
    ultimately show ?thesis
      using "2.prems"(2,3) True
      by (auto simp: nth_list_update split: if_splits)
  next
    case False
    with "2.prems"(1) have v: "entry ! s = v" and run: "visit v ss entry queue = Inr (entry', queue')"
      by (auto split: if_splits)
    have sub: "s < length entry" "set ss \<subseteq> {..<length entry}" using "2.prems"(2) by simp_all
    have "\<not> entry ! s \<noteq> v" using v by simp
    note IH = "2.IH"(2) [OF False this run sub(2) "2.prems"(3,4)]
    then have "entry' ! s = v" using False v sub(1) by metis
    with IH show ?thesis by simp
  qed
qed auto

lemma visit_depths:
  assumes "visit v ss entry queue = Inr (entry', queue')" and "set ss \<subseteq> {..<length entry}"
    and "0 \<le> v" and "v \<le> int (set_entries entry) * 2 ^ 31 + 2 ^ 31" and "depths_ok entry"
  shows "depths_ok entry'"
  using assms
proof (induction v ss entry queue rule: visit.induct)
  case (2 v s ss entry queue)
  show ?case
  proof (cases "entry ! s = -1")
    case True
    have count: "set_entries (entry[s := v]) = Suc (set_entries entry)"
      using 2 True by (intro set_entries_update) auto
    have "depths_ok (entry[s := v])"
      unfolding depths_ok_def count
    proof
      fix w assume "w \<in> set (entry[s := v])"
      then have "w = v \<or> w \<in> set entry" using set_update_subset_insert by fast
      then show "w = -1 \<or> 0 \<le> w \<and> w \<le> int (Suc (set_entries entry)) * 2 ^ 31"
        using 2(5,6,7) by (auto simp: depths_ok_def algebra_simps)
    qed
    moreover have "visit v ss (entry[s := v]) (queue @ [s]) = Inr (entry', queue')"
      and "set ss \<subseteq> {..<length (entry[s := v])}"
      using "2.prems"(1,2) True by simp_all
    moreover have "v \<le> int (set_entries (entry[s := v])) * 2 ^ 31 + 2 ^ 31"
      using "2.prems"(4) by (simp add: count)
    ultimately show ?thesis using "2.IH"(1) [OF True] "2.prems"(3) by blast
  next
    case False
    then show ?thesis using "2.IH"(2) [OF False] "2.prems" by (simp split: if_splits)
  qed
qed simp

lemma depths_okD:
  "depths_ok entry \<Longrightarrow> i < length entry \<Longrightarrow> entry ! i \<noteq> -1 \<Longrightarrow>
   0 \<le> entry ! i \<and> entry ! i \<le> int (set_entries entry) * 2 ^ 31"
  by (auto simp: depths_ok_def)

lemma effect_okD:
  "list_all effect_ok insts \<Longrightarrow> i < length insts \<Longrightarrow>
   instructionStackEffect (insts ! i) = Inr (required, delta, ends) \<Longrightarrow>
   0 \<le> required \<and> - required \<le> delta \<and> delta \<le> 2 ^ 31"
  by (auto simp: list_all_length effect_ok_def)

lemma exact_depth:
  assumes "small_function insts" and "length entry = length insts" and "depths_ok entry"
    and "i < length insts" and "entry ! i \<noteq> -1"
    and "instructionStackEffect (insts ! i) = Inr (required, delta, ends)" and "required \<le> entry ! i"
  shows "int64 (entry ! i + delta) = entry ! i + delta" and "0 \<le> entry ! i + delta"
    and "entry ! i + delta \<le> int (set_entries entry) * 2 ^ 31 + 2 ^ 31"
proof -
  have eff: "0 \<le> required \<and> - required \<le> delta \<and> delta \<le> 2 ^ 31"
    using assms(1,4,6) effect_okD by (auto simp: small_function_def)
  have d: "0 \<le> entry ! i" "entry ! i \<le> int (set_entries entry) * 2 ^ 31"
    using depths_okD [OF assms(3)] assms(2,4,5) by auto
  show nonneg: "0 \<le> entry ! i + delta" using eff assms(7) by linarith
  show le: "entry ! i + delta \<le> int (set_entries entry) * 2 ^ 31 + 2 ^ 31" using eff d by linarith
  have "set_entries entry \<le> 2 ^ 31"
    using set_entries_bound [of entry] assms(1,2) by (simp add: small_function_def)
  then have "int (set_entries entry) \<le> 2 ^ 31" by (metis of_nat_le_iff of_nat_numeral of_nat_power)
  then have "int (set_entries entry) * 2 ^ 31 \<le> 2 ^ 31 * 2 ^ 31" by (rule mult_right_mono) simp
  with nonneg le have "in_int64 (entry ! i + delta)" by (simp add: in_int64_def)
  then show "int64 (entry ! i + delta) = entry ! i + delta" by (rule int64_id)
qed

lemma analysed_mono:
  assumes "analysed insts labels entry m j" and "list_all effect_ok insts"
    and "\<forall>l k. labels l = Some k \<longrightarrow> k < length insts" and "length entry = length insts"
    and "j < length insts" and "entry ! j \<noteq> -1" and "m \<le> m'"
    and "\<forall>k < length entry. entry ! k \<noteq> -1 \<longrightarrow> entry' ! k = entry ! k"
  shows "analysed insts labels entry' m' j"
proof -
  obtain required delta ends where eff: "instructionStackEffect (insts ! j) = Inr (required, delta, ends)"
    and d: "required \<le> entry ! j" "entry ! j + delta \<le> m"
    and succ: "\<not> ends \<longrightarrow> (\<exists>ss. flow_successors insts labels j = Inr ss \<and>
        (\<forall>s \<in> set ss. entry ! s = entry ! j + delta))"
    using assms(1) by (auto simp: analysed_def)
  have same: "entry' ! j = entry ! j" using assms(4,5,6,8) by simp
  have "0 \<le> entry ! j + delta" using effect_okD [OF assms(2,5) eff] d(1) by linarith
  then have "entry' ! s = entry ! j + delta" if "flow_successors insts labels j = Inr ss"
    and "s \<in> set ss" and "entry ! s = entry ! j + delta" for s ss
    using assms(4,8) flow_successors_range [OF that(1) assms(3) that(2)] that(3) by auto
  with eff d succ same assms(7) show ?thesis
    unfolding analysed_def by (intro exI [of _ required] exI [of _ delta] exI [of _ ends]) fastforce
qed

lemma loop_inv_step:
  assumes small: "small_function insts" and labels: "\<forall>l k. labels l = Some k \<longrightarrow> k < length insts"
    and inv: "loop_inv insts labels entry (i # q) m"
    and eff: "instructionStackEffect (insts ! i) = Inr (required, delta, ends)"
    and need: "required \<le> entry ! i"
  defines "v \<equiv> entry ! i + delta"
  shows "ends \<Longrightarrow> loop_inv insts labels entry q (max m v)"
    and "\<not> ends \<Longrightarrow> flow_successors insts labels i = Inr ss \<Longrightarrow>
      visit v ss entry q = Inr (entry', q') \<Longrightarrow> loop_inv insts labels entry' q' (max m v)"
proof -
  have len: "length entry = length insts" and i: "i < length insts" and depths: "depths_ok entry"
    and live: "entry ! i \<noteq> -1" and q: "set q \<subseteq> {..<length insts}"
    and le: "\<forall>u \<in> set entry. u \<le> m" and zero: "entry ! 0 = 0"
    and queued: "\<forall>j \<in> set q. entry ! j \<noteq> -1"
    and reached: "\<forall>j < length insts. entry ! j = -1 \<or> j \<in> set (i # q) \<or> analysed insts labels entry m j"
    using inv by (auto simp: loop_inv_def)
  have ok: "list_all effect_ok insts" using small by (simp add: small_function_def)
  have v: "0 \<le> v" "v \<le> int (set_entries entry) * 2 ^ 31 + 2 ^ 31"
    using exact_depth [OF small len depths i live eff need] by (simp_all add: v_def)
  note mono = analysed_mono [OF _ ok labels len]
  have i_ends: "analysed insts labels entry (max m v) i" if ends
    using eff need that unfolding analysed_def v_def by auto
  show "loop_inv insts labels entry q (max m v)" if ends
    unfolding loop_inv_def
    using len q depths zero queued le reached mono [of m _ "max m v" entry] i_ends [OF that]
    by (auto simp: less_max_iff_disj le_max_iff_disj)
  assume "\<not> ends" and succ: "flow_successors insts labels i = Inr ss"
    and vis: "visit v ss entry q = Inr (entry', q')"
  have sub: "set ss \<subseteq> {..<length entry}"
    using flow_successors_range [OF succ labels] len by auto
  note e = visit_effect [OF vis sub v(1) queued]
  note pot = visit_potential [OF vis sub refl]
  have keep: "\<forall>k < length entry. entry ! k \<noteq> -1 \<longrightarrow> entry' ! k = entry ! k" using e by blast
  have "entry' ! i = entry ! i" using keep i live len by simp
  then have i_done: "analysed insts labels entry' (max m v) i"
    using eff need succ e unfolding analysed_def v_def
    by (intro exI [of _ required] exI [of _ delta] exI [of _ ends]) auto
  have rest: "analysed insts labels entry' (max m v) j"
    if "analysed insts labels entry m j" and "j < length insts" and "entry ! j \<noteq> -1" for j
    using mono [OF that, of "max m v" entry'] keep by simp
  have "entry' ! j = -1 \<or> j \<in> set q' \<or> analysed insts labels entry' (max m v) j"
    if "j < length insts" for j
  proof (cases "entry' ! j = -1 \<or> j \<in> set q'")
    case False
    then have "entry ! j \<noteq> -1" and "j \<notin> set q" using e that len by auto
    with reached that i_done rest show ?thesis by (cases "j = i") auto
  qed blast
  moreover have "\<forall>u \<in> set entry'. u \<le> max m v" using e le by (auto simp: le_max_iff_disj)
  moreover have "depths_ok entry'" by (rule visit_depths [OF vis sub v depths])
  moreover have "entry' ! 0 = 0" using keep [rule_format, of 0] zero i len by fastforce
  moreover have "set q' \<subseteq> {..<length insts}" using pot(3) q sub len by auto
  ultimately show "loop_inv insts labels entry' q' (max m v)"
    using pot(2) len e unfolding loop_inv_def by simp
qed

lemma analyze_loop_sound:
  assumes "small_function insts" and "\<forall>l k. labels l = Some k \<longrightarrow> k < length insts"
    and "loop_inv insts labels entry queue m"
    and "analyze_loop n insts labels entry queue m = Some (Inr (entry', m'))"
  shows "loop_inv insts labels entry' [] m'"
  using assms(3,4)
proof (induction n arbitrary: entry queue m)
  case 0
  then show ?case by (cases queue) auto
next
  case (Suc n)
  show ?case
  proof (cases queue)
    case (Cons i q)
    note inv = Suc.prems(1) [unfolded Cons]
    obtain required delta ends where eff: "instructionStackEffect (insts ! i) = Inr (required, delta, ends)"
      and need: "required \<le> entry ! i"
      using Suc.prems(2) Cons by (auto simp: Let_def split: sum.splits if_splits)
    have "length entry = length insts" "depths_ok entry" "i < length insts" "entry ! i \<noteq> -1"
      using inv by (auto simp: loop_inv_def)
    note exact = exact_depth(1) [OF assms(1) this eff need]
    have m: "(if m < v then v else m) = max m v" for v by auto
    note step = loop_inv_step [OF assms(1,2) inv eff need]
    show ?thesis
    proof (cases ends)
      case True
      with Suc.prems(2) Cons eff need
      have "analyze_loop n insts labels entry q (max m (entry ! i + delta)) = Some (Inr (entry', m'))"
        by (simp add: Let_def exact m)
      with Suc.IH [OF step(1) [OF True]] show ?thesis by blast
    next
      case False
      with Suc.prems(2) Cons eff need obtain ss entry1 q1
        where succ: "flow_successors insts labels i = Inr ss"
          and vis: "visit (entry ! i + delta) ss entry q = Inr (entry1, q1)"
          and run: "analyze_loop n insts labels entry1 q1 (max m (entry ! i + delta)) =
            Some (Inr (entry', m'))"
        by (auto simp: Let_def exact m split: sum.splits)
      from Suc.IH [OF step(2) [OF False succ vis] run] show ?thesis .
    qed
  qed (use Suc.prems in simp)
qed

lemma initial_inv:
  assumes "insts \<noteq> []"
  shows "loop_inv insts labels ((replicate (length insts) (-1))[0 := 0]) [0] 0"
proof -
  obtain n where n: "length insts = Suc n" using assms by (cases insts) auto
  then show ?thesis
    by (auto simp: loop_inv_def depths_ok_def nth_Cons split: nat.splits)
qed

lemma AnalyzeFunction_result:
  assumes "small_function insts" and "AnalyzeFunction insts = Some (Inr m)"
    and "collect_labels 0 insts Map.empty = Inr labels" and "insts \<noteq> []"
  obtains entry where "loop_inv insts labels entry [] m" and "check_function_end insts entry = None"
    and "\<forall>l k. labels l = Some k \<longrightarrow> k < length insts"
proof -
  obtain entry where run: "analyze_loop (analysis_fuel insts) insts labels
      ((replicate (length insts) (-1))[0 := 0]) [0] 0 = Some (Inr (entry, m))"
    and last: "check_function_end insts entry = None"
    using assms(2,3,4) by (auto simp: AnalyzeFunction_def split: option.splits sum.splits)
  have labels: "\<forall>l k. labels l = Some k \<longrightarrow> k < length insts"
    using collect_labels_range [OF assms(3)] by auto
  from analyze_loop_sound [OF assms(1) labels initial_inv [OF assms(4)] run] last labels
  show thesis by (rule that)
qed

lemma jump_effect:
  "inst_op inst = ''jump'' \<Longrightarrow> instructionStackEffect inst = Inr (required, delta, ends) \<Longrightarrow> ends"
  by (simp add: instructionStackEffect_def stack_effect_of_def fixed_def)

lemma reaches_entry:
  assumes "loop_inv insts labels entry [] m" and "\<forall>l k. labels l = Some k \<longrightarrow> k < length insts"
    and "list_all effect_ok insts"
    and "reaches jumps insts labels i d" and "jumps \<Longrightarrow> \<forall>inst \<in> set insts. inst_op inst \<noteq> ''jump''"
  shows "i < length insts \<and> entry ! i = d \<and> d \<noteq> -1"
  using assms(4)
proof induction
  case start
  then show ?case using assms(1) by (auto simp: loop_inv_def)
next
  case (step i d required delta ss s)
  then obtain "required \<le> d" and "entry ! s = d + delta"
    using assms(1) by (auto simp: loop_inv_def analysed_def)
  moreover have "s < length insts" using flow_successors_range step.hyps assms(2) by blast
  moreover have "0 \<le> d + delta"
    using effect_okD [OF assms(3) _ step.hyps(2)] step.IH \<open>required \<le> d\<close> by force
  ultimately show ?case by simp
next
  case (jump i d s)
  then show ?case using assms(5) by (metis nth_mem)
qed

lemma stack_analysis_facts:
  assumes "small_function insts" and "AnalyzeFunction insts = Some (Inr m)"
    and "collect_labels 0 insts Map.empty = Inr labels"
    and "reaches jumps insts labels i d" and "jumps \<Longrightarrow> \<forall>inst \<in> set insts. inst_op inst \<noteq> ''jump''"
  shows "i < length insts \<and>
    (\<exists>required delta ends. instructionStackEffect (insts ! i) = Inr (required, delta, ends) \<and>
       0 \<le> required \<and> required \<le> d \<and> d \<le> m \<and> 0 \<le> d + delta \<and> d + delta \<le> m \<and>
       (i + 1 = length insts \<and> \<not> ends \<longrightarrow> d + delta = 0)) \<and>
    (reaches jumps insts labels i d' \<longrightarrow> d' = d)"
proof -
  have ne: "insts \<noteq> []" using assms(4) by induction auto
  obtain entry where inv: "loop_inv insts labels entry [] m"
    and last: "check_function_end insts entry = None"
    and labels: "\<forall>l k. labels l = Some k \<longrightarrow> k < length insts"
    using AnalyzeFunction_result [OF assms(1-3) ne] .
  have ok: "list_all effect_ok insts" using assms(1) by (simp add: small_function_def)
  note at = reaches_entry [OF inv labels ok]
  have i: "i < length insts" and d: "entry ! i = d" "d \<noteq> -1"
    using at [OF assms(4,5)] by simp_all
  obtain required delta ends where eff: "instructionStackEffect (insts ! i) = Inr (required, delta, ends)"
    and need: "required \<le> d" "d + delta \<le> m"
    using inv i d unfolding loop_inv_def analysed_def by (metis empty_iff empty_set)
  have len: "length entry = length insts" "depths_ok entry" and le: "d \<le> m"
    using inv i d by (auto simp: loop_inv_def)
  note exact = exact_depth [OF assms(1) len i, unfolded d, OF d(2) eff need(1)]
  have "d + delta = 0" if "i + 1 = length insts" and "\<not> ends"
  proof -
    have "length insts - 1 = i" using that(1) by simp
    with last that(2) show ?thesis
      by (simp add: check_function_end_def d eff exact split: if_splits)
  qed
  moreover have "reaches jumps insts labels i d' \<longrightarrow> d' = d"
    using at [OF _ assms(5)] d by auto
  ultimately show ?thesis
    using i eff need le exact(2) effect_okD [OF ok i eff] by blast
qed

section \<open>Properties of the stack analysis\<close>

text \<open>
  C38. The work list of \<^verbatim>\<open>AnalyzeFunction\<close> empties on every function, whatever its
  instructions and payloads: the analysis returns a depth or an error.
\<close>

theorem stack_analysis_returns: "\<exists>r. AnalyzeFunction insts = Some r"
  using AnalyzeFunction_total by auto


text \<open>A branch around two instructions and its join.\<close>

definition sample_code :: "Instruction list" where
  "sample_code =
     [\<lparr>inst_op = ''recover'', inst_payload = []\<rparr>,
      \<lparr>inst_op = ''recover'', inst_payload = []\<rparr>,
      \<lparr>inst_op = ''jump_if'', inst_payload = json_text ''{~label~:~a~}''\<rparr>,
      \<lparr>inst_op = ''recover'', inst_payload = []\<rparr>,
      \<lparr>inst_op = ''pop'', inst_payload = []\<rparr>,
      \<lparr>inst_op = ''label'', inst_payload = json_text ''{~label~:~a~}''\<rparr>,
      \<lparr>inst_op = ''pop'', inst_payload = []\<rparr>]"

lemma sample_code_analysed: "AnalyzeFunction sample_code = Some (Inr 2)"
  by code_simp

lemma label_payload:
  "decode_label (json_text ''{~label~:~a~}'') = Some ''a''"
  "DecodeInstructionPayload dec_jump zero_jump (json_text ''{~label~:~a~}'') =
     Some \<lparr>jmp_label = ''a''\<rparr>"
  "TrimSpace ''a'' = ''a''"
  by code_simp+

lemma sample_code_small: "small_function sample_code"
proof -
  have "list_all effect_ok sample_code" by code_simp
  then show ?thesis by (simp add: small_function_def sample_code_def)
qed

lemma sample_code_labels: "collect_labels 0 sample_code Map.empty = Inr [''a'' \<mapsto> 5]"
  by (simp add: sample_code_def label_payload Let_def eval_nat_numeral)


text \<open>
  An unconditional jump is terminal for \<^verbatim>\<open>instructionStackEffect\<close>, so the loop never looks at
  its target: code that only a jump reaches is not analysed.  The machine gets from the jump
  to a \<^verbatim>\<open>pop\<close> on an empty stack in a function the analysis accepts.
\<close>

definition jump_code :: "Instruction list" where
  "jump_code =
     [\<lparr>inst_op = ''jump'', inst_payload = json_text ''{~label~:~a~}''\<rparr>,
      \<lparr>inst_op = ''label'', inst_payload = json_text ''{~label~:~a~}''\<rparr>,
      \<lparr>inst_op = ''pop'', inst_payload = []\<rparr>]"

lemma jump_code_analysed: "AnalyzeFunction jump_code = Some (Inr 0)" by code_simp

lemma jump_code_flow:
  "flow_successors jump_code [''a'' \<mapsto> 1] 0 = Inr [1]"
  "flow_successors jump_code [''a'' \<mapsto> 1] 1 = Inr [2]"
  by (simp_all add: jump_code_def flow_successors_def jumpTarget_def label_payload)

lemma jump_code_effects:
  "instructionStackEffect (jump_code ! 1) = Inr (0, 0, False)"
  "instructionStackEffect (jump_code ! 2) = Inr (1, -1, False)"
  by code_simp+

lemma jump_target_unchecked:
  "AnalyzeFunction jump_code = Some (Inr 0) \<and> reaches True jump_code [''a'' \<mapsto> 1] 2 0 \<and>
   instructionStackEffect (jump_code ! 2) = Inr (1, -1, False)"
proof -
  have "inst_op (jump_code ! 0) = ''jump''" and "jump_code \<noteq> []" by (simp_all add: jump_code_def)
  with reaches.jump [OF TrueI reaches.start _ jump_code_flow(1)]
  have "reaches True jump_code [''a'' \<mapsto> 1] 1 0" by blast
  from reaches.step [OF this jump_code_effects(1) jump_code_flow(2), of 2] show ?thesis
    using jump_code_analysed jump_code_effects(2) by simp
qed

text \<open>
  The counts of payloads are checked to be non-negative, but the effect is computed in 64
  bits: twice an entry count of \<open>2 ^ 63 - 1\<close> is \<open>-2\<close>, so \<^verbatim>\<open>make_map\<close> asks for nothing and
  leaves three values.
\<close>

definition overflow_code :: "Instruction list" where
  "overflow_code =
     [\<lparr>inst_op = ''make_map'', inst_payload = json_text ''{~entry_count~:9223372036854775807}''\<rparr>,
      \<lparr>inst_op = ''pop'', inst_payload = []\<rparr>,
      \<lparr>inst_op = ''pop'', inst_payload = []\<rparr>,
      \<lparr>inst_op = ''pop'', inst_payload = []\<rparr>]"

lemma overflow_parse:
  "json_parse (json_text ''{~entry_count~:9223372036854775807}'') =
     Some (JObject [(''entry_count'', JNumber ''9223372036854775807'')])"
  by code_simp

lemma overflow_number: "ParseInt64 ''9223372036854775807'' = Some (2 ^ 63 - 1)"
  by (simp add: ParseInt64_def ParseUint_def alnum_val_def)

lemma map_count_overflows: "instructionStackEffect (overflow_code ! 0) = Inr (-2, 3, False)"
  by (simp add: instructionStackEffect_def stack_effect_of_def overflow_code_def with_payload_def
      DecodeInstructionPayload_def strictUnmarshal_def overflow_parse dec_make_map_def
      field_for_def field_def overflow_number zero_make_map_def int64_def)

lemma overflow_accepted: "AnalyzeFunction overflow_code = Some (Inr 3)"
proof -
  have pops: "instructionStackEffect \<lparr>inst_op = ''pop'', inst_payload = []\<rparr> = Inr (1, -1, False)"
    by code_simp
  have eff: "instructionStackEffect
      \<lparr>inst_op = ''make_map'', inst_payload = json_text ''{~entry_count~:9223372036854775807}''\<rparr> =
      Inr (-2, 3, False)"
    using map_count_overflows by (simp add: overflow_code_def)
  show ?thesis
    by (simp add: AnalyzeFunction_def overflow_code_def analysis_fuel_def numeral_eq_Suc pops eff
        flow_successors_def check_function_end_def int64_def Let_def)
qed

end
