(* ===== verification/Validate.thy ===== *)
theory Validate
  imports Stack
begin

text \<open>
  Validation of the instructions and functions of an artifact:
  \<^verbatim>\<open>src/runtime/bytecode/validate_instructions.go\<close>, \<^verbatim>\<open>validate_functions.go\<close> and the structs of
  \<^verbatim>\<open>artifact.go\<close> they read.

  A validator returns the error or \<open>None\<close>.  Sets of ids are lists; \<^verbatim>\<open>collectIDs\<close> trims, the
  lookups do not.  The type table is read as a value: it has been validated and owns its
  index, and its cache does not change what \<^verbatim>\<open>Underlying\<close> returns (theory Types).
\<close>

section \<open>The structs of an artifact\<close>

record Local =
  local_id :: string
  local_type :: TypeRef

record Upvalue =
  upvalue_id :: string
  upvalue_type :: TypeRef

record Function =
  fn_id :: string
  fn_revision_local :: bool
  fn_no_switch :: bool
  fn_signature :: FunctionSignature
  fn_locals :: "Local list"
  fn_result_locals :: "string list"
  fn_upvalues :: "Upvalue list"
  fn_max_stack :: int
  fn_instructions :: "Instruction list"

record Requirement =
  req_kind :: string
  req_module_path :: string
  req_hash :: string
  req_exports :: "string list"

record artifactRefs =
  refs_modulePath :: string
  refs_types :: "string list"
  refs_constants :: "string list"
  refs_untypedConstants :: "string \<Rightarrow> bool"
  refs_globals :: "string list"
  refs_functions :: "string list"
  refs_functionSignatures :: "string \<rightharpoonup> FunctionSignature"
  refs_functionPCs :: "string \<rightharpoonup> nat"
  refs_functionUpvalues :: "string \<rightharpoonup> nat"
  refs_moduleExports :: "string \<rightharpoonup> string list"

section \<open>The shape of one instruction\<close>

definition decodePayload ::
  "'a decoder \<Rightarrow> 'a \<Rightarrow> string \<Rightarrow> string \<Rightarrow> ('a \<Rightarrow> ValidationError option) \<Rightarrow> ValidationError option" where
  "decodePayload d zero path raw k =
     (case DecodeInstructionPayload d zero raw of
        None \<Rightarrow> Some (newValidationError (path @ ''.payload''))
      | Some p \<Rightarrow> k p)"

definition require :: "bool \<Rightarrow> ValidationError \<Rightarrow> ValidationError option" where
  "require ok e = (if ok then None else Some e)"

definition require_field :: "string \<Rightarrow> string \<Rightarrow> ValidationError option" where
  "require_field value path = require (TrimSpace value \<noteq> []) (missingValidationError path)"

definition require_nonneg :: "int \<Rightarrow> string \<Rightarrow> ValidationError option" where
  "require_nonneg n path = require (0 \<le> n) (newValidationError path)"

definition require_type :: "TypeRef \<Rightarrow> string \<Rightarrow> ValidationError option" where
  "require_type t path = require (Valid t) (missingValidationError path)"

text \<open>The checks of a sequence of \<^verbatim>\<open>if err ... return err\<close>: the first error.\<close>

fun first_error :: "ValidationError option list \<Rightarrow> ValidationError option" where
  "first_error [] = None"
| "first_error (None # es) = first_error es"
| "first_error (Some e # es) = Some e"

fun struct_fields_error :: "string \<Rightarrow> nat \<Rightarrow> string list \<Rightarrow> string list \<Rightarrow> ValidationError option" where
  "struct_fields_error path i seen [] = None"
| "struct_fields_error path i seen (f # fs) =
     (let name = TrimSpace f; p = index_path (path @ ''.payload.fields'') i in
      if name = [] then Some (missingValidationError p)
      else if name \<in> set seen then Some (newValidationError p)
      else struct_fields_error path (i + 1) (name # seen) fs)"

fun address_path_error :: "string \<Rightarrow> nat \<Rightarrow> AddressPathSegment list \<Rightarrow> ValidationError option" where
  "address_path_error path i [] = None"
| "address_path_error path i (s # ss) =
     (let p = index_path path i; kind = TrimSpace (seg_kind s) in
      if kind = ''indirect'' then address_path_error path (i + 1) ss
      else if kind = ''field'' then
        (if TrimSpace (seg_field s) = [] then Some (missingValidationError (p @ ''.field''))
         else address_path_error path (i + 1) ss)
      else if kind = ''index'' then
        (if TrimSpace (seg_local s) = [] then Some (missingValidationError (p @ ''.local''))
         else address_path_error path (i + 1) ss)
      else Some (unsupportedValueValidationError (p @ ''.kind'')))"

definition validateAddressPathShape :: "string \<Rightarrow> AddressPathSegment list \<Rightarrow> ValidationError option" where
  "validateAddressPathShape path segments = address_path_error path 0 segments"

definition address_shape :: "string \<Rightarrow> AddressPayload \<Rightarrow> ValidationError option" where
  "address_shape path p =
     (let pp = path @ ''.payload'' in
      first_error
        [if adr_kind p = ''export'' then
           (if TrimSpace (adr_module_path p) = [] \<or> TrimSpace (adr_export p) = []
            then Some (missingValidationError pp)
            else if adr_local p \<noteq> [] \<or> adr_upvalue p \<noteq> [] \<or> adr_global p \<noteq> []
            then Some (newValidationError pp) else None)
         else if adr_kind p = ''local'' then require_field (adr_local p) (pp @ ''.local'')
         else if adr_kind p = ''upvalue'' then require_field (adr_upvalue p) (pp @ ''.upvalue'')
         else if adr_kind p = ''global'' then require_field (adr_global p) (pp @ ''.global'')
         else Some (unsupportedValueValidationError (pp @ ''.kind'')),
         require (adr_kind p = ''export'' \<or> adr_module_path p = [] \<and> adr_export p = [])
           (newValidationError pp),
         validateAddressPathShape (pp @ ''.path'') (adr_path p)])"

fun captures_error :: "string \<Rightarrow> nat \<Rightarrow> AddressPayload list \<Rightarrow> ValidationError option" where
  "captures_error path i [] = None"
| "captures_error path i (c # cs) =
     (let p = index_path (path @ ''.payload.captures'') i in
      first_error
        [require (adr_module_path c = [] \<and> adr_export c = []) (newValidationError p),
         if adr_kind c = ''local'' then require_field (adr_local c) (p @ ''.local'')
         else if adr_kind c = ''upvalue'' then require_field (adr_upvalue c) (p @ ''.upvalue'')
         else if adr_kind c = ''global'' then require_field (adr_global c) (p @ ''.global'')
         else Some (unsupportedValueValidationError (p @ ''.kind'')),
         captures_error path (i + 1) cs])"

definition instruction_payload_error :: "string \<Rightarrow> string \<Rightarrow> string \<Rightarrow> ValidationError option" where
  "instruction_payload_error path op raw =
     (let pp = path @ ''.payload'' in
      if op = ''const'' then
        decodePayload dec_const zero_const path raw
          (\<lambda>p. require_field (cst_constant p) (pp @ ''.constant''))
      else if op \<in> set [''zero'', ''type_assert'', ''type_assert_ok'', ''convert''] then
        decodePayload dec_type zero_type path raw (\<lambda>p. require_type (typ_type p) (pp @ ''.type''))
      else if op \<in> set [''unary'', ''binary''] then
        decodePayload dec_operator zero_operator path raw
          (\<lambda>p. require_field (opp_operator p) (pp @ ''.operator''))
      else if op = ''make_sequence'' then
        decodePayload dec_make_sequence zero_make_sequence path raw (\<lambda>p. first_error
          [require_type (msq_type p) (pp @ ''.type''),
           require_nonneg (msq_element_count p) (pp @ ''.element_count'')])
      else if op = ''make_map'' then
        decodePayload dec_make_map zero_make_map path raw (\<lambda>p. first_error
          [require_type (mm_type p) (pp @ ''.type''),
           require_nonneg (mm_entry_count p) (pp @ ''.entry_count'')])
      else if op = ''make_struct'' then
        decodePayload dec_make_struct zero_make_struct path raw (\<lambda>p. first_error
          [require_type (mst_type p) (pp @ ''.type''), struct_fields_error path 0 [] (mst_fields p)])
      else if op = ''make_slice'' then
        decodePayload dec_make_slice zero_make_slice path raw
          (\<lambda>p. require_type (msl_type p) (pp @ ''.type''))
      else if op = ''make_waitable'' then
        decodePayload dec_make_waitable zero_make_waitable path raw
          (\<lambda>p. require_type (mwt_type p) (pp @ ''.type''))
      else if op = ''append'' then
        decodePayload dec_count zero_count path raw (\<lambda>p. first_error
          [require_nonneg (cp_count p) (pp @ ''.count''),
           require (\<not> (cp_expand p \<and> cp_count p \<noteq> 1)) (newValidationError (pp @ ''.count''))])
      else if op \<in> set [''load_field'', ''store_field''] then
        decodePayload dec_field_name zero_field_name path raw
          (\<lambda>p. require_field (fp_field p) (pp @ ''.field''))
      else if op = ''load_export'' then
        decodePayload dec_export zero_export path raw (\<lambda>p. first_error
          [require_field (exp_module_path p) (pp @ ''.module_path''),
           require_field (exp_export p) (pp @ ''.export'')])
      else if op = ''init_module'' then
        decodePayload dec_init_module zero_init_module path raw
          (\<lambda>p. require_field (im_module_path p) (pp @ ''.module_path''))
      else if op \<in> set [''load_local'', ''store_local'', ''map_iter_init'', ''map_iter_next'',
                        ''map_iter_close''] then
        decodePayload dec_local zero_local path raw
          (\<lambda>p. require_field (lcp_local p) (pp @ ''.local''))
      else if op \<in> set [''load_upvalue'', ''store_upvalue''] then
        decodePayload dec_upvalue zero_upvalue path raw
          (\<lambda>p. require_field (uvp_upvalue p) (pp @ ''.upvalue''))
      else if op \<in> set [''load_global'', ''store_global''] then
        decodePayload dec_global zero_global path raw
          (\<lambda>p. require_field (glp_global p) (pp @ ''.global''))
      else if op = ''address_of'' then
        decodePayload dec_address zero_address path raw (address_shape path)
      else if op = ''label'' then
        decodePayload dec_label zero_label path raw
          (\<lambda>p. require_field (lbl_label p) (pp @ ''.label''))
      else if op \<in> set [''jump'', ''jump_if''] then
        decodePayload dec_jump zero_jump path raw
          (\<lambda>p. require_field (jmp_label p) (pp @ ''.label''))
      else if op \<in> set [''call_direct'', ''tail_call_direct''] then
        decodePayload dec_call zero_call path raw (\<lambda>p. first_error
          [require_field (call_function p) (pp @ ''.function''),
           require_nonneg (call_arg_count p) (pp @ ''.arg_count''),
           require_nonneg (call_result_count p) (pp @ ''.result_count'')])
      else if op = ''call_interface'' then
        decodePayload dec_call_interface zero_call_interface path raw (\<lambda>p. first_error
          [require_type (ci_interface_type p) (pp @ ''.interface_type''),
           require_field (ci_method p) (pp @ ''.method''),
           require_nonneg (ci_arg_count p) (pp @ ''.arg_count''),
           require_nonneg (ci_result_count p) (pp @ ''.result_count'')])
      else if op = ''make_closure'' then
        decodePayload dec_closure zero_closure path raw (\<lambda>p. first_error
          [require_field (clo_function p) (pp @ ''.function''), captures_error path 0 (clo_captures p)])
      else if op \<in> set [''call_value'', ''spawn''] then
        decodePayload dec_call zero_call path raw (\<lambda>p. first_error
          [require_nonneg (call_arg_count p) (pp @ ''.arg_count''),
           require_nonneg (call_result_count p) (pp @ ''.result_count''),
           require (\<not> (op = ''spawn'' \<and> call_result_count p \<noteq> 0))
             (newValidationError (pp @ ''.result_count''))])
      else if op = ''return'' then
        decodePayload dec_return zero_return path raw
          (\<lambda>p. require_nonneg (rp_result_count p) (pp @ ''.result_count''))
      else if op = ''defer_push'' then
        (if TrimSpace raw = [] then None
         else decodePayload dec_defer zero_defer path raw
                (\<lambda>p. require_nonneg (dfp_owner_depth p) (pp @ ''.owner_depth'')))
      else if op = ''call_ffi'' then
        decodePayload dec_call_ffi zero_call_ffi path raw (\<lambda>p. first_error
          [require (ffi_arg_count p = 2) (newValidationError (pp @ ''.arg_count'')),
           require (ffi_result_count p = 3) (newValidationError (pp @ ''.result_count''))])
      else if op = ''call_intrinsic'' then
        decodePayload dec_call_intrinsic zero_call_intrinsic path raw (\<lambda>p.
          case Intrinsic (in_id p) of
            None \<Rightarrow> Some (unknownValidationError (pp @ ''.id''))
          | Some d \<Rightarrow> first_error
              [require (in_arg_count p = intr_arg_count d)
                 (schemaMismatchValidationError (pp @ ''.arg_count'')),
               require (in_result_count p = intr_result_count d)
                 (schemaMismatchValidationError (pp @ ''.result_count''))])
      else None)"

definition validateInstructionPayload :: "string \<Rightarrow> Instruction \<Rightarrow> ValidationError option" where
  "validateInstructionPayload path inst =
     (case OpcodeSpecFor (inst_op inst) of
        None \<Rightarrow> None
      | Some s \<Rightarrow>
          if spec_payload s = [] then
            require (TrimSpace (inst_payload inst) \<in> {[], ''{}''})
              (newCodedValidationError ValidationPayloadUnexpected (path @ ''.payload''))
          else instruction_payload_error path (inst_op inst) (inst_payload inst))"

definition validateInstruction :: "string \<Rightarrow> Instruction \<Rightarrow> ValidationError option" where
  "validateInstruction path inst =
     first_error
       [require_field (inst_op inst) (path @ ''.op''),
        require (IsKnownOpcode (inst_op inst))
          (newCodedValidationError ValidationOpcodeUnknown (path @ ''.op'')),
        require (inst_payload inst = [] \<or> json_parse (inst_payload inst) \<noteq> None)
          (newCodedValidationError ValidationPayloadInvalidJSON (path @ ''.payload'')),
        validateInstructionPayload path inst]"

section \<open>Types and ids\<close>

definition validateTypeRef :: "string \<Rightarrow> TypeRef \<Rightarrow> TypeTable \<Rightarrow> ValidationError option" where
  "validateTypeRef path ref table =
     (if \<not> Valid ref then Some (newValidationError path)
      else if ref_node ref \<noteq> [] \<and> fst (Node ref table) = None
      then Some (unknownValidationError path) else None)"

fun params_error :: "string \<Rightarrow> nat \<Rightarrow> bool \<Rightarrow> TypeRef list \<Rightarrow> TypeTable \<Rightarrow> ValidationError option" where
  "params_error path i variadic [] table = None"
| "params_error path i variadic (p # ps) table =
     first_error
       [validateTypeRef (index_path (path @ ''.params'') i) p table,
        if variadic \<and> ps = [] then
          (case fst (Node (fst (Underlying p table)) table) of
             Some node \<Rightarrow> require (node_kind node = KSlice) (newValidationError (path @ ''.variadic''))
           | None \<Rightarrow> Some (newValidationError (path @ ''.variadic'')))
        else None,
        params_error path (i + 1) variadic ps table]"

fun type_refs_error :: "string \<Rightarrow> string \<Rightarrow> nat \<Rightarrow> TypeRef list \<Rightarrow> TypeTable \<Rightarrow> ValidationError option" where
  "type_refs_error part suffix i [] table = None"
| "type_refs_error part suffix i (r # rs) table =
     first_error [validateTypeRef (index_path part i @ suffix) r table,
                  type_refs_error part suffix (i + 1) rs table]"

definition validateFunctionSignature ::
  "string \<Rightarrow> FunctionSignature \<Rightarrow> TypeTable \<Rightarrow> ValidationError option" where
  "validateFunctionSignature path s table =
     first_error
       [params_error path 0 (sig_variadic s) (sig_params s) table,
        type_refs_error (path @ ''.results'') [] 0 (sig_results s) table]"

fun unique_ids :: "string \<Rightarrow> nat \<Rightarrow> string list \<Rightarrow> string list \<Rightarrow> ValidationError option" where
  "unique_ids part i seen [] = None"
| "unique_ids part i seen (x # xs) =
     (let v = TrimSpace x; p = index_path part i @ ''.id'' in
      if v = [] then Some (missingValidationError p)
      else if v \<in> set seen then Some (newCodedValidationError ValidationIDDuplicate p)
      else unique_ids part (i + 1) (v # seen) xs)"

definition validateUniqueIDs :: "string \<Rightarrow> string list \<Rightarrow> ValidationError option" where
  "validateUniqueIDs part xs = unique_ids part 0 [] xs"

definition collectIDs :: "string list \<Rightarrow> string list" where
  "collectIDs xs = filter (\<lambda>x. x \<noteq> []) (map TrimSpace xs)"

fun result_locals_error ::
  "string \<Rightarrow> nat \<Rightarrow> string list \<Rightarrow> string list \<Rightarrow> string list \<Rightarrow> ValidationError option" where
  "result_locals_error path i locals seen [] = None"
| "result_locals_error path i locals seen (x # xs) =
     (let l = TrimSpace x; p = index_path path i in
      if l = [] then Some (missingValidationError p)
      else if l \<notin> set locals then Some (unknownValidationError p)
      else if l \<in> set seen then Some (newValidationError p)
      else result_locals_error path (i + 1) locals (l # seen) xs)"

definition validateResultLocals :: "string \<Rightarrow> Function \<Rightarrow> string list \<Rightarrow> ValidationError option" where
  "validateResultLocals path fn locals =
     (if fn_result_locals fn = [] then None
      else if length (fn_result_locals fn) \<noteq> length (sig_results (fn_signature fn))
      then Some (schemaMismatchValidationError path)
      else result_locals_error path 0 locals [] (fn_result_locals fn))"

section \<open>The references of one instruction\<close>

fun address_path_refs :: "string \<Rightarrow> nat \<Rightarrow> AddressPathSegment list \<Rightarrow> string list \<Rightarrow> ValidationError option" where
  "address_path_refs path i [] locals = None"
| "address_path_refs path i (s # ss) locals =
     (let p = index_path path i; kind = TrimSpace (seg_kind s) in
      if kind = ''indirect'' then address_path_refs path (i + 1) ss locals
      else if kind = ''field'' then
        (if TrimSpace (seg_field s) = [] then Some (missingValidationError (p @ ''.field''))
         else address_path_refs path (i + 1) ss locals)
      else if kind = ''index'' then
        (if TrimSpace (seg_local s) = [] then Some (missingValidationError (p @ ''.local''))
         else if seg_local s \<notin> set locals then Some (unknownValidationError (p @ ''.local''))
         else address_path_refs path (i + 1) ss locals)
      else Some (unsupportedValueValidationError (p @ ''.kind'')))"

definition validateAddressPathRefs ::
  "string \<Rightarrow> AddressPathSegment list \<Rightarrow> string list \<Rightarrow> ValidationError option" where
  "validateAddressPathRefs path segments locals = address_path_refs path 0 segments locals"

definition export_error ::
  "(string \<rightharpoonup> string list) \<Rightarrow> string \<Rightarrow> string \<Rightarrow> string \<Rightarrow> ValidationError option" where
  "export_error exports path modulePath export =
     (case exports modulePath of
        None \<Rightarrow> Some (unknownValidationError (path @ ''.module_path''))
      | Some names \<Rightarrow> require (export \<in> set names) (unknownValidationError (path @ ''.export'')))"

definition validateAddressRef ::
  "string \<Rightarrow> AddressPayload \<Rightarrow> artifactRefs \<Rightarrow> string list \<Rightarrow> string list \<Rightarrow> ValidationError option" where
  "validateAddressRef path p refs locals upvalues =
     first_error
       [if adr_kind p = ''export'' then
          export_error (refs_moduleExports refs) path (adr_module_path p) (adr_export p)
        else if adr_kind p = ''local'' then
          require (adr_local p \<in> set locals) (unknownValidationError (path @ ''.local''))
        else if adr_kind p = ''upvalue'' then
          require (adr_upvalue p \<in> set upvalues) (unknownValidationError (path @ ''.upvalue''))
        else if adr_kind p = ''global'' then
          require (adr_global p \<in> set (refs_globals refs)) (unknownValidationError (path @ ''.global''))
        else Some (unsupportedValueValidationError (path @ ''.kind'')),
        validateAddressPathRefs (path @ ''.path'') (adr_path p) locals]"

definition validateCallCounts :: "string \<Rightarrow> int \<Rightarrow> int \<Rightarrow> FunctionSignature \<Rightarrow> ValidationError option" where
  "validateCallCounts path arguments results s =
     first_error
       [require (arguments = int (length (sig_params s)))
          (schemaMismatchValidationError (path @ ''.arg_count'')),
        require (results = int (length (sig_results s)))
          (schemaMismatchValidationError (path @ ''.result_count''))]"

text \<open>A module path names another module unless it is empty or the artifact's own.\<close>

definition other_module :: "artifactRefs \<Rightarrow> string \<Rightarrow> bool" where
  "other_module refs m = (m \<noteq> [] \<and> m \<noteq> refs_modulePath refs)"

definition require_module :: "artifactRefs \<Rightarrow> string \<Rightarrow> string \<Rightarrow> ValidationError option" where
  "require_module refs m path =
     require (refs_moduleExports refs m \<noteq> None) (unknownValidationError (path @ ''.module_path''))"

fun captures_refs ::
  "string \<Rightarrow> nat \<Rightarrow> AddressPayload list \<Rightarrow> artifactRefs \<Rightarrow> string list \<Rightarrow> string list \<Rightarrow>
   ValidationError option" where
  "captures_refs path i [] refs locals upvalues = None"
| "captures_refs path i (c # cs) refs locals upvalues =
     first_error
       [validateAddressRef (index_path (path @ ''.payload.captures'') i) c refs locals upvalues,
        captures_refs path (i + 1) cs refs locals upvalues]"

definition interface_call_error :: "string \<Rightarrow> CallInterfacePayload \<Rightarrow> TypeTable \<Rightarrow> ValidationError option" where
  "interface_call_error pp p table =
     (case fst (Node (fst (Underlying (ci_interface_type p) table)) table) of
        None \<Rightarrow> Some (newValidationError (pp @ ''.interface_type''))
      | Some node \<Rightarrow>
          if node_kind node \<noteq> KInterface then Some (newValidationError (pp @ ''.interface_type''))
          else case find (\<lambda>m. tm_name m = ci_method p) (node_methods node) of
                 Some m \<Rightarrow> validateCallCounts pp (ci_arg_count p) (ci_result_count p) (tm_signature m)
               | None \<Rightarrow> None)"

definition closure_error ::
  "string \<Rightarrow> ClosurePayload \<Rightarrow> artifactRefs \<Rightarrow> string list \<Rightarrow> string list \<Rightarrow> ValidationError option" where
  "closure_error path p refs locals upvalues =
     (let pp = path @ ''.payload''; m = TrimSpace (clo_module_path p) in
      first_error
        [if other_module refs m then require_module refs m pp
         else require (clo_function p \<in> set (refs_functions refs))
                (unknownValidationError (pp @ ''.function'')),
         require (other_module refs m \<or>
                  (case refs_functionUpvalues refs (clo_function p) of None \<Rightarrow> 0 | Some n \<Rightarrow> n) =
                    length (clo_captures p))
           (schemaMismatchValidationError (pp @ ''.captures'')),
         captures_refs path 0 (clo_captures p) refs locals upvalues])"

definition validateInstructionRefs ::
  "string \<Rightarrow> Instruction \<Rightarrow> artifactRefs \<Rightarrow> string list \<Rightarrow> string list \<Rightarrow> TypeTable \<Rightarrow>
   ValidationError option" where
  "validateInstructionRefs path inst refs locals upvalues table =
     (let op = inst_op inst; raw = inst_payload inst; pp = path @ ''.payload'' in
      if op = ''const'' then
        decodePayload dec_const zero_const path raw (\<lambda>p. first_error
          [require (cst_constant p \<in> set (refs_constants refs))
             (unknownValidationError (pp @ ''.constant'')),
           require (\<not> refs_untypedConstants refs (cst_constant p))
             (newValidationError (pp @ ''.constant''))])
      else if op \<in> set [''load_local'', ''store_local'', ''map_iter_init'', ''map_iter_next'',
                        ''map_iter_close''] then
        decodePayload dec_local zero_local path raw (\<lambda>p. first_error
          [require (\<not> (lcp_rebind p \<and> op \<noteq> ''store_local'')) (newValidationError (pp @ ''.rebind'')),
           require (lcp_local p \<in> set locals) (unknownValidationError (pp @ ''.local''))])
      else if op \<in> set [''load_upvalue'', ''store_upvalue''] then
        decodePayload dec_upvalue zero_upvalue path raw
          (\<lambda>p. require (uvp_upvalue p \<in> set upvalues) (unknownValidationError (pp @ ''.upvalue'')))
      else if op \<in> set [''load_global'', ''store_global''] then
        decodePayload dec_global zero_global path raw
          (\<lambda>p. require (glp_global p \<in> set (refs_globals refs)) (unknownValidationError (pp @ ''.global'')))
      else if op = ''address_of'' then
        decodePayload dec_address zero_address path raw
          (\<lambda>p. validateAddressRef pp p refs locals upvalues)
      else if op \<in> set [''call_direct'', ''tail_call_direct''] then
        decodePayload dec_call zero_call path raw (\<lambda>p.
          let m = TrimSpace (call_module_path p) in
          if other_module refs m then require_module refs m pp
          else case refs_functionSignatures refs (call_function p) of
                 None \<Rightarrow> Some (unknownValidationError (pp @ ''.function''))
               | Some s \<Rightarrow> validateCallCounts pp (call_arg_count p) (call_result_count p) s)
      else if op = ''call_interface'' then
        decodePayload dec_call_interface zero_call_interface path raw
          (\<lambda>p. interface_call_error pp p table)
      else if op = ''make_closure'' then
        decodePayload dec_closure zero_closure path raw
          (\<lambda>p. closure_error path p refs locals upvalues)
      else if op = ''call_ffi'' then
        decodePayload dec_call_ffi zero_call_ffi path raw
          (\<lambda>p. require (ffi_arg_count p = 2 \<and> ffi_result_count p = 3) (schemaMismatchValidationError pp))
      else if op = ''call_intrinsic'' then
        decodePayload dec_call_intrinsic zero_call_intrinsic path raw (\<lambda>p.
          case Intrinsic (in_id p) of
            None \<Rightarrow> Some (newValidationError (pp @ ''.id''))
          | Some d \<Rightarrow> require (intr_arg_count d = in_arg_count p \<and> intr_result_count d = in_result_count p)
                        (newValidationError (pp @ ''.id'')))
      else if op = ''load_export'' then
        decodePayload dec_export zero_export path raw
          (\<lambda>p. export_error (refs_moduleExports refs) pp (exp_module_path p) (exp_export p))
      else if op = ''init_module'' then
        decodePayload dec_init_module zero_init_module path raw
          (\<lambda>p. require_module refs (im_module_path p) pp)
      else None)"

section \<open>The body of a function\<close>

definition result_count_error ::
  "string \<Rightarrow> FunctionSignature \<Rightarrow> int \<Rightarrow> ValidationError option" where
  "result_count_error path s n =
     require (n = int (length (sig_results s)))
       (schemaMismatchValidationError (path @ ''.payload.result_count''))"

definition result_counts_error ::
  "string \<Rightarrow> FunctionSignature \<Rightarrow> Instruction \<Rightarrow> ValidationError option" where
  "result_counts_error path s inst =
     (if inst_op inst = ''return'' then
        decodePayload dec_return zero_return path (inst_payload inst)
          (\<lambda>p. result_count_error path s (rp_result_count p))
      else if inst_op inst = ''tail_call_direct'' then
        decodePayload dec_call zero_call path (inst_payload inst)
          (\<lambda>p. result_count_error path s (call_result_count p))
      else None)"

definition label_step ::
  "string \<Rightarrow> nat \<Rightarrow> Instruction \<Rightarrow> (string \<rightharpoonup> nat) \<Rightarrow> ValidationError + (string \<rightharpoonup> nat)" where
  "label_step path i inst labels =
     (if inst_op inst \<noteq> ''label'' then Inr labels
      else case decode_label (inst_payload inst) of
             None \<Rightarrow> Inl (newValidationError (path @ ''.payload''))
           | Some label \<Rightarrow>
               if label = [] then Inl (missingValidationError (path @ ''.payload.label''))
               else if labels label \<noteq> None
               then Inl (newCodedValidationError ValidationLabelDuplicate (path @ ''.payload.label''))
               else Inr (labels(label \<mapsto> i)))"

fun instructions_error ::
  "string \<Rightarrow> nat \<Rightarrow> Function \<Rightarrow> artifactRefs \<Rightarrow> string list \<Rightarrow> string list \<Rightarrow> TypeTable \<Rightarrow>
   Instruction list \<Rightarrow> (string \<rightharpoonup> nat) \<Rightarrow> ValidationError + (string \<rightharpoonup> nat)" where
  "instructions_error path i fn refs locals upvalues table [] labels = Inr labels"
| "instructions_error path i fn refs locals upvalues table (inst # insts) labels =
     (let p = index_path (path @ ''.instructions'') i in
      case first_error
             [validateInstruction p inst,
              validateInstructionRefs p inst refs locals upvalues table,
              result_counts_error p (fn_signature fn) inst] of
        Some e \<Rightarrow> Inl e
      | None \<Rightarrow>
          (case label_step p i inst labels of
             Inl e \<Rightarrow> Inl e
           | Inr labels' \<Rightarrow>
               instructions_error path (i + 1) fn refs locals upvalues table insts labels'))"

fun jumps_error :: "string \<Rightarrow> nat \<Rightarrow> Instruction list \<Rightarrow> (string \<rightharpoonup> nat) \<Rightarrow> ValidationError option" where
  "jumps_error path i [] labels = None"
| "jumps_error path i (inst # insts) labels =
     (let p = index_path (path @ ''.instructions'') i in
      first_error
        [if inst_op inst = ''jump'' \<or> inst_op inst = ''jump_if'' then
           decodePayload dec_jump zero_jump p (inst_payload inst) (\<lambda>j.
             let label = TrimSpace (jmp_label j) in
             first_error
               [require (label \<noteq> []) (missingValidationError (p @ ''.payload.label'')),
                require (labels label \<noteq> None)
                  (newCodedValidationError ValidationLabelUnknown (p @ ''.payload.label''))])
         else None,
         jumps_error path (i + 1) insts labels])"

definition scheduling_opcodes :: "string list" where
  "scheduling_opcodes =
     [''call_direct'', ''tail_call_direct'', ''call_value'', ''call_interface'', ''call_ffi'',
      ''call_intrinsic'', ''spawn'', ''defer_push'', ''init_module'', ''load_export'',
      ''waitable_send'', ''waitable_recv'', ''waitable_recv_ok'', ''wait_set_park'']"

fun no_switch_error :: "string \<Rightarrow> nat \<Rightarrow> Instruction list \<Rightarrow> ValidationError option" where
  "no_switch_error path i [] = None"
| "no_switch_error path i (inst # insts) =
     (if inst_op inst \<in> set scheduling_opcodes
      then Some (newCodedValidationError ValidationNoSwitchInvalid
                   (index_path (path @ ''.instructions'') i))
      else no_switch_error path (i + 1) insts)"

definition validateNoSwitchFunction :: "string \<Rightarrow> Function \<Rightarrow> ValidationError option" where
  "validateNoSwitchFunction path fn = no_switch_error path 0 (fn_instructions fn)"

text \<open>The checks of the declarations, before the instructions.\<close>

definition declarations_error ::
  "string \<Rightarrow> Function \<Rightarrow> TypeTable \<Rightarrow> ValidationError option" where
  "declarations_error path fn table =
     first_error
       [validateFunctionSignature (path @ ''.signature'') (fn_signature fn) table,
        type_refs_error (path @ ''.locals'') ''.type'' 0 (map local_type (fn_locals fn)) table,
        type_refs_error (path @ ''.upvalues'') ''.type'' 0 (map upvalue_type (fn_upvalues fn)) table,
        validateResultLocals (path @ ''.result_locals'') fn (collectIDs (map local_id (fn_locals fn))),
        validateUniqueIDs (path @ ''.upvalues'') (map upvalue_id (fn_upvalues fn))]"

definition prefix_error :: "string \<Rightarrow> ValidationError \<Rightarrow> ValidationError" where
  "prefix_error path e = newCodedValidationError (ve_code e) (path @ ''.'' @ ve_path e)"

definition validateFunctionBody ::
  "string \<Rightarrow> Function \<Rightarrow> artifactRefs \<Rightarrow> TypeTable \<Rightarrow> (ValidationError + int) option" where
  "validateFunctionBody path fn refs table =
     (let insts = fn_instructions fn;
          locals = collectIDs (map local_id (fn_locals fn));
          upvalues = collectIDs (map upvalue_id (fn_upvalues fn)) in
      case declarations_error path fn table of
        Some e \<Rightarrow> Some (Inl e)
      | None \<Rightarrow>
          (case instructions_error path 0 fn refs locals upvalues table insts Map.empty of
             Inl e \<Rightarrow> Some (Inl e)
           | Inr labels \<Rightarrow>
               (case first_error
                       [jumps_error path 0 insts labels,
                        if fn_no_switch fn then validateNoSwitchFunction path fn else None] of
                  Some e \<Rightarrow> Some (Inl e)
                | None \<Rightarrow>
                    (case AnalyzeFunction insts of
                       None \<Rightarrow> None
                     | Some (Inl e) \<Rightarrow> Some (Inl (prefix_error path e))
                     | Some (Inr m) \<Rightarrow> Some (Inr m)))))"

section \<open>Validated instructions have an effect\<close>

definition counted_opcodes :: "string list" where
  "counted_opcodes =
     [''append'', ''make_sequence'', ''make_map'', ''make_struct'', ''make_slice'', ''return'',
      ''call_value'', ''call_direct'', ''tail_call_direct'', ''call_interface'', ''spawn'',
      ''call_ffi'', ''call_intrinsic'']"

definition within :: "int \<Rightarrow> bool" where
  "within n = (n \<le> 2 ^ 30)"

text \<open>
  The counts of a payload that enter the stack effect are at most \<open>2 ^ 30\<close>; validation itself
  sets no upper bound.
\<close>

definition small_payload :: "Instruction \<Rightarrow> bool" where
  "small_payload inst =
     (let raw = inst_payload inst in
      list_all within
        (case DecodeInstructionPayload dec_count zero_count raw of
           None \<Rightarrow> [] | Some p \<Rightarrow> [cp_count p]) \<and>
      list_all within
        (case DecodeInstructionPayload dec_make_sequence zero_make_sequence raw of
           None \<Rightarrow> [] | Some p \<Rightarrow> [msq_element_count p]) \<and>
      list_all within
        (case DecodeInstructionPayload dec_make_map zero_make_map raw of
           None \<Rightarrow> [] | Some p \<Rightarrow> [mm_entry_count p]) \<and>
      list_all within
        (case DecodeInstructionPayload dec_make_struct zero_make_struct raw of
           None \<Rightarrow> [] | Some p \<Rightarrow> [int (length (mst_fields p))]) \<and>
      list_all within
        (case DecodeInstructionPayload dec_return zero_return raw of
           None \<Rightarrow> [] | Some p \<Rightarrow> [rp_result_count p]) \<and>
      list_all within
        (case DecodeInstructionPayload dec_call zero_call raw of
           None \<Rightarrow> [] | Some p \<Rightarrow> [call_arg_count p, call_result_count p]) \<and>
      list_all within
        (case DecodeInstructionPayload dec_call_interface zero_call_interface raw of
           None \<Rightarrow> [] | Some p \<Rightarrow> [ci_arg_count p, ci_result_count p]))"

lemma first_error_None [simp]: "first_error es = None \<longleftrightarrow> (\<forall>e \<in> set es. e = None)"
  by (induction es rule: first_error.induct) auto

lemma require_None [simp]: "require ok e = None \<longleftrightarrow> ok"
  by (simp add: require_def)

lemma require_field_None: "require_field v p = None \<longleftrightarrow> TrimSpace v \<noteq> []"
  by (simp add: require_field_def)

lemma require_nonneg_None: "require_nonneg n p = None \<longleftrightarrow> 0 \<le> n"
  by (simp add: require_nonneg_def)

lemma require_type_None: "require_type t p = None \<longleftrightarrow> Valid t"
  by (simp add: require_type_def)

lemma decodePayload_None:
  "decodePayload d zero path raw k = None \<longleftrightarrow>
     (\<exists>p. DecodeInstructionPayload d zero raw = Some p \<and> k p = None)"
  by (auto simp: decodePayload_def split: option.split)

lemmas payload_None = first_error_None require_None require_field_None require_nonneg_None
  require_type_None decodePayload_None

lemma fixed_opcodes:
  "list_all (\<lambda>op. op \<in> set counted_opcodes \<or>
     (case stack_effect_of op raw of
        Inl e \<Rightarrow> False
      | Inr (required, delta, ends) \<Rightarrow> 0 \<le> required \<and> - required \<le> delta \<and> delta \<le> 3))
   (map spec_op opcodeSpecs)"
  by code_simp

lemma counted_specs:
  "list_all (\<lambda>op. case OpcodeSpecFor op of None \<Rightarrow> False | Some s \<Rightarrow> spec_payload s \<noteq> []) counted_opcodes"
  by code_simp

lemma intrinsic_counts:
  "list_all (\<lambda>d. 0 \<le> intr_arg_count d \<and> intr_arg_count d \<le> 10 \<and>
       0 \<le> intr_result_count d \<and> intr_result_count d \<le> 10) (rev intrinsicDescriptors)"
  by code_simp

lemma Intrinsic_counts:
  "Intrinsic i = Some d \<Longrightarrow>
   0 \<le> intr_arg_count d \<and> intr_arg_count d \<le> 10 \<and> 0 \<le> intr_result_count d \<and> intr_result_count d \<le> 10"
  using intrinsic_counts by (auto simp: Intrinsic_def find_Some_iff list_all_length)

lemma validated_payload:
  assumes "validateInstruction path inst = None" and "inst_op inst \<in> set counted_opcodes"
  shows "instruction_payload_error path (inst_op inst) (inst_payload inst) = None"
  using assms counted_specs
  by (auto simp: validateInstruction_def validateInstructionPayload_def list_all_iff
      split: option.splits)

lemma small_int64: "- (2 ^ 32) \<le> n \<Longrightarrow> n \<le> 2 ^ 32 \<Longrightarrow> int64 n = n"
  by (rule int64_id) (simp add: in_int64_def)

lemma counted_effects:
  "stack_effect_of ''append'' raw =
        with_payload dec_count zero_count raw
          (\<lambda>p. let need = int64 (cp_count p + 1) in (need, int64 (1 - need), False))"
  "stack_effect_of ''make_sequence'' raw =
        with_payload dec_make_sequence zero_make_sequence raw
          (\<lambda>p. (msq_element_count p, int64 (1 - msq_element_count p), False))"
  "stack_effect_of ''make_map'' raw =
        with_payload dec_make_map zero_make_map raw
          (\<lambda>p. let need0 = int64 (mm_entry_count p * 2);
                   need = (if mm_has_capacity p then int64 (need0 + 1) else need0)
               in (need, int64 (1 - need), False))"
  "stack_effect_of ''make_struct'' raw =
        with_payload dec_make_struct zero_make_struct raw
          (\<lambda>p. let need = int (length (mst_fields p)) in (need, int64 (1 - need), False))"
  "stack_effect_of ''make_slice'' raw =
        with_payload dec_make_slice zero_make_slice raw
          (\<lambda>p. if msl_has_capacity p then (2, -1, False) else (1, 0, False))"
  "stack_effect_of ''return'' raw =
        with_payload dec_return zero_return raw
          (\<lambda>p. (rp_result_count p, int64 (- rp_result_count p), True))"
  "stack_effect_of ''call_value'' raw =
        with_payload dec_call zero_call raw
          (\<lambda>p. let need = int64 (call_arg_count p + 1)
               in (need, int64 (call_result_count p - need), False))"
  "stack_effect_of ''call_direct'' raw =
        with_payload dec_call zero_call raw
          (\<lambda>p. (call_arg_count p, int64 (call_result_count p - call_arg_count p), False))"
  "stack_effect_of ''tail_call_direct'' raw =
        with_payload dec_call zero_call raw
          (\<lambda>p. (call_arg_count p, int64 (- call_arg_count p), True))"
  "stack_effect_of ''call_interface'' raw =
        with_payload dec_call_interface zero_call_interface raw
          (\<lambda>p. let need = int64 (ci_arg_count p + 1)
               in (need, int64 (ci_result_count p - need), False))"
  "stack_effect_of ''spawn'' raw =
        with_payload dec_call zero_call raw
          (\<lambda>p. let need = int64 (call_arg_count p + 1) in (need, int64 (- need), False))"
  "stack_effect_of ''call_ffi'' raw =
        with_payload dec_call_ffi zero_call_ffi raw
          (\<lambda>p. (ffi_arg_count p, int64 (ffi_result_count p - ffi_arg_count p), False))"
  "stack_effect_of ''call_intrinsic'' raw =
        with_payload dec_call_intrinsic zero_call_intrinsic raw
          (\<lambda>p. (in_arg_count p, int64 (in_result_count p - in_arg_count p), False))"
  by (simp_all add: stack_effect_of_def)

lemma counted_payloads:
  "instruction_payload_error path ''append'' raw =
        decodePayload dec_count zero_count path raw (\<lambda>p. first_error
          [require_nonneg (cp_count p) ((path @ ''.payload'') @ ''.count''),
           require (\<not> (cp_expand p \<and> cp_count p \<noteq> 1)) (newValidationError ((path @ ''.payload'') @ ''.count''))])"
  "instruction_payload_error path ''make_sequence'' raw =
        decodePayload dec_make_sequence zero_make_sequence path raw (\<lambda>p. first_error
          [require_type (msq_type p) ((path @ ''.payload'') @ ''.type''),
           require_nonneg (msq_element_count p) ((path @ ''.payload'') @ ''.element_count'')])"
  "instruction_payload_error path ''make_map'' raw =
        decodePayload dec_make_map zero_make_map path raw (\<lambda>p. first_error
          [require_type (mm_type p) ((path @ ''.payload'') @ ''.type''),
           require_nonneg (mm_entry_count p) ((path @ ''.payload'') @ ''.entry_count'')])"
  "instruction_payload_error path ''make_struct'' raw =
        decodePayload dec_make_struct zero_make_struct path raw (\<lambda>p. first_error
          [require_type (mst_type p) ((path @ ''.payload'') @ ''.type''), struct_fields_error path 0 [] (mst_fields p)])"
  "instruction_payload_error path ''make_slice'' raw =
        decodePayload dec_make_slice zero_make_slice path raw
          (\<lambda>p. require_type (msl_type p) ((path @ ''.payload'') @ ''.type''))"
  "instruction_payload_error path ''return'' raw =
        decodePayload dec_return zero_return path raw
          (\<lambda>p. require_nonneg (rp_result_count p) ((path @ ''.payload'') @ ''.result_count''))"
  "instruction_payload_error path ''call_value'' raw =
        decodePayload dec_call zero_call path raw (\<lambda>p. first_error
          [require_nonneg (call_arg_count p) ((path @ ''.payload'') @ ''.arg_count''),
           require_nonneg (call_result_count p) ((path @ ''.payload'') @ ''.result_count''),
           require (\<not> (''call_value'' = ''spawn'' \<and> call_result_count p \<noteq> 0))
             (newValidationError ((path @ ''.payload'') @ ''.result_count''))])"
  "instruction_payload_error path ''call_direct'' raw =
        decodePayload dec_call zero_call path raw (\<lambda>p. first_error
          [require_field (call_function p) ((path @ ''.payload'') @ ''.function''),
           require_nonneg (call_arg_count p) ((path @ ''.payload'') @ ''.arg_count''),
           require_nonneg (call_result_count p) ((path @ ''.payload'') @ ''.result_count'')])"
  "instruction_payload_error path ''tail_call_direct'' raw =
        decodePayload dec_call zero_call path raw (\<lambda>p. first_error
          [require_field (call_function p) ((path @ ''.payload'') @ ''.function''),
           require_nonneg (call_arg_count p) ((path @ ''.payload'') @ ''.arg_count''),
           require_nonneg (call_result_count p) ((path @ ''.payload'') @ ''.result_count'')])"
  "instruction_payload_error path ''call_interface'' raw =
        decodePayload dec_call_interface zero_call_interface path raw (\<lambda>p. first_error
          [require_type (ci_interface_type p) ((path @ ''.payload'') @ ''.interface_type''),
           require_field (ci_method p) ((path @ ''.payload'') @ ''.method''),
           require_nonneg (ci_arg_count p) ((path @ ''.payload'') @ ''.arg_count''),
           require_nonneg (ci_result_count p) ((path @ ''.payload'') @ ''.result_count'')])"
  "instruction_payload_error path ''spawn'' raw =
        decodePayload dec_call zero_call path raw (\<lambda>p. first_error
          [require_nonneg (call_arg_count p) ((path @ ''.payload'') @ ''.arg_count''),
           require_nonneg (call_result_count p) ((path @ ''.payload'') @ ''.result_count''),
           require (\<not> (''spawn'' = ''spawn'' \<and> call_result_count p \<noteq> 0))
             (newValidationError ((path @ ''.payload'') @ ''.result_count''))])"
  "instruction_payload_error path ''call_ffi'' raw =
        decodePayload dec_call_ffi zero_call_ffi path raw (\<lambda>p. first_error
          [require (ffi_arg_count p = 2) (newValidationError ((path @ ''.payload'') @ ''.arg_count'')),
           require (ffi_result_count p = 3) (newValidationError ((path @ ''.payload'') @ ''.result_count''))])"
  "instruction_payload_error path ''call_intrinsic'' raw =
        decodePayload dec_call_intrinsic zero_call_intrinsic path raw (\<lambda>p.
          case Intrinsic (in_id p) of
            None \<Rightarrow> Some (unknownValidationError ((path @ ''.payload'') @ ''.id''))
          | Some d \<Rightarrow> first_error
              [require (in_arg_count p = intr_arg_count d)
                 (schemaMismatchValidationError ((path @ ''.payload'') @ ''.arg_count'')),
               require (in_result_count p = intr_result_count d)
                 (schemaMismatchValidationError ((path @ ''.payload'') @ ''.result_count''))])"
  by (simp_all add: instruction_payload_error_def Let_def)

lemma validated_effect:
  assumes valid: "validateInstruction path inst = None" and small: "small_payload inst"
  shows "effect_ok inst \<and> (\<exists>eff. instructionStackEffect inst = Inr eff)"
proof (cases "inst_op inst \<in> set counted_opcodes")
  case False
  have "inst_op inst \<in> set (map spec_op opcodeSpecs)"
    using valid by (simp add: validateInstruction_def IsKnownOpcode_def)
  with False fixed_opcodes [of "inst_payload inst"] show ?thesis
    unfolding list_all_iff effect_ok_def instructionStackEffect_def
    by (fastforce split: sum.splits prod.splits)
next
  case True
  note shape = validated_payload [OF valid True]
  note unfold = counted_effects counted_payloads effect_ok_def instructionStackEffect_def
    with_payload_def payload_None within_def small_payload_def Let_def
  from True consider "inst_op inst = ''append''" | "inst_op inst = ''make_sequence''"
    | "inst_op inst = ''make_map''" | "inst_op inst = ''make_struct''" | "inst_op inst = ''make_slice''"
    | "inst_op inst = ''return''" | "inst_op inst = ''call_value''" | "inst_op inst = ''call_direct''"
    | "inst_op inst = ''tail_call_direct''" | "inst_op inst = ''call_interface''"
    | "inst_op inst = ''spawn''" | "inst_op inst = ''call_ffi''" | "inst_op inst = ''call_intrinsic''"
    unfolding counted_opcodes_def by auto
  then show ?thesis
  proof cases
    case 1 with shape small show ?thesis by (auto simp: unfold small_int64)
  next
    case 2 with shape small show ?thesis by (auto simp: unfold small_int64)
  next
    case 3 with shape small show ?thesis by (auto simp: unfold small_int64)
  next
    case 4 with shape small show ?thesis by (auto simp: unfold small_int64)
  next
    case 5 with shape small show ?thesis by (auto simp: unfold small_int64)
  next
    case 6 with shape small show ?thesis by (auto simp: unfold small_int64)
  next
    case 7 with shape small show ?thesis by (auto simp: unfold small_int64)
  next
    case 8 with shape small show ?thesis by (auto simp: unfold small_int64)
  next
    case 9 with shape small show ?thesis by (auto simp: unfold small_int64)
  next
    case 10 with shape small show ?thesis by (auto simp: unfold small_int64)
  next
    case 11 with shape small show ?thesis by (auto simp: unfold small_int64)
  next
    case 12 with shape small show ?thesis by (auto simp: unfold small_int64)
  next
    case 13 with shape small show ?thesis
      by (auto simp: unfold small_int64 split: option.splits dest!: Intrinsic_counts)
  qed
qed

section \<open>Validated functions\<close>

lemma instructions_error_sound:
  assumes "instructions_error path i fn refs locals upvalues table insts labels = Inr labels'"
  shows "collect_labels i insts labels = Inr labels'"
    and "inst \<in> set insts \<Longrightarrow> \<exists>p. validateInstruction p inst = None \<and>
      validateInstructionRefs p inst refs locals upvalues table = None \<and>
      result_counts_error p (fn_signature fn) inst = None"
  using assms
proof (induction insts arbitrary: i labels)
  case (Cons x insts)
  {
    case 1
    then show ?case
      using Cons.IH(1) by (auto simp: Let_def label_step_def split: option.splits sum.splits if_splits)
  next
    case 2
    then obtain m where "instructions_error path (i + 1) fn refs locals upvalues table insts m = Inr labels'"
      and "first_error [validateInstruction (index_path (path @ ''.instructions'') i) x,
          validateInstructionRefs (index_path (path @ ''.instructions'') i) x refs locals upvalues table,
          result_counts_error (index_path (path @ ''.instructions'') i) (fn_signature fn) x] = None"
      by (auto simp: Let_def simp del: first_error_None first_error.simps split: option.splits sum.splits)
    with Cons.IH(2) 2(1) show ?case by auto
  }
qed simp_all

lemma no_switch_sound:
  "no_switch_error path i insts = None \<Longrightarrow> inst \<in> set insts \<Longrightarrow> inst_op inst \<notin> set scheduling_opcodes"
  by (induction insts arbitrary: i) (auto split: if_splits)

lemma validateFunctionBody_total: "validateFunctionBody path fn refs table \<noteq> None"
  using AnalyzeFunction_total [of "fn_instructions fn"]
  by (auto simp: validateFunctionBody_def Let_def simp del: first_error_None
      split: option.split sum.split)

lemma validateFunctionBody_ok:
  assumes "validateFunctionBody path fn refs table = Some (Inr m)"
  obtains labels where
    "instructions_error path 0 fn refs (collectIDs (map local_id (fn_locals fn)))
       (collectIDs (map upvalue_id (fn_upvalues fn))) table (fn_instructions fn) Map.empty = Inr labels"
    and "AnalyzeFunction (fn_instructions fn) = Some (Inr m)"
    and "fn_no_switch fn \<longrightarrow> validateNoSwitchFunction path fn = None"
  using assms that
  by (auto simp: validateFunctionBody_def Let_def split: option.splits sum.splits if_splits)

lemma return_effect:
  assumes "result_counts_error p s inst = None" and "inst_op inst = ''return''"
    and "instructionStackEffect inst = Inr (required, delta, ends)"
  shows "required = int (length (sig_results s)) \<and> ends"
  using assms
  by (auto simp: result_counts_error_def payload_None result_count_error_def
      instructionStackEffect_def counted_effects with_payload_def)

lemma local_ref:
  assumes "validateInstructionRefs p inst refs locals upvalues table = None"
    and "inst_op inst \<in> {''load_local'', ''store_local''}"
  shows "\<exists>x. DecodeInstructionPayload dec_local zero_local (inst_payload inst) = Some x \<and>
    lcp_local x \<in> set locals"
  using assms by (auto simp: validateInstructionRefs_def Let_def payload_None)

section \<open>Properties\<close>




section \<open>A sample function\<close>

definition sample_load :: Instruction where
  "sample_load = \<lparr>inst_op = ''load_local'', inst_payload = json_text ''{~local~:~x~}''\<rparr>"

definition sample_function :: Function where
  "sample_function =
     \<lparr>fn_id = ''f'', fn_revision_local = False, fn_no_switch = True,
      fn_signature = \<lparr>sig_params = [], sig_results = [], sig_variadic = False\<rparr>,
      fn_locals = [\<lparr>local_id = ''x'', local_type = Builtin PrimitiveInt\<rparr>],
      fn_result_locals = [], fn_upvalues = [], fn_max_stack = 0,
      fn_instructions = [sample_load, \<lparr>inst_op = ''pop'', inst_payload = []\<rparr>]\<rparr>"

definition no_refs :: artifactRefs where
  "no_refs =
     \<lparr>refs_modulePath = ''m'', refs_types = [], refs_constants = [],
      refs_untypedConstants = (\<lambda>_. False), refs_globals = [], refs_functions = [''f''],
      refs_functionSignatures = Map.empty, refs_functionPCs = Map.empty,
      refs_functionUpvalues = Map.empty, refs_moduleExports = Map.empty\<rparr>"

lemma sample_function_valid:
  "validateInstruction [] sample_load = None"
  "validateFunctionBody ''functions'' sample_function no_refs sample_table = Some (Inr 1)"
  by code_simp+

lemma sample_payloads:
  "DecodeInstructionPayload dec_count zero_count (inst_payload sample_load) = None"
  "DecodeInstructionPayload dec_make_sequence zero_make_sequence (inst_payload sample_load) = None"
  "DecodeInstructionPayload dec_make_map zero_make_map (inst_payload sample_load) = None"
  "DecodeInstructionPayload dec_make_struct zero_make_struct (inst_payload sample_load) = None"
  "DecodeInstructionPayload dec_return zero_return (inst_payload sample_load) = None"
  "DecodeInstructionPayload dec_call zero_call (inst_payload sample_load) = None"
  "DecodeInstructionPayload dec_call_interface zero_call_interface (inst_payload sample_load) = None"
  by code_simp+

lemma small_empty: "inst_payload inst = [] \<Longrightarrow> small_payload inst"
  by (simp add: small_payload_def Let_def within_def
      DecodeInstructionPayload_empty dec_count_def dec_make_sequence_def dec_make_map_def
      dec_make_struct_def dec_return_def dec_call_def dec_call_interface_def zero_count_def
      zero_make_sequence_def zero_make_map_def zero_make_struct_def zero_return_def zero_call_def
      zero_call_interface_def)

lemma sample_load_small: "small_payload sample_load"
  by (simp add: small_payload_def sample_payloads Let_def)

lemma sample_function_small: "\<forall>inst \<in> set (fn_instructions sample_function). small_payload inst"
  by (simp add: sample_function_def sample_load_small small_empty)



end
