(* ===== verification/Spec2Isabelle.thy ===== *)
theory Spec2Isabelle
  imports Const_Value Transport Rpc_Value Target Relations Validate
begin

text \<open>
  Verification of the constant arithmetic of the Mini-Go compiler.
\<close>

end
